(* ===== verification/Prelude.thy ===== *)
theory Prelude
  imports "HOL-Library.Word"
begin

text \<open>
  Shared vocabulary of the development: the machine integers of a 64-bit target, Rust's
  \<open>Result\<close>, the checked, saturating and bitwise integer operations of the standard library that
  the sources call, little-endian byte strings, and the generic lemmas on words and lists that the
  component theories share. The collection \<open>bits\<close> holds the bit-level rewrite rules that decide
  equations between packed control words.
\<close>

unbundle bit_operations_syntax

named_theorems bits \<open>bit-level characterisations of packed words\<close>

type_synonym u8 = "8 word"
type_synonym u16 = "16 word"
type_synonym u32 = "32 word"
type_synonym u64 = "64 word"
type_synonym usize = "64 word"
type_synonym byte = "8 word"

abbreviation USIZE :: nat where
  "USIZE \<equiv> 18446744073709551616"

abbreviation ISIZE_MAX :: nat where
  "ISIZE_MAX \<equiv> 9223372036854775807"

section \<open>Results\<close>

datatype ('a, 'e) result = Ok 'a | Err 'e

primrec is_ok :: "('a, 'e) result \<Rightarrow> bool" where
  "is_ok (Ok _) = True"
| "is_ok (Err _) = False"

primrec bind_result :: "('a, 'e) result \<Rightarrow> ('a \<Rightarrow> ('b, 'e) result) \<Rightarrow> ('b, 'e) result" where
  "bind_result (Ok a) f = f a"
| "bind_result (Err e) f = Err e"

primrec ok_or :: "'a option \<Rightarrow> 'e \<Rightarrow> ('a, 'e) result" where
  "ok_or None e = Err e"
| "ok_or (Some a) e = Ok a"

lemma bind_result_Ok [simp]:
  "bind_result r f = Ok b \<longleftrightarrow> (\<exists>a. r = Ok a \<and> f a = Ok b)"
  by (cases r) auto

lemma ok_or_Ok [simp]: "ok_or x e = Ok a \<longleftrightarrow> x = Some a"
  by (cases x) auto

lemma is_ok_iff: "is_ok r \<longleftrightarrow> (\<exists>a. r = Ok a)"
  by (cases r) auto

section \<open>Integer operations of the standard library\<close>

definition checked_add :: "'a::len word \<Rightarrow> 'a word \<Rightarrow> 'a word option" where
  "checked_add a b = (if unat a + unat b < 2 ^ LENGTH('a) then Some (a + b) else None)"

definition checked_sub :: "'a::len word \<Rightarrow> 'a word \<Rightarrow> 'a word option" where
  "checked_sub a b = (if b \<le> a then Some (a - b) else None)"

definition saturating_add :: "'a::len word \<Rightarrow> 'a word \<Rightarrow> 'a word" where
  "saturating_add a b = (if - 1 - a < b then - 1 else a + b)"

definition saturating_sub :: "'a::len word \<Rightarrow> 'a word \<Rightarrow> 'a word" where
  "saturating_sub a b = (if b \<le> a then a - b else 0)"

definition rotate_left :: "'a::len word \<Rightarrow> nat \<Rightarrow> 'a word" where
  "rotate_left w n = (push_bit n w OR drop_bit (LENGTH('a) - n) w)"

text \<open>
  Sizes, lengths and offsets that the sources only use in checked arithmetic are natural numbers
  with the check against \<open>usize::MAX\<close> written out.
\<close>

definition checked_add_usize :: "nat \<Rightarrow> nat \<Rightarrow> nat option" where
  "checked_add_usize a b = (if a + b < USIZE then Some (a + b) else None)"

definition checked_mul_usize :: "nat \<Rightarrow> nat \<Rightarrow> nat option" where
  "checked_mul_usize a b = (if a * b < USIZE then Some (a * b) else None)"

text \<open>\<open>usize::checked_shl\<close> checks the shift amount only; bits shifted out are lost.\<close>

definition checked_shl_usize :: "nat \<Rightarrow> nat \<Rightarrow> nat option" where
  "checked_shl_usize a n = (if n < 64 then Some (a * 2 ^ n mod USIZE) else None)"

text \<open>The comparisons with \<open>usize::MAX\<close> are evaluated on integers.\<close>

lemma checked_usize_code [code]:
  "checked_add_usize a b = (if int (a + b) < 18446744073709551616 then Some (a + b) else None)"
  "checked_mul_usize a b = (if int (a * b) < 18446744073709551616 then Some (a * b) else None)"
  "checked_shl_usize a n =
     (if n < 64 then Some (let x = a * 2 ^ n in if int x < 18446744073709551616 then x else x mod USIZE) else None)"
proof -
  have small: "int x < 18446744073709551616 \<longleftrightarrow> x < USIZE" for x
    by simp
  show
    "checked_add_usize a b = (if int (a + b) < 18446744073709551616 then Some (a + b) else None)"
    "checked_mul_usize a b = (if int (a * b) < 18446744073709551616 then Some (a * b) else None)"
    "checked_shl_usize a n =
       (if n < 64 then Some (let x = a * 2 ^ n in if int x < 18446744073709551616 then x else x mod USIZE) else None)"
    unfolding checked_add_usize_def checked_mul_usize_def checked_shl_usize_def Let_def small by simp_all
qed

fun ilog2 :: "nat \<Rightarrow> nat" where
  "ilog2 n = (if n \<le> 1 then 0 else Suc (ilog2 (n div 2)))"

declare ilog2.simps [simp del]

definition is_power_of_two :: "nat \<Rightarrow> bool" where
  "is_power_of_two n \<longleftrightarrow> 0 < n \<and> n = 2 ^ ilog2 n"

definition next_power_of_two :: "nat \<Rightarrow> nat" where
  "next_power_of_two n = (if n \<le> 1 then 1 else 2 ^ Suc (ilog2 (n - 1)))"

definition checked_next_power_of_two :: "nat \<Rightarrow> nat option" where
  "checked_next_power_of_two n =
     (let p = next_power_of_two n in if p < USIZE then Some p else None)"

lemma checked_next_power_of_two_code [code]:
  "checked_next_power_of_two n =
     (let p = next_power_of_two n in if int p < 18446744073709551616 then Some p else None)"
  by (simp add: checked_next_power_of_two_def Let_def)

definition align_up :: "nat \<Rightarrow> nat \<Rightarrow> nat" where
  "align_up n a = (n + a - 1) div a * a"

subsection \<open>Powers of two and alignment\<close>

lemma ilog2_le: "0 < n \<Longrightarrow> 2 ^ ilog2 n \<le> n"
proof (induction n rule: ilog2.induct)
  case (1 n)
  then show ?case
    by (subst ilog2.simps) (auto simp: div_greater_zero_iff)
qed

lemma less_ilog2: "n < 2 ^ Suc (ilog2 n)"
proof (induction n rule: ilog2.induct)
  case (1 n)
  then show ?case
    by (subst ilog2.simps) auto
qed

lemma ilog2_unique: "2 ^ k \<le> n \<Longrightarrow> n < 2 ^ Suc k \<Longrightarrow> ilog2 n = k"
proof (induction k arbitrary: n)
  case 0
  then show ?case by (subst ilog2.simps) auto
next
  case (Suc k)
  from Suc.prems have "2 ^ k \<le> n div 2" and "n div 2 < 2 ^ Suc k"
    by auto
  then have "ilog2 (n div 2) = k"
    by (rule Suc.IH)
  moreover have "\<not> n \<le> 1"
    using Suc.prems(1) one_le_power [of "2::nat" k] unfolding power_Suc by linarith
  ultimately show ?case
    by (subst ilog2.simps) simp
qed

lemma ilog2_power [simp]: "ilog2 (2 ^ k) = k"
  by (rule ilog2_unique) simp_all

lemma is_power_of_two_iff: "is_power_of_two n \<longleftrightarrow> (\<exists>k. n = 2 ^ k)"
  by (auto simp: is_power_of_two_def)

lemma next_power_of_two_power: "\<exists>k. next_power_of_two n = 2 ^ k"
  unfolding next_power_of_two_def by (metis power_0)

lemma next_power_of_two_ge: "n \<le> next_power_of_two n"
  using less_ilog2 [of "n - 1"] by (auto simp: next_power_of_two_def)

lemma next_power_of_two_least:
  assumes "n \<le> 2 ^ k"
  shows "next_power_of_two n \<le> 2 ^ k"
proof (cases "n \<le> 1")
  case False
  then have "2 ^ ilog2 (n - 1) < (2::nat) ^ k"
    using ilog2_le [of "n - 1"] assms by linarith
  then have "Suc (ilog2 (n - 1)) \<le> k"
    by simp
  then show ?thesis
    using False by (simp add: next_power_of_two_def power_increasing del: power_Suc)
qed (simp add: next_power_of_two_def)

lemma next_power_of_two_fixed [simp]: "next_power_of_two (2 ^ k) = 2 ^ k"
  using next_power_of_two_ge [of "2 ^ k"] next_power_of_two_least [of "2 ^ k" k] by simp

lemma align_up_ge: "0 < a \<Longrightarrow> n \<le> align_up n a"
  using div_mult_mod_eq [of "n + a - 1" a] mod_less_divisor [of a "n + a - 1"]
  unfolding align_up_def by linarith

lemma align_up_less: "0 < a \<Longrightarrow> align_up n a < n + a"
  using div_mult_mod_eq [of "n + a - 1" a]
  unfolding align_up_def by linarith

lemma align_up_dvd [simp]: "a dvd align_up n a"
  by (simp add: align_up_def)

section \<open>Little-endian byte strings\<close>

fun bytes_of_nat :: "nat \<Rightarrow> nat \<Rightarrow> byte list" where
  "bytes_of_nat 0 n = []"
| "bytes_of_nat (Suc k) n = of_nat (n mod 256) # bytes_of_nat k (n div 256)"

fun nat_of_bytes :: "byte list \<Rightarrow> nat" where
  "nat_of_bytes [] = 0"
| "nat_of_bytes (b # bs) = unat b + 256 * nat_of_bytes bs"

definition to_le_bytes :: "'a::len word \<Rightarrow> byte list" where
  "to_le_bytes w = bytes_of_nat (LENGTH('a) div 8) (unat w)"

definition from_le_bytes :: "byte list \<Rightarrow> 'a::len word" where
  "from_le_bytes bs = of_nat (nat_of_bytes bs)"

lemma length_bytes_of_nat [simp]: "length (bytes_of_nat k n) = k"
  by (induction k arbitrary: n) auto

lemma length_to_le_bytes [simp]: "length (to_le_bytes (w :: 'a::len word)) = LENGTH('a) div 8"
  by (simp add: to_le_bytes_def)

lemma nat_of_bytes_bytes_of_nat: "nat_of_bytes (bytes_of_nat k n) = n mod 256 ^ k"
proof (induction k arbitrary: n)
  case (Suc k)
  have "unat (of_nat (n mod 256) :: byte) = n mod 256"
    by (simp add: unat_of_nat)
  with Suc show ?case
    by (simp add: mod_mult2_eq)
qed simp

lemma nat_of_bytes_less: "nat_of_bytes bs < 256 ^ length bs"
proof (induction bs)
  case (Cons b bs)
  have "unat b < 256"
    using unsigned_less [of b] by simp
  with Cons show ?case by simp
qed simp

lemma bytes_of_nat_of_bytes: "length bs = k \<Longrightarrow> bytes_of_nat k (nat_of_bytes bs) = bs"
proof (induction bs arbitrary: k)
  case (Cons b bs)
  have b: "unat b < 256"
    using unsigned_less [of b] by simp
  then have "(unat b + 256 * nat_of_bytes bs) mod 256 = unat b"
    and "(unat b + 256 * nat_of_bytes bs) div 256 = nat_of_bytes bs"
    by simp_all
  with Cons show ?case by auto
qed simp

text \<open>A word whose width is a whole number of bytes is recovered from its little-endian bytes.\<close>

lemma from_le_bytes_to_le_bytes:
  assumes "8 dvd LENGTH('a)"
  shows "from_le_bytes (to_le_bytes (w :: 'a::len word)) = w"
proof -
  obtain k where k: "LENGTH('a) = 8 * k"
    using assms by (elim dvdE)
  have "(256 :: nat) ^ k = 2 ^ (8 * k)"
    by (simp add: power_mult)
  moreover have "unat w < 2 ^ (8 * k)"
    using unsigned_less [of w] by (simp add: k)
  ultimately have "unat w mod 256 ^ (LENGTH('a) div 8) = unat w"
    by (simp add: k)
  then show ?thesis
    by (simp add: from_le_bytes_def to_le_bytes_def nat_of_bytes_bytes_of_nat)
qed

lemma to_le_bytes_from_le_bytes:
  assumes "8 * length bs = LENGTH('a)"
  shows "to_le_bytes (from_le_bytes bs :: 'a::len word) = bs"
proof -
  have "(256 :: nat) ^ length bs = 2 ^ LENGTH('a)"
    by (simp add: power_mult flip: assms)
  then have "nat_of_bytes bs < 2 ^ LENGTH('a)"
    using nat_of_bytes_less [of bs] by simp
  moreover have "LENGTH('a) div 8 = length bs"
    by (simp flip: assms)
  ultimately show ?thesis
    by (simp add: from_le_bytes_def to_le_bytes_def unat_of_nat bytes_of_nat_of_bytes)
qed

lemma from_le_bytes_inverse [simp]:
  "from_le_bytes (to_le_bytes (w8 :: u8)) = w8"
  "from_le_bytes (to_le_bytes (w16 :: u16)) = w16"
  "from_le_bytes (to_le_bytes (w32 :: u32)) = w32"
  "from_le_bytes (to_le_bytes (w64 :: u64)) = w64"
  by (simp_all add: from_le_bytes_to_le_bytes)

text \<open>The same codec on integers, for evaluation.\<close>

fun bytes_of_int :: "nat \<Rightarrow> int \<Rightarrow> byte list" where
  "bytes_of_int 0 n = []"
| "bytes_of_int (Suc k) n = of_int (n mod 256) # bytes_of_int k (n div 256)"

fun int_of_bytes :: "byte list \<Rightarrow> int" where
  "int_of_bytes [] = 0"
| "int_of_bytes (b # bs) = uint b + 256 * int_of_bytes bs"

lemma bytes_of_int: "bytes_of_int k (int n) = bytes_of_nat k n"
proof (induction k arbitrary: n)
  case (Suc k)
  have "int n mod 256 = int (n mod 256)" "int n div 256 = int (n div 256)"
    by (simp_all add: zmod_int zdiv_int)
  with Suc show ?case
    by (simp only: bytes_of_int.simps bytes_of_nat.simps of_int_of_nat_eq)
qed simp

lemma int_of_bytes: "int_of_bytes bs = int (nat_of_bytes bs)"
  by (induction bs) auto

lemma le_bytes_code [code]:
  "to_le_bytes (w :: 'a::len word) = bytes_of_int (LENGTH('a) div 8) (uint w)"
  "(from_le_bytes bs :: 'b::len word) = of_int (int_of_bytes bs)"
  by (simp_all add: to_le_bytes_def from_le_bytes_def int_of_bytes flip: bytes_of_int)

section \<open>Words\<close>

lemma odd_mult_cancel:
  assumes "odd c" and "c * x = c * (y :: 'a::len word)"
  shows "x = y"
proof -
  let ?m = "2 ^ LENGTH('a) :: int"
  have "(uint c * uint x) mod ?m = (uint c * uint y) mod ?m"
    using assms(2) by (simp flip: uint_word_ariths(3))
  then have "?m dvd uint c * uint x - uint c * uint y"
    by (simp add: mod_eq_dvd_iff)
  then have "?m dvd uint c * (uint x - uint y)"
    by (simp add: right_diff_distrib)
  moreover have "odd (uint c)"
    using assms(1) by (simp add: bit_simps flip: bit_0)
  then have "coprime ?m (uint c)"
    by simp
  ultimately have "?m dvd uint x - uint y"
    by (simp add: coprime_dvd_mult_right_iff)
  then have "uint x mod ?m = uint y mod ?m"
    by (simp only: mod_eq_dvd_iff)
  then show ?thesis
    by (simp add: word_uint_eq_iff)
qed

lemma odd_mult_cancel_iff: "odd c \<Longrightarrow> c * x = c * y \<longleftrightarrow> x = (y :: 'a::len word)"
  using odd_mult_cancel by blast

lemma xor_cancel_left [simp]: "b XOR a = b XOR c \<longleftrightarrow> a = (c :: 'a::len word)"
  by (metis xor.assoc xor_self_eq xor.left_neutral)

lemma xor_cancel_right [simp]: "a XOR b = c XOR b \<longleftrightarrow> a = (c :: 'a::len word)"
  by (metis xor.assoc xor_self_eq xor.right_neutral)

lemma ucast_u32_u64_inverse [simp]: "ucast (ucast (a :: u32) :: u64) = a"
  by (rule bit_word_eqI) (simp add: bit_simps)

lemma ucast_u8_u16_inverse [simp]: "ucast (ucast (a :: u8) :: u16) = a"
  by (rule bit_word_eqI) (simp add: bit_simps)

lemma ucast_u32_u64_inject [simp]: "(ucast (a :: u32) :: u64) = ucast b \<longleftrightarrow> a = b"
  by (metis ucast_u32_u64_inverse)

lemma bit_rotate_left:
  assumes "0 < n" and "n < LENGTH('a)" and "i < LENGTH('a)"
  shows "bit (rotate_left (w :: 'a::len word) n) i \<longleftrightarrow>
    (if n \<le> i then bit w (i - n) else bit w (LENGTH('a) - n + i))"
  using assms by (auto simp: rotate_left_def bit_simps dest: bit_imp_le_length)

lemma rotate_left_inject:
  assumes "0 < n" and "n < LENGTH('a)"
    and eq: "rotate_left x n = rotate_left (y :: 'a::len word) n"
  shows "x = y"
proof (rule bit_word_eqI)
  fix i
  assume i: "i < LENGTH('a)"
  show "bit x i \<longleftrightarrow> bit y i"
  proof (cases "i + n < LENGTH('a)")
    case True
    then show ?thesis
      using bit_rotate_left [OF assms(1,2), of "i + n"] eq by (metis add_diff_cancel_right' le_add2)
  next
    case False
    let ?j = "i + n - LENGTH('a)"
    have "?j < LENGTH('a)" and "\<not> n \<le> ?j" and "LENGTH('a) - n + ?j = i"
      using False i assms(2) by auto
    then show ?thesis
      using bit_rotate_left [OF assms(1,2), of ?j] eq by metis
  qed
qed

lemma rotate_left_cancel [simp]:
  "0 < n \<Longrightarrow> n < LENGTH('a) \<Longrightarrow> rotate_left x n = rotate_left (y :: 'a::len word) n \<longleftrightarrow> x = y"
  using rotate_left_inject by blast

section \<open>Masks and windows\<close>

lemma word_and_mask_plus: "(w :: 'a::len word) = (w AND m) + (w AND NOT m)"
  by (simp add: disjunctive_add bit_simps and.assoc flip: bit.conj_disj_distrib)

lemma unat_and_mask: "unat ((of_nat n :: 'a::len word) AND (2 ^ k - 1)) = n mod 2 ^ k" if "k \<le> LENGTH('a)"
proof -
  have "(of_nat n :: 'a word) AND (2 ^ k - 1) = take_bit k (of_nat n)"
    by (simp add: take_bit_eq_mask mask_eq_exp_minus_1)
  moreover have "unat (take_bit k (of_nat n :: 'a word)) = take_bit k (unat (of_nat n :: 'a word))"
    by transfer (simp add: nat_take_bit_eq min_def)
  ultimately show ?thesis
    using that by (simp add: unat_of_nat take_bit_eq_mod mod_mod_cancel le_imp_power_dvd)
qed

lemma word_and_not_mask:
  "(of_nat n :: 'a::len word) AND NOT (2 ^ k - 1) = of_nat (n - n mod 2 ^ k)" if "k \<le> LENGTH('a)"
proof -
  have "(of_nat n :: 'a word) AND (2 ^ k - 1) = of_nat (n mod 2 ^ k)"
    using arg_cong [OF unat_and_mask [OF that, of n], of "of_nat :: nat \<Rightarrow> 'a word"] by simp
  with word_and_mask_plus [of "of_nat n :: 'a word" "2 ^ k - 1"] show ?thesis
    by (simp add: of_nat_diff algebra_simps)
qed

lemma window_mod_eq:
  assumes "m mod c = n mod c" "(m :: nat) \<le> n" "n < m + c"
  shows "m = n"
proof -
  have "c dvd n - m"
    using assms(1,2) mod_eq_dvd_iff_nat [of m n c] by simp
  with assms(2,3) show ?thesis
    by (auto dest: dvd_imp_le)
qed

text \<open>The participants of a region; \<open>src/header.rs\<close> leaves one bit of a word for the closed mark.\<close>

abbreviation PARTICIPANT_CAPACITY :: nat where "PARTICIPANT_CAPACITY \<equiv> 63"

end
