(* ===== verification/Alloc_Layout.thy ===== *)
theory Alloc_Layout
  imports Prelude
begin

text \<open>
  The part of \<open>core::alloc::Layout\<close> that the sources compute with, and the \<open>repr(C)\<close> rule that
  places the fields of the shared structs. Sizes and alignments are natural numbers; every check of
  the library against \<open>isize::MAX\<close> is written out.
\<close>

record layout =
  size :: nat
  align :: nat

definition layout_ok :: "layout \<Rightarrow> bool" where
  "layout_ok l \<longleftrightarrow> is_power_of_two (align l) \<and> size l + (align l - 1) \<le> ISIZE_MAX"

definition from_size_align :: "nat \<Rightarrow> nat \<Rightarrow> layout option" where
  "from_size_align s a =
     (if is_power_of_two a \<and> s + (a - 1) \<le> ISIZE_MAX then Some \<lparr>size = s, align = a\<rparr> else None)"

lemma from_size_align_code [code]:
  "from_size_align s a =
     (if is_power_of_two a \<and> int s + (int a - 1) \<le> 9223372036854775807 then Some \<lparr>size = s, align = a\<rparr> else None)"
  by (auto simp: from_size_align_def is_power_of_two_def)

text \<open>\<open>Layout::array::<T>(n)\<close>, given the layout of \<open>T\<close>.\<close>

definition array_layout :: "layout \<Rightarrow> nat \<Rightarrow> layout option" where
  "array_layout elem n = from_size_align (size elem * n) (align elem)"

definition layout_extend :: "layout \<Rightarrow> layout \<Rightarrow> (layout \<times> nat) option" where
  "layout_extend l next =
     (let offset = align_up (size l) (align next)
      in map_option (\<lambda>new. (new, offset))
           (from_size_align (offset + size next) (max (align l) (align next))))"

definition pad_to_align :: "layout \<Rightarrow> layout" where
  "pad_to_align l = l\<lparr>size := align_up (size l) (align l)\<rparr>"

text \<open>\<open>repr(C)\<close>: the fields in order, each at the next offset its alignment allows.\<close>

fun repr_c_from :: "layout \<Rightarrow> layout list \<Rightarrow> layout" where
  "repr_c_from l [] = pad_to_align l"
| "repr_c_from l (f # fs) =
     repr_c_from \<lparr>size = align_up (size l) (align f) + size f, align = max (align l) (align f)\<rparr> fs"

definition repr_c :: "layout list \<Rightarrow> layout" where
  "repr_c = repr_c_from \<lparr>size = 0, align = 1\<rparr>"

definition bytes_layout :: "nat \<Rightarrow> layout" where
  "bytes_layout n = \<lparr>size = n, align = 1\<rparr>"

definition int_layout :: "nat \<Rightarrow> layout" where
  "int_layout n = \<lparr>size = n, align = n\<rparr>"

section \<open>Lemmas\<close>

lemma layout_ok_align_pos: "layout_ok l \<Longrightarrow> 0 < align l"
  by (auto simp: layout_ok_def is_power_of_two_def)

lemma from_size_align_Some:
  "from_size_align s a = Some l \<longleftrightarrow> l = \<lparr>size = s, align = a\<rparr> \<and> layout_ok l"
  by (auto simp: from_size_align_def layout_ok_def)

lemma array_layout_Some:
  "array_layout e n = Some l \<longleftrightarrow> l = \<lparr>size = size e * n, align = align e\<rparr> \<and> layout_ok l"
  by (simp add: array_layout_def from_size_align_Some)

lemma power_of_two_dvd:
  "is_power_of_two a \<Longrightarrow> is_power_of_two b \<Longrightarrow> a \<le> b \<Longrightarrow> a dvd b"
  by (auto simp: is_power_of_two_iff dest: power_le_imp_le_exp [rotated] intro: le_imp_power_dvd)

text \<open>
  \<open>layout_extend\<close> places the second layout after the first one, at an offset that its alignment divides,
  and the result contains both.
\<close>

lemma layout_extend_Some:
  assumes "layout_extend l next = Some (new, offset)" and "0 < align next"
  shows "layout_ok new" and "size l \<le> offset" and "offset + size next = size new"
    and "align next dvd offset" and "align new = max (align l) (align next)"
    and "offset = align_up (size l) (align next)"
  using assms align_up_ge [of "align next" "size l"]
  by (auto simp: layout_extend_def Let_def from_size_align_Some)

lemma pad_to_align_simps [simp]:
  "align (pad_to_align l) = align l"
  "align l dvd size (pad_to_align l)"
  by (simp_all add: pad_to_align_def)

lemma pad_to_align_ge: "0 < align l \<Longrightarrow> size l \<le> size (pad_to_align l)"
  by (simp add: pad_to_align_def align_up_ge)

lemma pad_to_align_less: "0 < align l \<Longrightarrow> size (pad_to_align l) < size l + align l"
  by (simp add: pad_to_align_def align_up_less)

text \<open>A smaller part leaves room: extending is monotone in both sizes.\<close>

lemma layout_ok_less: "layout_ok l \<Longrightarrow> size l' \<le> size l \<Longrightarrow> align l' = align l \<Longrightarrow> layout_ok l'"
  by (auto simp: layout_ok_def)

lemma from_size_align_less:
  "from_size_align s a = Some l \<Longrightarrow> s' \<le> s \<Longrightarrow> from_size_align s' a = Some \<lparr>size = s', align = a\<rparr>"
  by (auto simp: from_size_align_def split: if_splits)

lemma array_layout_less:
  "array_layout e n = Some l \<Longrightarrow> n' \<le> n \<Longrightarrow> array_layout e n' = Some \<lparr>size = size e * n', align = align e\<rparr>"
  unfolding array_layout_def by (erule from_size_align_less) simp

lemma layout_extend_less:
  assumes "layout_extend l next = Some (new, offset)" "size l' \<le> size l" "align l' = align l"
    "size next' \<le> size next" "align next' = align next"
  obtains new' offset' where "layout_extend l' next' = Some (new', offset')" "size new' \<le> size new" "align new' = align new"
proof -
  have le: "align_up (size l') (align next) + size next' \<le> align_up (size l) (align next) + size next"
    using assms(2,4) by (intro add_mono) (auto simp: align_up_def intro!: mult_le_mono1 div_le_mono)
  have new: "from_size_align (align_up (size l) (align next) + size next) (max (align l) (align next)) = Some new"
    using assms(1) by (auto simp: layout_extend_def Let_def)
  then have "size new = align_up (size l) (align next) + size next" "align new = max (align l) (align next)"
    by (auto simp: from_size_align_Some)
  with from_size_align_less [OF new le] le assms(3,5) show thesis
    by (intro that [of "\<lparr>size = align_up (size l') (align next) + size next', align = max (align l) (align next)\<rparr>"
        "align_up (size l') (align next)"]) (auto simp: layout_extend_def Let_def)
qed

end
