(* ===== verification/Schema.thy ===== *)
theory Schema
  imports Alloc_Layout
begin

text \<open>
  Identities and locators of \<open>src/schema.rs\<close>, \<open>src/msg.rs\<close> and \<open>src/token.rs\<close>: schema keys and
  their composition, runtime type identifiers, and the token that a queue carries. Schema identity
  is arithmetic on 64-bit words, so it is modelled on words and every multiplication wraps.
\<close>

section \<open>Regions, layouts and schema keys\<close>

record region_id =
  high :: u64
  low :: u64

record layout_id =
  lid_region :: region_id
  lid_offset :: u64

datatype region_admission = Create region_id | Expect region_id | Discover

type_synonym schema_ident = u64

record schema_key =
  key_id :: schema_ident
  revision :: u32

record layout_context =
  ctx_region :: region_id
  ctx_offset :: u64
  allow_init :: bool

definition schema_key_new :: "schema_ident \<Rightarrow> u32 \<Rightarrow> schema_key" where
  "schema_key_new i r = \<lparr>key_id = i, revision = r\<rparr>"

text \<open>The FNV-1a hash of the bytes of a name.\<close>

fun schema_id_from :: "u64 \<Rightarrow> string \<Rightarrow> u64" where
  "schema_id_from hash [] = hash"
| "schema_id_from hash (c # cs) = schema_id_from ((hash XOR of_char c) * 0x100000001b3) cs"

definition schema_id :: "string \<Rightarrow> schema_ident" where
  "schema_id name = schema_id_from 0xcbf29ce484222325 name"

definition compose_schema :: "schema_key \<Rightarrow> schema_key \<Rightarrow> schema_key" where
  "compose_schema domain part =
     schema_key_new
       ((key_id domain XOR rotate_left (key_id part) 17
           XOR rotate_left (ucast (revision part)) 41) * 0x9E3779B97F4A7C15)
       (rotate_left (revision domain) 7 * 0x9E3779B9 XOR revision part)"

definition unit_schema :: schema_key where
  "unit_schema = schema_key_new (schema_id ''evering.unit'') 1"

section \<open>Runtime type identifiers\<close>

type_synonym type_id = u64

definition type_id_for :: "schema_key \<Rightarrow> schema_key \<Rightarrow> type_id" where
  "type_id_for protocol body =
     (schema_id ''evering.type''
        XOR rotate_left (key_id protocol) 7
        XOR rotate_left (ucast (revision protocol)) 19
        XOR rotate_left (key_id body) 31
        XOR rotate_left (ucast (revision body)) 47) * 0x9E3779B97F4A7C15"

definition slice_schema :: "schema_key \<Rightarrow> schema_key" where
  "slice_schema elem = compose_schema (schema_key_new (schema_id ''evering.slice'') 1) elem"

definition encoded_schema :: schema_key where
  "encoded_schema = schema_key_new (schema_id ''evering.encoded'') 2"

definition encoded_id :: "schema_key \<Rightarrow> schema_key \<Rightarrow> type_id" where
  "encoded_id body schema = type_id_for (compose_schema encoded_schema schema) body"

section \<open>Tokens and shapes\<close>

record span =
  span_class :: usize
  span_slot :: usize

datatype metadata = Sized | Slice usize

datatype metadata_error = WrongKind | Overflow

record pool_token =
  tok_pool :: layout_id
  tok_id :: type_id
  tok_span :: span
  tok_generation :: u32
  metadata_kind :: usize
  metadata_len :: usize

definition pool_token_new ::
    "layout_id \<Rightarrow> span \<Rightarrow> u32 \<Rightarrow> metadata \<Rightarrow> type_id \<Rightarrow> pool_token" where
  "pool_token_new pool span generation metadata i =
     (let (kind, len) = (case metadata of Sized \<Rightarrow> (0, 0) | Slice n \<Rightarrow> (1, n))
      in \<lparr>tok_pool = pool, tok_id = i, tok_span = span, tok_generation = generation,
          metadata_kind = kind, metadata_len = len\<rparr>)"

definition token_metadata :: "pool_token \<Rightarrow> metadata option" where
  "token_metadata t =
     (if metadata_kind t = 0 \<and> metadata_len t = 0 then Some Sized
      else if metadata_kind t = 1 then Some (Slice (metadata_len t))
      else None)"

text \<open>\<open>Token<H>\<close>: the locator and the application header that travels with it.\<close>

record 'h token =
  tok :: pool_token
  tok_header :: 'h

definition token_map :: "('h \<Rightarrow> 't) \<Rightarrow> 'h token \<Rightarrow> 't token" where
  "token_map f t = \<lparr>tok = tok t, tok_header = f (tok_header t)\<rparr>"

definition token_schema :: "schema_key \<Rightarrow> schema_key" where
  "token_schema header = compose_schema (schema_key_new (schema_id ''evering.transfer'') 1) header"

text \<open>
  The trait \<open>Shape\<close> is implemented for sized types and for slices; a shape is the layout of the type
  or of the slice element.
\<close>

datatype shape = Sized_of layout | Slice_of layout

fun shape_layout :: "shape \<Rightarrow> metadata \<Rightarrow> (layout, metadata_error) result" where
  "shape_layout (Sized_of l) Sized = Ok l"
| "shape_layout (Sized_of l) (Slice n) = Err WrongKind"
| "shape_layout (Slice_of e) (Slice n) =
     (case array_layout e (unat n) of Some l \<Rightarrow> Ok l | None \<Rightarrow> Err Overflow)"
| "shape_layout (Slice_of e) Sized = Err WrongKind"

section \<open>Composition is injective in the nested schema\<close>

text \<open>
  C8. Two different nested schemas never compose with the same domain to the same key: an
  incompatible change of a nested identifier or revision changes the enclosing identity.
\<close>

theorem compose_schema_inject:
  "compose_schema domain part = compose_schema domain part' \<longleftrightarrow> part = part'"
proof
  assume eq: "compose_schema domain part = compose_schema domain part'"
  then have rev: "revision part = revision part'"
    by (simp add: compose_schema_def schema_key_new_def)
  with eq have "key_id part = key_id part'"
    by (simp add: compose_schema_def schema_key_new_def mult.commute [of _ "0x9E3779B97F4A7C15"]
        odd_mult_cancel_iff)
  with rev show "part = part'"
    by simp
qed simp

text \<open>
  C9. A runtime type identifier separates protocols and bodies: changing any one of the four schema
  components it is derived from changes the identifier.
\<close>

theorem type_id_for_separates:
  "(type_id_for (p\<lparr>key_id := i\<rparr>) b = type_id_for p b \<longleftrightarrow> i = key_id p) \<and>
   (type_id_for (p\<lparr>revision := r\<rparr>) b = type_id_for p b \<longleftrightarrow> r = revision p) \<and>
   (type_id_for p (b\<lparr>key_id := i\<rparr>) = type_id_for p b \<longleftrightarrow> i = key_id b) \<and>
   (type_id_for p (b\<lparr>revision := r\<rparr>) = type_id_for p b \<longleftrightarrow> r = revision b)"
  by (simp add: type_id_for_def mult.commute [of _ "0x9E3779B97F4A7C15"] odd_mult_cancel_iff)

text \<open>
  Metadata survives the token's raw representation, and a raw pair of words that no constructor of
  \<open>Metadata\<close> produces is rejected.
\<close>

lemma token_metadata_exact:
  "token_metadata (pool_token_new pool sp g m i) = Some m \<and>
   (token_metadata t = Some m \<longleftrightarrow>
      t = pool_token_new (tok_pool t) (tok_span t) (tok_generation t) m (tok_id t))"
  by (cases t; cases m) (auto simp: token_metadata_def pool_token_new_def)

end
