(* ===== verification/Atomic.thy ===== *)
theory Atomic
  imports Prelude
begin

text \<open>
  Programs over shared memory. A Rust function that touches shared atomics is modelled as a
  \<^emph>\<open>resumption\<close>: a tree whose nodes are the function's atomic memory operations, in program order.
  \<open>Step f\<close> performs one atomic operation on the shared state and continues, \<open>Ret\<close> returns,
  \<open>Panic\<close> is a Rust panic, and \<open>Spin\<close> is a retry loop that has used up the attempts it was given.
  \<open>run\<close> executes a program without interference; \<open>crash\<close> stops it after a number of atomic
  operations, as the death of its process does; \<open>pstep\<close> interleaves any number of programs.

  Memory is sequentially consistent: the orderings of the source (\<open>Acquire\<close>, \<open>Release\<close>, \<dots>) are not
  distinguished. \<open>sat\<close> is rely-guarantee satisfaction with auxiliary state: between two operations
  of the program the environment may take any number of \<open>R\<close> steps, each operation of the program
  is a \<open>G\<close> step for a suitable change of the auxiliary state, and the result satisfies \<open>Q\<close>.
  \<open>pool_sound\<close> is the soundness of the parallel composition.
\<close>

section \<open>Programs\<close>

datatype ('s, 'a) prog = Ret 'a | Panic | Spin | Step "'s \<Rightarrow> 's \<times> ('s, 'a) prog"

lemma prog_induct [case_names Ret Panic Spin Step, induct type: prog]:
  assumes "\<And>a. P (Ret a)" and "P Panic" and "P Spin"
    and "\<And>f. (\<And>s. P (snd (f s))) \<Longrightarrow> P (Step f)"
  shows "P p"
proof (induction p rule: prog.induct)
  case (Step f)
  have "P (snd (f s))" for s
    by (rule Step) (auto simp: snds.simps)
  then show ?case by (rule assms(4))
qed (use assms in auto)

datatype ('s, 'a) outcome = Returned 'a 's | Panicked 's | Spinning 's

primrec bind :: "('s, 'a) prog \<Rightarrow> ('a \<Rightarrow> ('s, 'b) prog) \<Rightarrow> ('s, 'b) prog" where
  "bind (Ret a) k = k a"
| "bind Panic k = Panic"
| "bind Spin k = Spin"
| "bind (Step f) k = Step (\<lambda>s. map_prod id (\<lambda>p. bind p k) (f s))"

definition load :: "('s \<Rightarrow> 'v) \<Rightarrow> ('v \<Rightarrow> ('s, 'a) prog) \<Rightarrow> ('s, 'a) prog" where
  "load get k = Step (\<lambda>s. (s, k (get s)))"

definition store :: "('s \<Rightarrow> 's) \<Rightarrow> ('s, 'a) prog \<Rightarrow> ('s, 'a) prog" where
  "store upd k = Step (\<lambda>s. (upd s, k))"

definition compare_exchange ::
    "('s \<Rightarrow> 'v) \<Rightarrow> ('v \<Rightarrow> 's \<Rightarrow> 's) \<Rightarrow> 'v \<Rightarrow> 'v \<Rightarrow> (('v, 'v) result \<Rightarrow> ('s, 'a) prog)
      \<Rightarrow> ('s, 'a) prog" where
  "compare_exchange get upd old new k =
     Step (\<lambda>s. if get s = old then (upd new s, k (Ok old)) else (s, k (Err (get s))))"

text \<open>
  A weak compare-exchange may fail although the comparison holds; \<open>spurious\<close> says whether this
  attempt does. The retry loops of the source take one such choice per attempt, and the list of
  choices bounds the number of attempts.
\<close>

definition compare_exchange_weak ::
    "bool \<Rightarrow> ('s \<Rightarrow> 'v) \<Rightarrow> ('v \<Rightarrow> 's \<Rightarrow> 's) \<Rightarrow> 'v \<Rightarrow> 'v \<Rightarrow> (('v, 'v) result \<Rightarrow> ('s, 'a) prog)
      \<Rightarrow> ('s, 'a) prog" where
  "compare_exchange_weak spurious get upd old new k =
     Step (\<lambda>s. if get s = old \<and> \<not> spurious then (upd new s, k (Ok old))
               else (s, k (Err (get s))))"

definition fetch_update ::
    "('s \<Rightarrow> 'v) \<Rightarrow> ('v \<Rightarrow> 's \<Rightarrow> 's) \<Rightarrow> ('v \<Rightarrow> 'v) \<Rightarrow> ('v \<Rightarrow> ('s, 'a) prog) \<Rightarrow> ('s, 'a) prog" where
  "fetch_update get upd f k = Step (\<lambda>s. (upd (f (get s)) s, k (get s)))"

text \<open>A program on one part of a larger state, reached through \<open>get\<close> and \<open>put\<close>.\<close>

primrec within :: "('t \<Rightarrow> 's) \<Rightarrow> ('s \<Rightarrow> 't \<Rightarrow> 't) \<Rightarrow> ('s, 'a) prog \<Rightarrow> ('t, 'a) prog" where
  "within get put (Ret a) = Ret a"
| "within get put Panic = Panic"
| "within get put Spin = Spin"
| "within get put (Step f) =
     Step (\<lambda>t. map_prod (\<lambda>s. put s t) (within get put) (f (get t)))"

section \<open>Execution without interference, and crashes\<close>

primrec run :: "('s, 'a) prog \<Rightarrow> 's \<Rightarrow> ('s, 'a) outcome" where
  "run (Ret a) = Returned a"
| "run Panic = Panicked"
| "run Spin = Spinning"
| "run (Step f) = (\<lambda>s. case map_prod id run (f s) of (s', r) \<Rightarrow> r s')"

fun crash :: "nat \<Rightarrow> ('s, 'a) prog \<Rightarrow> 's \<Rightarrow> 's" where
  "crash 0 p s = s"
| "crash (Suc n) (Step f) s = crash n (snd (f s)) (fst (f s))"
| "crash (Suc n) p s = s"

text \<open>The state after a number of atomic operations together with the program that is left.\<close>

fun advance :: "nat \<Rightarrow> ('s, 'a) prog \<Rightarrow> 's \<Rightarrow> 's \<times> ('s, 'a) prog" where
  "advance 0 p s = (s, p)"
| "advance (Suc n) (Step f) s = advance n (snd (f s)) (fst (f s))"
| "advance (Suc n) p s = (s, p)"

lemma crash_advance: "crash n p s = fst (advance n p s)"
  by (induction n p s rule: advance.induct) auto

text \<open>
  The state after a program that ran \<open>n\<close> operations from \<open>s\<close> continues for \<open>m\<close> more in a state
  \<open>s'\<close> to which others have moved on in between.
\<close>

fun resumed :: "nat \<Rightarrow> ('s, 'a) prog \<Rightarrow> 's \<Rightarrow> nat \<Rightarrow> 's \<Rightarrow> 's" where
  "resumed 0 p s m s' = crash m p s'"
| "resumed (Suc n) (Step f) s m s' = resumed n (snd (f s)) (fst (f s)) m s'"
| "resumed (Suc n) p s m s' = crash m p s'"

lemma resumed_advance: "resumed n p s m s' = crash m (snd (advance n p s)) s'"
  by (induction n p s m s' rule: resumed.induct) auto

text \<open>The same three functions without patterns on numbers, for evaluation.\<close>

lemma crash_code [code]:
  "crash n p s = (if n = 0 then s else case p of Step f \<Rightarrow> (case f s of (s', q) \<Rightarrow> crash (n - 1) q s') | _ \<Rightarrow> s)"
  by (cases n; cases p) (auto simp: case_prod_beta)

lemma advance_code [code]:
  "advance n p s =
     (if n = 0 then (s, p) else case p of Step f \<Rightarrow> (case f s of (s', q) \<Rightarrow> advance (n - 1) q s') | _ \<Rightarrow> (s, p))"
  by (cases n; cases p) (auto simp: case_prod_beta)

lemma resumed_code [code]:
  "resumed n p s m s' = (if n = 0 then crash m p s'
     else case p of Step f \<Rightarrow> (case f s of (t, q) \<Rightarrow> resumed (n - 1) q t m s') | _ \<Rightarrow> crash m p s')"
  by (cases n; cases p) (auto simp: case_prod_beta)

fun bind_outcome :: "('s, 'a) outcome \<Rightarrow> ('a \<Rightarrow> 's \<Rightarrow> ('s, 'b) outcome) \<Rightarrow> ('s, 'b) outcome" where
  "bind_outcome (Returned a s) k = k a s"
| "bind_outcome (Panicked s) k = Panicked s"
| "bind_outcome (Spinning s) k = Spinning s"

lemma run_Step [simp]: "run (Step f) s = run (snd (f s)) (fst (f s))"
  by (simp add: case_prod_beta)

declare run.simps(4) [simp del]

lemma run_code [code]:
  "run (Ret a) s = Returned a s" "run Panic s = Panicked s" "run Spin s = Spinning s"
  "run (Step f) s = (case f s of (s', p) \<Rightarrow> run p s')"
  by (simp_all add: case_prod_beta)

lemma run_load [simp]: "run (load get k) s = run (k (get s)) s"
  by (simp add: load_def)

lemma run_store [simp]: "run (store upd k) s = run k (upd s)"
  by (simp add: store_def)

lemma run_compare_exchange [simp]:
  "run (compare_exchange get upd old new k) s =
     (if get s = old then run (k (Ok old)) (upd new s) else run (k (Err (get s))) s)"
  by (simp add: compare_exchange_def)

lemma run_compare_exchange_weak [simp]:
  "run (compare_exchange_weak spurious get upd old new k) s =
     (if get s = old \<and> \<not> spurious then run (k (Ok old)) (upd new s)
      else run (k (Err (get s))) s)"
  by (simp add: compare_exchange_weak_def)

lemma run_fetch_update [simp]:
  "run (fetch_update get upd f k) s = run (k (get s)) (upd (f (get s)) s)"
  by (simp add: fetch_update_def)

lemma run_bind [simp]: "run (bind p k) s = bind_outcome (run p s) (\<lambda>a. run (k a))"
  by (induction p arbitrary: s) (auto simp: case_prod_beta)

lemma bind_load [simp]: "bind (load get k) g = load get (\<lambda>v. bind (k v) g)"
  by (simp add: load_def)

lemma bind_store [simp]: "bind (store upd p) g = store upd (bind p g)"
  by (simp add: store_def)

lemma bind_compare_exchange [simp]:
  "bind (compare_exchange get upd old new k) g =
     compare_exchange get upd old new (\<lambda>r. bind (k r) g)"
  by (rule prog.inject(2) [THEN iffD2] | simp add: compare_exchange_def fun_eq_iff)+

lemma bind_fetch_update [simp]:
  "bind (fetch_update get upd f k) g = fetch_update get upd f (\<lambda>v. bind (k v) g)"
  by (simp add: fetch_update_def)

text \<open>Every result of a run is the end of a crash, so facts about all crashes cover all runs.\<close>

fun final_state :: "('s, 'a) outcome \<Rightarrow> 's" where
  "final_state (Returned a s) = s"
| "final_state (Panicked s) = s"
| "final_state (Spinning s) = s"

fun result_of :: "('s, 'a) outcome \<Rightarrow> 'a option" where
  "result_of (Returned a s) = Some a"
| "result_of (Panicked s) = None"
| "result_of (Spinning s) = None"

lemma crash_run: "\<exists>n. crash n p s = final_state (run p s)"
proof (induction p arbitrary: s)
  case (Step f)
  then obtain n where "crash n (snd (f s)) (fst (f s)) = final_state (run (snd (f s)) (fst (f s)))"
    by blast
  then have "crash (Suc n) (Step f) s = final_state (run (Step f) s)"
    by simp
  then show ?case by blast
qed (auto intro: exI [of _ 0])

text \<open>What holds however early the program is stopped.\<close>

definition always :: "('s \<Rightarrow> bool) \<Rightarrow> ('s, 'a) prog \<Rightarrow> 's \<Rightarrow> bool" where
  "always P p s \<longleftrightarrow> (\<forall>n. P (crash n p s))"

lemma crash_stop [simp]: "crash n (Ret a) s = s" "crash n Panic s = s" "crash n Spin s = s"
  by (cases n; simp)+

lemma always_stop [simp]:
  "always P (Ret a) s \<longleftrightarrow> P s" "always P Panic s \<longleftrightarrow> P s" "always P Spin s \<longleftrightarrow> P s"
  by (simp_all add: always_def)

lemma always_Step [simp]:
  "always P (Step f) s \<longleftrightarrow> P s \<and> always P (snd (f s)) (fst (f s))"
proof -
  have "(\<forall>n. P (crash n (Step f) s)) \<longleftrightarrow> P (crash 0 (Step f) s) \<and> (\<forall>n. P (crash (Suc n) (Step f) s))"
    by (metis nat.exhaust)
  then show ?thesis
    by (simp add: always_def)
qed

lemma always_load [simp]: "always P (load get k) s \<longleftrightarrow> P s \<and> always P (k (get s)) s"
  by (simp add: load_def)

lemma always_store [simp]: "always P (store upd k) s \<longleftrightarrow> P s \<and> always P k (upd s)"
  by (simp add: store_def)

lemma always_compare_exchange [simp]:
  "always P (compare_exchange get upd old new k) s \<longleftrightarrow> P s \<and>
     (if get s = old then always P (k (Ok old)) (upd new s) else always P (k (Err (get s))) s)"
  by (simp add: compare_exchange_def)

lemma always_fetch_update [simp]:
  "always P (fetch_update get upd f k) s \<longleftrightarrow> P s \<and> always P (k (get s)) (upd (f (get s)) s)"
  by (simp add: fetch_update_def)

lemma always_bind:
  "always P (bind p k) s \<longleftrightarrow> always P p s \<and> (\<forall>a s'. run p s = Returned a s' \<longrightarrow> always P (k a) s')"
proof (induction p arbitrary: s)
  case (Ret a)
  have "P s" if "always P (k a) s"
    using that unfolding always_def by (metis crash.simps(1))
  then show ?case by auto
qed auto

lemma always_now: "always P p s \<Longrightarrow> P s"
  unfolding always_def by (metis crash.simps(1))

lemma always_run: "always P p s \<Longrightarrow> P (final_state (run p s))"
  unfolding always_def by (metis crash_run)

section \<open>Parts of a state\<close>

locale part =
  fixes get :: "'t \<Rightarrow> 's" and put :: "'s \<Rightarrow> 't \<Rightarrow> 't"
  assumes get_put [simp]: "get (put s t) = s"
    and put_put [simp]: "put s (put s' t) = put s t"
    and put_get [simp]: "put (get t) t = t"
begin

primrec put_outcome :: "'t \<Rightarrow> ('s, 'a) outcome \<Rightarrow> ('t, 'a) outcome" where
  "put_outcome t (Returned a s) = Returned a (put s t)"
| "put_outcome t (Panicked s) = Panicked (put s t)"
| "put_outcome t (Spinning s) = Spinning (put s t)"

lemma put_outcome_put [simp]: "put_outcome (put s t) r = put_outcome t r"
  by (cases r) auto

lemma run_within: "run (within get put p) t = put_outcome t (run p (get t))"
  by (induction p arbitrary: t) (auto simp: case_prod_beta)

lemma crash_within: "crash n (within get put p) t = put (crash n p (get t)) t"
  by (induction n p "get t" arbitrary: t rule: crash.induct) (auto simp: case_prod_beta)

end

section \<open>Rely-guarantee satisfaction\<close>

primrec sat ::
    "('g \<times> 's \<Rightarrow> 'g \<times> 's \<Rightarrow> bool) \<Rightarrow> ('g \<times> 's \<Rightarrow> 'g \<times> 's \<Rightarrow> bool) \<Rightarrow>
     ('a \<Rightarrow> 'g \<times> 's \<Rightarrow> bool) \<Rightarrow> ('s, 'a) prog \<Rightarrow> 'g \<times> 's \<Rightarrow> bool" where
  "sat R G Q (Ret a) = (\<lambda>w. \<forall>w'. R\<^sup>*\<^sup>* w w' \<longrightarrow> Q a w')"
| "sat R G Q Panic = (\<lambda>w. False)"
| "sat R G Q Spin = (\<lambda>w. True)"
| "sat R G Q (Step f) = (\<lambda>w. \<forall>g s. R\<^sup>*\<^sup>* w (g, s) \<longrightarrow>
     (case map_prod id (sat R G Q) (f s) of (s', cont) \<Rightarrow>
        \<exists>g'. G (g, s) (g', s') \<and> cont (g', s')))"

lemma sat_Step:
  "sat R G Q (Step f) w \<longleftrightarrow> (\<forall>g s. R\<^sup>*\<^sup>* w (g, s) \<longrightarrow>
     (\<exists>g'. G (g, s) (g', fst (f s)) \<and> sat R G Q (snd (f s)) (g', fst (f s))))"
  by (simp add: case_prod_beta)

declare sat.simps(4) [simp del]

lemma sat_rely: "sat R G Q p w \<Longrightarrow> R\<^sup>*\<^sup>* w w' \<Longrightarrow> sat R G Q p w'"
  by (cases p) (auto simp: sat_Step intro: rtranclp_trans)

lemma sat_mono:
  assumes "sat R G Q p w" and "\<And>a w. Q a w \<Longrightarrow> Q' a w" and "\<And>w w'. G w w' \<Longrightarrow> G' w w'"
  shows "sat R G' Q' p w"
  using assms(1)
proof (induction p arbitrary: w)
  case (Step f)
  show ?case
    unfolding sat_Step
  proof (intro allI impI)
    fix g s
    assume "R\<^sup>*\<^sup>* w (g, s)"
    with Step.prems obtain g' where g': "G (g, s) (g', fst (f s))"
      and rest: "sat R G Q (snd (f s)) (g', fst (f s))"
      by (auto simp: sat_Step)
    from rest have "sat R G' Q' (snd (f s)) (g', fst (f s))"
      by (rule Step.IH)
    with g' show "\<exists>g'. G' (g, s) (g', fst (f s)) \<and> sat R G' Q' (snd (f s)) (g', fst (f s))"
      using assms(3) by blast
  qed
qed (use assms(2) in auto)

lemma sat_bind:
  assumes "sat R G Q p w" and "\<And>a w. Q a w \<Longrightarrow> sat R G Q' (k a) w"
  shows "sat R G Q' (bind p k) w"
  using assms(1)
proof (induction p arbitrary: w)
  case (Step f)
  show ?case
    unfolding bind.simps sat_Step
  proof (intro allI impI)
    fix g s
    assume "R\<^sup>*\<^sup>* w (g, s)"
    with Step.prems obtain g' where g': "G (g, s) (g', fst (f s))"
      and rest: "sat R G Q (snd (f s)) (g', fst (f s))"
      by (auto simp: sat_Step)
    from rest have "sat R G Q' (bind (snd (f s)) k) (g', fst (f s))"
      by (rule Step.IH)
    with g' show "\<exists>g'. G (g, s) (g', fst (map_prod id (\<lambda>p. bind p k) (f s))) \<and>
        sat R G Q' (snd (map_prod id (\<lambda>p. bind p k) (f s)))
          (g', fst (map_prod id (\<lambda>p. bind p k) (f s)))"
      by auto
  qed
qed (use assms(2) in auto)

definition stable_under :: "('w \<Rightarrow> 'w \<Rightarrow> bool) \<Rightarrow> ('w \<Rightarrow> bool) \<Rightarrow> bool" where
  "stable_under R P \<longleftrightarrow> (\<forall>w w'. P w \<longrightarrow> R w w' \<longrightarrow> P w')"

lemma stable_rtranclp: "R\<^sup>*\<^sup>* w w' \<Longrightarrow> stable_under R P \<Longrightarrow> P w \<Longrightarrow> P w'"
  by (induction rule: rtranclp_induct) (auto simp: stable_under_def)

lemma sat_RetI: "stable_under R (Q a) \<Longrightarrow> Q a w \<Longrightarrow> sat R G Q (Ret a) w"
  by (auto intro: stable_rtranclp)

lemma sat_StepI:
  assumes "stable_under R P" and "P w"
    and "\<And>g s. P (g, s) \<Longrightarrow> \<exists>g'. G (g, s) (g', fst (f s)) \<and> sat R G Q (snd (f s)) (g', fst (f s))"
  shows "sat R G Q (Step f) w"
  unfolding sat_Step using assms stable_rtranclp by metis

lemma sat_Ret_if: "stable_under R P \<Longrightarrow> P w \<Longrightarrow> (\<And>w. P w \<Longrightarrow> Q a w) \<Longrightarrow> sat R G Q (Ret a) w"
  by (auto intro: stable_rtranclp)

lemma sat_cas:
  assumes "stable_under R P" and "P w"
    and "\<And>g s. P (g, s) \<Longrightarrow> get s = old \<Longrightarrow>
      \<exists>g'. G (g, s) (g', upd new s) \<and> sat R G Q (k (Ok old)) (g', upd new s)"
    and "\<And>g s. P (g, s) \<Longrightarrow> get s \<noteq> old \<Longrightarrow> \<exists>g'. G (g, s) (g', s) \<and> sat R G Q (k (Err (get s))) (g', s)"
  shows "sat R G Q (compare_exchange get upd old new k) w"
  unfolding compare_exchange_def by (rule sat_StepI [OF assms(1,2)]) (simp add: assms(3,4))

lemma sat_update:
  assumes "stable_under R P" and "P w"
    and "\<And>g s. P (g, s) \<Longrightarrow>
      \<exists>g'. G (g, s) (g', upd (f (get s)) s) \<and> sat R G Q (k (get s)) (g', upd (f (get s)) s)"
  shows "sat R G Q (fetch_update get upd f k) w"
  unfolding fetch_update_def by (rule sat_StepI [OF assms(1,2)]) (simp add: assms(3))

lemma sat_store:
  assumes "stable_under R P" and "P w"
    and "\<And>g s. P (g, s) \<Longrightarrow> \<exists>g'. G (g, s) (g', upd s) \<and> sat R G Q k (g', upd s)"
  shows "sat R G Q (store upd k) w"
  unfolding store_def by (rule sat_StepI [OF assms(1,2)]) (simp add: assms(3))

lemma sat_load:
  assumes "stable_under R P" and "P w"
    and "\<And>g s. P (g, s) \<Longrightarrow> G (g, s) (g, s) \<and> sat R G Q (k (get s)) (g, s)"
  shows "sat R G Q (load get k) w"
  unfolding load_def by (rule sat_StepI [OF assms(1,2)]) (auto dest: assms(3))

lemma stable_conj: "stable_under R P \<Longrightarrow> stable_under R Q \<Longrightarrow> stable_under R (\<lambda>w. P w \<and> Q w)"
  by (auto simp: stable_under_def)

declare sat.simps(1) [simp del]

section \<open>Interleaving\<close>

type_synonym ('s, 'a) pool = "'s \<times> (nat \<Rightarrow> ('s, 'a) prog)"

inductive pstep :: "('s, 'a) pool \<Rightarrow> ('s, 'a) pool \<Rightarrow> bool" where
  "T i = Step f \<Longrightarrow> pstep (s, T) (fst (f s), T(i := snd (f s)))"

inductive_cases pstepE: "pstep (s, T) c"

text \<open>The same interleavings, executed along a schedule of thread numbers.\<close>

fun schedule :: "nat list \<Rightarrow> ('s, 'a) pool \<Rightarrow> ('s, 'a) pool" where
  "schedule [] c = c"
| "schedule (i # is) (s, T) =
     (case T i of Step f \<Rightarrow> schedule is (fst (f s), T(i := snd (f s)))
                | _ \<Rightarrow> schedule is (s, T))"

fun returned :: "('s, 'a) prog \<Rightarrow> 'a option" where
  "returned (Ret a) = Some a"
| "returned p = None"

lemma returned_Some [simp]: "returned p = Some a \<longleftrightarrow> p = Ret a"
  by (cases p) auto

lemma schedule_other: "i \<notin> set is \<Longrightarrow> snd (schedule is (s, T)) i = T i"
  by (induction "is" "(s, T)" arbitrary: s T rule: schedule.induct) (auto split: prog.splits)

lemma schedule_reaches: "pstep\<^sup>*\<^sup>* c (schedule is c)"
proof (induction "is" c rule: schedule.induct)
  case (2 i "is" s T)
  then show ?case
    by (auto split: prog.splits intro: converse_rtranclp_into_rtranclp pstep.intros)
qed simp

text \<open>
  If every thread satisfies its specification and every guarantee is within every other thread's
  rely, then every reachable configuration has auxiliary state for which each remaining program
  still satisfies its specification, reached by guarantee steps only.
\<close>

theorem pool_sound:
  assumes init: "\<And>i. sat (R i) (G i) (Q i) (T i) (g, s)"
    and compat: "\<And>i j w w'. i \<noteq> j \<Longrightarrow> G i w w' \<Longrightarrow> R j w w'"
    and reach: "pstep\<^sup>*\<^sup>* (s, T) (s', T')"
  shows "\<exists>g'. (\<lambda>w w'. \<exists>i. G i w w')\<^sup>*\<^sup>* (g, s) (g', s') \<and>
    (\<forall>i. sat (R i) (G i) (Q i) (T' i) (g', s'))"
  using reach
proof (induction "(s', T')" arbitrary: s' T' rule: rtranclp_induct)
  case base
  then show ?case using init by blast
next
  case (step c)
  obtain s1 T1 where c: "c = (s1, T1)" by fastforce
  obtain g1 where path: "(\<lambda>w w'. \<exists>i. G i w w')\<^sup>*\<^sup>* (g, s) (g1, s1)"
    and sats: "\<And>i. sat (R i) (G i) (Q i) (T1 i) (g1, s1)"
    using step.hyps(3) [OF c] by blast
  from step.hyps(2) obtain i f where f: "T1 i = Step f"
    and s': "s' = fst (f s1)" and T': "T' = T1(i := snd (f s1))"
    unfolding c by (auto elim: pstepE)
  from sats [of i] obtain g' where G: "G i (g1, s1) (g', s')"
    and rest: "sat (R i) (G i) (Q i) (snd (f s1)) (g', s')"
    unfolding f sat_Step s' by blast
  have "sat (R j) (G j) (Q j) (T' j) (g', s')" for j
  proof (cases "j = i")
    case True
    then show ?thesis using rest by (simp add: T')
  next
    case False
    then have "R j (g1, s1) (g', s')" using compat [OF _ G] by metis
    then have "(R j)\<^sup>*\<^sup>* (g1, s1) (g', s')" by blast
    then show ?thesis using sats [of j] False by (simp add: T' sat_rely)
  qed
  moreover have "(\<lambda>w w'. \<exists>i. G i w w')\<^sup>*\<^sup>* (g, s) (g', s')"
    using path by (rule rtranclp.rtrancl_into_rtrancl) (use G in blast)
  ultimately show ?case by blast
qed

end
