(* ===== verification/Queue.thy ===== *)
theory Queue
  imports Atomic
begin

text \<open>
  The bounded queue of \<open>src/queue.rs\<close>: the control words of a slot, the shared state of a ring, and
  every operation as a program over its atomic operations, in the order of the source.
\<close>

section \<open>Slots and control words\<close>

record 'a slot =
  turn :: usize
  control :: u16
  val :: "'a option"

text \<open>The words of a slot's state; \<open>val = None\<close> is uninitialised memory.\<close>

abbreviation EMPTY :: u16 where "EMPTY \<equiv> 0"
abbreviation PRODUCER :: u16 where "PRODUCER \<equiv> 1"
abbreviation AVAILABLE :: u16 where "AVAILABLE \<equiv> 2"
abbreviation CONSUMER :: u16 where "CONSUMER \<equiv> 3"
abbreviation BASE_MASK :: u16 where "BASE_MASK \<equiv> 3"
abbreviation COMPLETE :: u16 where "COMPLETE \<equiv> 4"
abbreviation SOURCE_SHIFT :: nat where "SOURCE_SHIFT \<equiv> 3"
abbreviation SOURCE_MASK :: u16 where "SOURCE_MASK \<equiv> 0x1f8"
abbreviation REAPER_SHIFT :: nat where "REAPER_SHIFT \<equiv> 9"
abbreviation REAPER_MASK :: u16 where "REAPER_MASK \<equiv> 0x7e00"
abbreviation RESERVED_MASK :: u16 where "RESERVED_MASK \<equiv> 0x8000"

definition slot_new :: "usize \<Rightarrow> 'a slot" where
  "slot_new t = \<lparr>turn = t, control = EMPTY, val = None\<rparr>"

definition owned :: "u16 \<Rightarrow> bool \<Rightarrow> u8 \<Rightarrow> u16" where
  "owned base complete own =
     base OR (if complete then COMPLETE else 0) OR push_bit SOURCE_SHIFT (ucast own + 1)"

definition base :: "u16 \<Rightarrow> u16" where
  "base c = c AND BASE_MASK"

definition source :: "u16 \<Rightarrow> u16" where
  "source c = drop_bit SOURCE_SHIFT (c AND SOURCE_MASK)"

definition reaper :: "u16 \<Rightarrow> u16" where
  "reaper c = drop_bit REAPER_SHIFT (c AND REAPER_MASK)"

definition canonical :: "u16 \<Rightarrow> bool" where
  "canonical c =
     (if c AND RESERVED_MASK \<noteq> 0 then False
      else if base c = EMPTY then c = EMPTY
      else if base c = PRODUCER \<or> base c = CONSUMER then
        source c \<noteq> 0 \<and> unat (source c) \<le> PARTICIPANT_CAPACITY \<and>
        unat (reaper c) \<le> PARTICIPANT_CAPACITY
      else source c = 0 \<and> reaper c = 0)"

datatype reserve_error = Full | Reserve_Busy | Reserve_Closed

datatype claim_error = Empty | Claim_Busy | Claim_Closed

datatype repair = No_Repair | Recovered | Repair_Busy u8 | Corrupted

section \<open>The shared ring\<close>

record 'a queue =
  head :: usize
  tail :: usize
  buf :: "'a slot list"
  lifecycle :: u8

text \<open>
  What a handle of the queue knows and no operation changes: \<open>Queue::send_field\<close>, \<open>recv_field\<close>,
  \<open>owner\<close>, \<open>one_lap\<close>, and the length of \<open>buf\<close>.
\<close>

record view =
  send_field :: nat
  recv_field :: nat
  owner :: u8
  one_lap :: usize
  capacity :: nat

abbreviation slot_turn :: "nat \<Rightarrow> 'a queue \<Rightarrow> usize" where
  "slot_turn i q \<equiv> turn (buf q ! i)"

abbreviation slot_control :: "nat \<Rightarrow> 'a queue \<Rightarrow> u16" where
  "slot_control i q \<equiv> control (buf q ! i)"

abbreviation slot_val :: "nat \<Rightarrow> 'a queue \<Rightarrow> 'a option" where
  "slot_val i q \<equiv> val (buf q ! i)"

definition set_turn :: "nat \<Rightarrow> usize \<Rightarrow> 'a queue \<Rightarrow> 'a queue" where
  "set_turn i t q = q\<lparr>buf := (buf q)[i := (buf q ! i)\<lparr>turn := t\<rparr>]\<rparr>"

definition set_control :: "nat \<Rightarrow> u16 \<Rightarrow> 'a queue \<Rightarrow> 'a queue" where
  "set_control i c q = q\<lparr>buf := (buf q)[i := (buf q ! i)\<lparr>control := c\<rparr>]\<rparr>"

definition set_val :: "nat \<Rightarrow> 'a option \<Rightarrow> 'a queue \<Rightarrow> 'a queue" where
  "set_val i x q = q\<lparr>buf := (buf q)[i := (buf q ! i)\<lparr>val := x\<rparr>]\<rparr>"

abbreviation set_head :: "usize \<Rightarrow> 'a queue \<Rightarrow> 'a queue" where
  "set_head h q \<equiv> q\<lparr>head := h\<rparr>"

abbreviation set_tail :: "usize \<Rightarrow> 'a queue \<Rightarrow> 'a queue" where
  "set_tail t q \<equiv> q\<lparr>tail := t\<rparr>"

abbreviation set_lifecycle :: "u8 \<Rightarrow> 'a queue \<Rightarrow> 'a queue" where
  "set_lifecycle l q \<equiv> q\<lparr>lifecycle := l\<rparr>"

section \<open>Cursors\<close>

text \<open>The position arithmetic shared by \<open>reserve\<close> and \<open>claim\<close>.\<close>

definition cursor_index :: "view \<Rightarrow> usize \<Rightarrow> nat" where
  "cursor_index v t = unat (t AND (one_lap v - 1))"

definition cursor_next :: "view \<Rightarrow> usize \<Rightarrow> usize" where
  "cursor_next v t =
     (if cursor_index v t + 1 < capacity v then t + 1
      else (t AND NOT (one_lap v - 1)) + one_lap v)"

text \<open>A ring as \<open>Duplex::init\<close> writes it: both cursors at zero, slot \<open>i\<close> at turn \<open>i\<close>, nothing closed.\<close>

definition queue_new :: "view \<Rightarrow> 'a queue" where
  "queue_new v = \<lparr>head = 0, tail = 0, buf = map (\<lambda>i. slot_new (of_nat i)) [0..<capacity v], lifecycle = 0\<rparr>"

section \<open>Lifecycle fields\<close>

definition field_state :: "nat \<Rightarrow> 'a queue \<Rightarrow> u8" where
  "field_state f q = drop_bit f (lifecycle q) AND 3"

definition queue_state :: "view \<Rightarrow> (u8 \<Rightarrow> ('a queue, 'b) prog) \<Rightarrow> ('a queue, 'b) prog" where
  "queue_state v k =
     load (field_state (send_field v)) (\<lambda>s.
     load (field_state (recv_field v)) (\<lambda>r. k (s OR r)))"

definition close_field :: "nat \<Rightarrow> ('a queue, unit) prog" where
  "close_field f =
     fetch_update lifecycle set_lifecycle (\<lambda>l. l OR push_bit f 1) (\<lambda>_. Ret ())"

primrec none_owned ::
    "u16 \<Rightarrow> nat list \<Rightarrow> (bool \<Rightarrow> ('a queue, 'b) prog) \<Rightarrow> ('a queue, 'b) prog" where
  "none_owned b [] k = k True"
| "none_owned b (i # is) k =
     load (slot_control i) (\<lambda>c. if base c \<noteq> b then none_owned b is k else k False)"

definition finish_field :: "view \<Rightarrow> nat \<Rightarrow> u16 \<Rightarrow> ('a queue, u8) prog" where
  "finish_field v f owned_base =
     load (field_state f) (\<lambda>state.
     if state = 1 then
       none_owned owned_base [0..<capacity v] (\<lambda>all.
         if all then
           fetch_update lifecycle set_lifecycle (\<lambda>l. l OR push_bit f 2) (\<lambda>_. Ret 3)
         else Ret state)
     else Ret state)"

definition close_send :: "view \<Rightarrow> ('a queue, unit) prog" where
  "close_send v = close_field (send_field v)"

definition close_recv :: "view \<Rightarrow> ('a queue, unit) prog" where
  "close_recv v = close_field (recv_field v)"

definition send_closed :: "view \<Rightarrow> ('a queue, bool) prog" where
  "send_closed v = bind (finish_field v (send_field v) PRODUCER) (\<lambda>s. Ret (s = 3))"

definition recv_closed :: "view \<Rightarrow> ('a queue, bool) prog" where
  "recv_closed v = bind (finish_field v (recv_field v) CONSUMER) (\<lambda>s. Ret (s = 3))"

definition is_empty :: "('a queue, bool) prog" where
  "is_empty = load head (\<lambda>h. load tail (\<lambda>t. Ret (t = h)))"

definition terminal :: "view \<Rightarrow> ('a queue, bool) prog" where
  "terminal v = bind (recv_closed v) (\<lambda>r. if r then Ret True else
     bind (send_closed v) (\<lambda>s. if s then is_empty else Ret False))"

section \<open>Producing\<close>

text \<open>A \<open>Reserved\<close> or \<open>Staged\<close> handle is the index of its slot.\<close>

definition reserve :: "view \<Rightarrow> ('a queue, (nat, reserve_error) result) prog" where
  "reserve v =
     queue_state v (\<lambda>state. if state \<noteq> 0 then Ret (Err Reserve_Closed) else
     load tail (\<lambda>t.
     let index = cursor_index v t; new_tail = cursor_next v t in
     if capacity v \<le> index then Panic else
     compare_exchange (slot_control index) (set_control index)
       EMPTY (owned PRODUCER False (owner v)) (\<lambda>claimed.
     case claimed of
       Err _ \<Rightarrow> load head (\<lambda>h. Ret (Err (if h + one_lap v = t then Full else Reserve_Busy)))
     | Ok _ \<Rightarrow>
       load (slot_turn index) (\<lambda>tn.
       if tn \<noteq> t then store (set_control index EMPTY) (Ret (Err Reserve_Busy)) else
       load tail (\<lambda>t'.
       if t' \<noteq> t then store (set_control index EMPTY) (Ret (Err Reserve_Busy)) else
       queue_state v (\<lambda>state'.
       if state' \<noteq> 0 then store (set_control index EMPTY) (Ret (Err Reserve_Closed)) else
       compare_exchange tail set_tail t new_tail (\<lambda>committed.
       case committed of
         Err _ \<Rightarrow> store (set_control index EMPTY) (Ret (Err Reserve_Busy))
       | Ok _ \<Rightarrow> Ret (Ok index))))))))"

definition stage :: "nat \<Rightarrow> 'a \<Rightarrow> ('a queue, unit) prog" where
  "stage i x =
     store (set_val i (Some x))
     (load (slot_control i) (\<lambda>c.
      store (set_control i (owned PRODUCER True (ucast (source c - 1)))) (Ret ())))"

definition skip :: "nat \<Rightarrow> ('a queue, unit) prog" where
  "skip i = store (set_control i AVAILABLE) (Ret ())"

definition publish :: "nat \<Rightarrow> ('a queue, unit) prog" where
  "publish i = store (set_control i (AVAILABLE OR COMPLETE)) (Ret ())"

definition cancel :: "nat \<Rightarrow> ('a queue, 'a option) prog" where
  "cancel i = load (slot_val i) (\<lambda>x. bind (skip i) (\<lambda>_. Ret x))"

definition drop_reserved :: "bool \<Rightarrow> nat \<Rightarrow> ('a queue, unit) prog" where
  "drop_reserved finished i = (if finished then Ret () else skip i)"

text \<open>The value of a staged slot is a token, whose destructor does nothing; dropping it abandons the position.\<close>

definition drop_staged :: "bool \<Rightarrow> nat \<Rightarrow> ('a queue, unit) prog" where
  "drop_staged finished i = (if finished then Ret () else skip i)"

section \<open>Consuming\<close>

text \<open>
  A \<open>Claim\<close> that is handed out is initialized; whether it is done is known where it is dropped, so \<open>drop_claim\<close> is told.
\<close>

record claimed =
  claim_slot :: nat
  next_turn :: usize

definition recycle :: "claimed \<Rightarrow> ('a queue, unit) prog" where
  "recycle c =
     store (set_turn (claim_slot c) (next_turn c))
     (store (set_control (claim_slot c) EMPTY) (Ret ()))"

definition claim :: "view \<Rightarrow> ('a queue, (claimed, claim_error) result) prog" where
  "claim v =
     load (field_state (recv_field v)) (\<lambda>state.
     if state \<noteq> 0 then Ret (Err Claim_Closed) else
     load head (\<lambda>h.
     let index = cursor_index v h; new = cursor_next v h in
     if capacity v \<le> index then Panic else
     load (slot_control index) (\<lambda>available.
     if available \<noteq> AVAILABLE \<and> available \<noteq> AVAILABLE OR COMPLETE then
       load tail (\<lambda>t. Ret (Err (if t = h then Empty else Claim_Busy)))
     else
     let initialized = available AND COMPLETE \<noteq> 0 in
     compare_exchange (slot_control index) (set_control index)
       available (owned CONSUMER initialized (owner v)) (\<lambda>claimed.
     case claimed of Err _ \<Rightarrow> Ret (Err Claim_Busy) | Ok _ \<Rightarrow>
     load (slot_turn index) (\<lambda>tn.
     if tn \<noteq> h then store (set_control index available) (Ret (Err Claim_Busy)) else
     load head (\<lambda>h'.
     if h' \<noteq> h then store (set_control index available) (Ret (Err Claim_Busy)) else
     compare_exchange head set_head h new (\<lambda>committed.
     case committed of
       Err _ \<Rightarrow> store (set_control index available) (Ret (Err Claim_Busy))
     | Ok _ \<Rightarrow>
       let c = \<lparr>claim_slot = index, next_turn = h + one_lap v\<rparr> in
       if \<not> initialized then bind (recycle c) (\<lambda>_. Ret (Err Claim_Busy))
       else Ret (Ok c))))))))"

definition item :: "claimed \<Rightarrow> ('a queue, 'a option) prog" where
  "item c = load (slot_val (claim_slot c)) Ret"

definition take_claim :: "claimed \<Rightarrow> ('a queue, 'a option) prog" where
  "take_claim c = load (slot_val (claim_slot c)) (\<lambda>x. bind (recycle c) (\<lambda>_. Ret x))"

definition drop_claim :: "bool \<Rightarrow> claimed \<Rightarrow> ('a queue, unit) prog" where
  "drop_claim finished c = (if finished then Ret () else recycle c)"

section \<open>Repair of a slot after the death of a participant\<close>

text \<open>
  \<open>repair_slot_with\<close> works on the queue and calls \<open>release\<close> on the rest of the state, where the
  payload named by the slot's value lives.
\<close>

abbreviation put_snd :: "'w \<Rightarrow> 'q \<times> 'w \<Rightarrow> 'q \<times> 'w" where
  "put_snd w p \<equiv> (fst p, w)"

definition repair_next :: "u16 \<Rightarrow> u8 \<Rightarrow> u8 \<Rightarrow> (u16, repair) result" where
  "repair_next c dead live =
     (let src = source c; rpr = reaper c in
      if src = ucast (dead + 1) \<and> rpr = ucast (live + 1) then Ok c
      else if rpr = ucast (dead + 1) then
        Ok ((c AND NOT REAPER_MASK) OR push_bit REAPER_SHIFT (ucast live + 1))
      else if src = ucast (dead + 1) \<and> rpr = 0 then
        Ok (c OR push_bit REAPER_SHIFT (ucast live + 1))
      else if src = ucast (dead + 1) then Err (Repair_Busy (ucast (rpr - 1)))
      else Err No_Repair)"

definition repair_release ::
    "('a \<Rightarrow> u8 \<Rightarrow> ('w, bool) prog) \<Rightarrow> nat \<Rightarrow> u16 \<Rightarrow> ('a queue \<times> 'w, repair) prog
      \<Rightarrow> ('a queue \<times> 'w, repair) prog" where
  "repair_release release i c k =
     (if c AND COMPLETE \<noteq> 0 then
        load (slot_val i \<circ> fst) (\<lambda>x.
          bind (within snd put_snd (release (the x) (ucast (source c - 1)))) (\<lambda>released.
            if released then k else Ret Corrupted))
      else k)"

definition repair_producer ::
    "('a \<Rightarrow> u8 \<Rightarrow> ('w, bool) prog) \<Rightarrow> nat \<Rightarrow> u16 \<Rightarrow> ('a queue \<times> 'w, repair) prog" where
  "repair_producer release i c =
     load (slot_turn i \<circ> fst) (\<lambda>tn.
     load (tail \<circ> fst) (\<lambda>t.
     let distance = t - tn in
     if distance = 0 then
       if c AND COMPLETE \<noteq> 0 then Ret Corrupted
       else store (map_prod (set_control i EMPTY) id) (Ret Recovered)
     else if distance < push_bit 63 1 then
       repair_release release i c (store (map_prod (set_control i AVAILABLE) id) (Ret Recovered))
     else Ret Corrupted))"

definition repair_consumer ::
    "view \<Rightarrow> ('a \<Rightarrow> u8 \<Rightarrow> ('w, bool) prog) \<Rightarrow> nat \<Rightarrow> u16 \<Rightarrow> ('a queue \<times> 'w, repair) prog" where
  "repair_consumer v release i c =
     load (slot_turn i \<circ> fst) (\<lambda>tn.
     load (head \<circ> fst) (\<lambda>h.
     if h = tn then
       store (map_prod (set_control i (AVAILABLE OR (c AND COMPLETE))) id) (Ret Recovered)
     else
       repair_release release i c
         (let distance = h - tn; free = store (map_prod (set_control i EMPTY) id) (Ret Recovered) in
          if distance \<noteq> 0 \<and> distance < push_bit 63 1 then
            store (map_prod (set_turn i (tn + one_lap v)) id) free
          else free)))"

definition repair_slot_with ::
    "view \<Rightarrow> nat \<Rightarrow> u8 \<Rightarrow> u8 \<Rightarrow> ('a \<Rightarrow> u8 \<Rightarrow> ('w, bool) prog) \<Rightarrow> ('a queue \<times> 'w, repair) prog" where
  "repair_slot_with v i dead live release =
     (if PARTICIPANT_CAPACITY \<le> unat dead \<or> PARTICIPANT_CAPACITY \<le> unat live then Ret Corrupted
      else if capacity v \<le> i then Ret Corrupted else
      load (slot_control i \<circ> fst) (\<lambda>c.
      if \<not> canonical c then Ret Corrupted
      else if base c \<noteq> PRODUCER \<and> base c \<noteq> CONSUMER then Ret No_Repair else
      case repair_next c dead live of Err r \<Rightarrow> Ret r | Ok new \<Rightarrow>
      let resume = (if base c = PRODUCER then repair_producer release i c
                    else repair_consumer v release i c) in
      if new \<noteq> c then
        compare_exchange (slot_control i \<circ> fst) (\<lambda>c'. map_prod (set_control i c') id) c new
          (\<lambda>r. case r of Err _ \<Rightarrow> Ret (Repair_Busy live) | Ok _ \<Rightarrow> resume)
      else resume))"

section \<open>Cursors as positions\<close>

text \<open>
  Position \<open>n\<close> of the stream lives in slot \<open>n mod capacity\<close>; a cursor keeps the slot in its low bits and the
  lap above them, and wraps with the word. Positions of one window of \<open>2 * capacity\<close> have distinct cursors.
\<close>

definition view_ok :: "view \<Rightarrow> bool" where
  "view_ok v \<longleftrightarrow> 0 < capacity v \<and> capacity v < unat (one_lap v) \<and>
     is_power_of_two (unat (one_lap v)) \<and>
     send_field v \<in> {0, 2, 4, 6} \<and> recv_field v \<in> {0, 2, 4, 6} \<and> send_field v \<noteq> recv_field v"

definition cursor :: "view \<Rightarrow> nat \<Rightarrow> usize" where
  "cursor v n = of_nat (n div capacity v * unat (one_lap v) + n mod capacity v)"

lemma view_okE:
  assumes "view_ok v"
  obtains k where "one_lap v = 2 ^ k" "unat (one_lap v) = 2 ^ k" "k < 64" "0 < capacity v" "capacity v < 2 ^ k"
proof -
  from assms obtain k where k: "unat (one_lap v) = 2 ^ k"
    by (auto simp: view_ok_def is_power_of_two_iff)
  have "(2 :: nat) ^ k < 2 ^ 64"
    using unsigned_less [of "one_lap v"] by (simp flip: k)
  then have "k < 64"
    using power_less_imp_less_exp [of "2 :: nat" k 64] by simp
  moreover have "one_lap v = 2 ^ k"
    using arg_cong [OF k, of "of_nat :: nat \<Rightarrow> usize"] by simp
  ultimately show thesis
    using that k assms by (simp add: view_ok_def)
qed

lemma cursor_index_cursor [simp]:
  assumes "view_ok v"
  shows "cursor_index v (cursor v n) = n mod capacity v"
proof -
  obtain k where k: "one_lap v = 2 ^ k" "unat (one_lap v) = 2 ^ k" "k < 64"
      "0 < capacity v" "capacity v < 2 ^ k"
    using view_okE [OF assms] .
  have "cursor_index v (cursor v n) = (n div capacity v * 2 ^ k + n mod capacity v) mod 2 ^ k"
    unfolding cursor_index_def cursor_def k(2) unfolding k(1) by (rule unat_and_mask) (use k in simp)
  also have "\<dots> = n mod capacity v"
    using less_trans [OF mod_less_divisor [OF k(4), of n] k(5)] by simp
  finally show ?thesis .
qed

lemma cursor_owner [simp]:
  "cursor_index (v\<lparr>owner := o'\<rparr>) = cursor_index v" "cursor_next (v\<lparr>owner := o'\<rparr>) = cursor_next v"
  "cursor (v\<lparr>owner := o'\<rparr>) = cursor v" "view_ok (v\<lparr>owner := o'\<rparr>) = view_ok v"
  "one_lap (v\<lparr>owner := o'\<rparr>) = one_lap v" "capacity (v\<lparr>owner := o'\<rparr>) = capacity v"
  "owner (v\<lparr>owner := o'\<rparr>) = o'"
  by (simp_all add: cursor_index_def cursor_next_def cursor_def view_ok_def fun_eq_iff)

lemma cursor_add_lap: "0 < capacity v \<Longrightarrow> cursor v n + one_lap v = cursor v (n + capacity v)"
  by (simp add: cursor_def div_add_self2 distrib_right)

lemma cursor_next_cursor [simp]:
  assumes "view_ok v"
  shows "cursor_next v (cursor v n) = cursor v (Suc n)"
proof -
  obtain k where k: "one_lap v = 2 ^ k" "unat (one_lap v) = 2 ^ k" "k < 64"
      "0 < capacity v" "capacity v < 2 ^ k"
    using view_okE [OF assms] .
  have lap: "cursor v n AND NOT (one_lap v - 1) = of_nat (n div capacity v * 2 ^ k)"
  proof -
    have "cursor v n AND NOT (one_lap v - 1)
        = of_nat (n div capacity v * 2 ^ k + n mod capacity v
            - (n div capacity v * 2 ^ k + n mod capacity v) mod 2 ^ k)"
      unfolding cursor_def k(2) unfolding k(1) by (rule word_and_not_mask) (use k in simp)
    also have "(n div capacity v * 2 ^ k + n mod capacity v) mod 2 ^ k = n mod capacity v"
      using less_trans [OF mod_less_divisor [OF k(4), of n] k(5)] by simp
    finally show ?thesis
      by simp
  qed
  show ?thesis
  proof (cases "Suc (n mod capacity v) < capacity v")
    case True
    then have "Suc n mod capacity v = Suc (n mod capacity v)" "Suc n div capacity v = n div capacity v"
      by (auto simp: mod_Suc div_Suc)
    with True assms show ?thesis
      by (simp add: cursor_next_def) (simp add: cursor_def)
  next
    case False
    then have "Suc (n mod capacity v) = capacity v"
      using k(4) mod_less_divisor [of "capacity v" n] by linarith
    then have "Suc n mod capacity v = 0" "Suc n div capacity v = Suc (n div capacity v)"
      by (auto simp: mod_Suc div_Suc)
    with False assms show ?thesis
      by (simp add: cursor_next_def lap) (simp add: cursor_def k(1,2))
  qed
qed

lemma cursor_inject:
  assumes "view_ok v" "cursor v m = cursor v n" "m \<le> n" "n < m + 2 * capacity v"
  shows "m = n"
proof (rule ccontr)
  assume "m \<noteq> n"
  obtain k where k: "one_lap v = 2 ^ k" "unat (one_lap v) = 2 ^ k" "k < 64"
      "0 < capacity v" "capacity v < 2 ^ k"
    using view_okE [OF assms(1)] .
  have same: "m mod capacity v = n mod capacity v"
    using arg_cong [OF assms(2), of "cursor_index v"] assms(1) by simp
  then have "n = m + capacity v"
    using window_mod_eq [of m "capacity v" n] window_mod_eq [of "m + capacity v" "capacity v" n]
      \<open>m \<noteq> n\<close> assms(3,4) by fastforce
  then have "cursor v m + one_lap v = cursor v m"
    using assms(2) cursor_add_lap [OF k(4), of m] by simp
  then have "one_lap v = 0"
    by simp
  with k(2) show False
    by simp
qed

lemma cursor_eq_iff:
  assumes "view_ok v" "m < n + 2 * capacity v" "n < m + 2 * capacity v"
  shows "cursor v m = cursor v n \<longleftrightarrow> m = n"
  using cursor_inject [OF assms(1), of m n] cursor_inject [OF assms(1), of n m] assms(2,3)
  by (metis linear)

section \<open>Control words\<close>

lemma less_64_and: "(x :: u16) < 64 \<Longrightarrow> x AND 63 = x"
  using arg_cong [OF unat_and_mask [where 'a = 16, of 6 "unat x"], of "of_nat :: nat \<Rightarrow> u16"]
  by (simp add: word_less_nat_alt)

lemma push_bit_and_low: "push_bit n x AND take_bit n y = (0 :: 'a::len word)"
  by (rule bit_word_eqI) (auto simp: bit_simps)

lemma push_source_and:
  "push_bit SOURCE_SHIFT (x :: u16) AND BASE_MASK = 0"
  "push_bit SOURCE_SHIFT x AND COMPLETE = 0"
  "push_bit SOURCE_SHIFT x AND SOURCE_MASK = push_bit SOURCE_SHIFT (x AND 63)"
  using push_bit_and_low [of 3 x 3] push_bit_and_low [of 3 x 4] push_bit_and [of 3 x 63]
  by simp_all

lemma push_source_and_high:
  assumes "(x :: u16) < 64"
  shows "push_bit SOURCE_SHIFT x AND REAPER_MASK = 0" "push_bit SOURCE_SHIFT x AND RESERVED_MASK = 0"
proof -
  have low: "x AND m = 0" if "63 AND m = 0" for m
    using that less_64_and [OF assms] and.assoc [of x 63 m] by simp
  show
    "push_bit SOURCE_SHIFT x AND REAPER_MASK = 0" "push_bit SOURCE_SHIFT x AND RESERVED_MASK = 0"
    using low [of "0xfc0"] low [of "0x1000"] push_bit_and [of 3 x "0xfc0"] push_bit_and [of 3 x "0x1000"]
    by simp_all
qed

lemma less_64_bit: "(x :: u16) < 64 \<Longrightarrow> bit x n \<Longrightarrow> n < 6"
  using less_64_and [of x] bit_take_bit_iff [of 6 x n] by (simp add: take_bit_eq_mask mask_numeral)

lemma drop_push_source:
  assumes "x < 64"
  shows "drop_bit SOURCE_SHIFT (push_bit SOURCE_SHIFT (x :: u16)) = x"
  by (rule bit_word_eqI) (auto simp: bit_simps dest: less_64_bit [OF assms])

lemma owner_word_less:
  fixes own :: u8
  assumes "unat own < PARTICIPANT_CAPACITY"
  shows "ucast own + 1 < (64 :: u16)" "(ucast own + 1 :: u16) \<noteq> 0" "unat (ucast own + 1 :: u16) = Suc (unat own)"
proof -
  show *: "unat (ucast own + 1 :: u16) = Suc (unat own)"
    using assms by (simp add: unat_word_ariths unsigned_ucast_eq take_bit_nat_eq_self)
  then show "(ucast own + 1 :: u16) \<noteq> 0" by auto
  from * assms show "ucast own + 1 < (64 :: u16)"
    by (simp add: word_less_nat_alt)
qed

lemma owned_parts:
  fixes own :: u8
  assumes "unat own < PARTICIPANT_CAPACITY" "b = PRODUCER \<or> b = CONSUMER"
  shows "base (owned b cmp own) = b" "owned b cmp own AND COMPLETE = (if cmp then COMPLETE else 0)"
    "source (owned b cmp own) = ucast own + 1" "reaper (owned b cmp own) = 0" "canonical (owned b cmp own)"
proof -
  note x = owner_word_less [OF assms(1)]
  have "owned b cmp own AND RESERVED_MASK = 0"
    using assms(2)
    by (auto simp: owned_def bit.conj_disj_distrib2 push_source_and_high x)
  show b: "base (owned b cmp own) = b"
    using assms(2) by (auto simp: base_def owned_def bit.conj_disj_distrib2 push_source_and)
  show "owned b cmp own AND COMPLETE = (if cmp then COMPLETE else 0)"
    using assms(2) by (auto simp: owned_def bit.conj_disj_distrib2 push_source_and)
  show s: "source (owned b cmp own) = ucast own + 1"
    using assms(2)
    by (auto simp: source_def owned_def bit.conj_disj_distrib2 push_source_and x less_64_and drop_push_source)
  show r: "reaper (owned b cmp own) = 0"
    using assms(2) by (auto simp: reaper_def owned_def bit.conj_disj_distrib2 push_source_and_high x)
  show "canonical (owned b cmp own)"
    using assms \<open>owned b cmp own AND RESERVED_MASK = 0\<close>
    by (auto simp: canonical_def b s r x simp del: unat_1)
qed
section \<open>Lifecycle words\<close>

lemma field_mask: "f \<in> {0, 2, 4, 6} \<Longrightarrow> g \<in> {0, 2, 4, 6} \<Longrightarrow> b \<in> {1, 2} \<Longrightarrow>
  drop_bit f (push_bit g b) AND (3 :: u8) = (if f = g then b else 0)"
  by auto

lemma field_state_or [simp]:
  assumes "f \<in> {0, 2, 4, 6}" "g \<in> {0, 2, 4, 6}" "b \<in> {1, 2}"
  shows "field_state f (q\<lparr>lifecycle := lifecycle q OR push_bit g b\<rparr>) =
    field_state f q OR (if f = g then b else 0)"
  using field_mask [OF assms]
  by (simp add: field_state_def drop_bit_or bit.conj_disj_distrib2)

lemma field_state_values: "field_state f q \<in> {0, 1, 2, 3}"
proof -
  have "x AND 3 \<in> {0, 1, 2, 3}" for x :: u8
  proof -
    have "unat (x AND 3) = unat x mod 4"
      using unat_and_mask [where 'a = 8, of 2 "unat x"] by simp
    moreover have "unat x mod 4 \<in> {0, 1, 2, 3}" by auto
    ultimately show ?thesis
      by (auto simp: word_unat_eq_iff)
  qed
  then show ?thesis by (simp add: field_state_def)
qed
end
