(* ===== verification/Queue_Invariant.thy ===== *)
theory Queue_Invariant
  imports Queue
begin

text \<open>
  The invariant of the ring under any interleaving, stated with auxiliary state: the log of committed
  reservations, the consumer of each consumed position, and for every slot the thread that holds it
  and how far its operation has come. \<open>act i\<close> is what one atomic operation of thread \<open>i\<close> may do; each
  lemma \<open>act_\<dots>\<close> shows that one operation of the source is such an action.
\<close>

section \<open>Auxiliary state and invariant\<close>

datatype hold_stage = Reserving | Checked | Writing | Claiming | Reading | Recycled

record 'a ghost =
  entries :: "(nat \<times> 'a option) list"
  takers :: "nat list"
  hold :: "nat \<Rightarrow> (nat \<times> hold_stage \<times> nat) option"

text \<open>
  \<open>entries ! p\<close> is the producer of position \<open>p\<close> and the value it published there, if it has. A slot
  is described at the one position of the window that starts at the head and has the slot's index.
\<close>

definition holder :: "(nat \<times> hold_stage \<times> nat) option \<Rightarrow> nat option" where
  "holder h = map_option fst h"

definition active :: "(nat \<times> hold_stage \<times> nat) option \<Rightarrow> bool" where
  "active h = (case h of Some (i, st, p) \<Rightarrow> st = Checked \<or> st = Writing | None \<Rightarrow> False)"

lemma holder_simps [simp]: "holder None = None" "holder (Some (i, st, p)) = Some i"
  by (simp_all add: holder_def)

lemma active_simps [simp]:
  "\<not> active None" "active (Some (i, st, p)) \<longleftrightarrow> st = Checked \<or> st = Writing"
  by (simp_all add: active_def)

definition held_word :: "u16 \<Rightarrow> u8 \<Rightarrow> u16 \<Rightarrow> bool" where
  "held_word b own c \<longleftrightarrow> canonical c \<and> base c = b \<and> source c = ucast own + 1"

definition complete :: "u16 \<Rightarrow> bool" where
  "complete c \<longleftrightarrow> c AND COMPLETE \<noteq> 0"

text \<open>What a slot described at position \<open>p\<close> of the log \<open>e\<close> looks like.\<close>

definition idle_ok :: "view \<Rightarrow> (nat \<times> 'a option) list \<Rightarrow> nat \<Rightarrow> 'a slot \<Rightarrow> bool" where
  "idle_ok v e p s \<longleftrightarrow> turn s = cursor v p \<and>
     (if p < length e then
        (case snd (e ! p) of
           None \<Rightarrow> control s = AVAILABLE
         | Some x \<Rightarrow> control s = AVAILABLE OR COMPLETE \<and> val s = Some x)
      else control s = EMPTY)"

fun stage_ok ::
    "view \<Rightarrow> (nat \<times> 'a option) list \<Rightarrow> nat \<Rightarrow> 'a slot \<Rightarrow> nat \<Rightarrow> u8 \<Rightarrow> hold_stage \<Rightarrow> bool" where
  "stage_ok v e p s i own Reserving \<longleftrightarrow> length e \<le> p \<and> turn s = cursor v p \<and>
     held_word PRODUCER own (control s) \<and> \<not> complete (control s)"
| "stage_ok v e p s i own Checked \<longleftrightarrow> length e \<le> p \<and> turn s = cursor v p \<and>
     held_word PRODUCER own (control s) \<and> \<not> complete (control s)"
| "stage_ok v e p s i own Writing \<longleftrightarrow> p < length e \<and> turn s = cursor v p \<and>
     held_word PRODUCER own (control s) \<and> e ! p = (i, None) \<and>
     (complete (control s) \<longrightarrow> val s \<noteq> None)"
| "stage_ok v e p s i own Claiming \<longleftrightarrow> p < length e \<and> turn s = cursor v p \<and>
     held_word CONSUMER own (control s) \<and> (complete (control s) \<longleftrightarrow> snd (e ! p) \<noteq> None) \<and>
     (complete (control s) \<longrightarrow> val s = snd (e ! p))"
| "stage_ok v e p s i own Reading \<longleftrightarrow> length e \<le> p \<and> capacity v \<le> p \<and>
     turn s = cursor v (p - capacity v) \<and> held_word CONSUMER own (control s) \<and>
     (complete (control s) \<longleftrightarrow> snd (e ! (p - capacity v)) \<noteq> None) \<and>
     (complete (control s) \<longrightarrow> val s = snd (e ! (p - capacity v)))"
| "stage_ok v e p s i own Recycled \<longleftrightarrow> length e \<le> p \<and> turn s = cursor v p \<and>
     held_word CONSUMER own (control s)"

fun slot_ok ::
    "(nat \<Rightarrow> u8) \<Rightarrow> view \<Rightarrow> (nat \<times> 'a option) list \<Rightarrow> nat \<Rightarrow> 'a slot \<Rightarrow>
     (nat \<times> hold_stage \<times> nat) option \<Rightarrow> bool" where
  "slot_ok own v e p s None \<longleftrightarrow> idle_ok v e p s"
| "slot_ok own v e p s (Some (i, st, n)) \<longleftrightarrow> n = p \<and> stage_ok v e p s i (own i) st"

definition in_window :: "view \<Rightarrow> 'a ghost \<Rightarrow> nat \<Rightarrow> bool" where
  "in_window v g p \<longleftrightarrow> length (takers g) \<le> p \<and> p < length (takers g) + capacity v"

definition queue_inv :: "(nat \<Rightarrow> u8) \<Rightarrow> view \<Rightarrow> 'a ghost \<Rightarrow> 'a queue \<Rightarrow> bool" where
  "queue_inv own v g q \<longleftrightarrow>
     head q = cursor v (length (takers g)) \<and> tail q = cursor v (length (entries g)) \<and>
     length (takers g) \<le> length (entries g) \<and>
     length (entries g) \<le> length (takers g) + capacity v \<and>
     length (buf q) = capacity v \<and>
     (\<forall>p. in_window v g p \<longrightarrow>
        slot_ok own v (entries g) p (buf q ! (p mod capacity v)) (hold g (p mod capacity v))) \<and>
     (\<forall>k\<ge>capacity v. hold g k = None) \<and>
     field_state (send_field v) q \<noteq> 2 \<and>
     (field_state (send_field v) q = 3 \<longrightarrow> (\<forall>k. \<not> active (hold g k)))"

definition owners_ok :: "(nat \<Rightarrow> u8) \<Rightarrow> bool" where
  "owners_ok own \<longleftrightarrow> (\<forall>i. unat (own i) < PARTICIPANT_CAPACITY)"

section \<open>What one atomic operation may do\<close>

definition log_step :: "nat \<Rightarrow> (nat \<times> 'a option) list \<Rightarrow> (nat \<times> 'a option) list \<Rightarrow> bool" where
  "log_step i e e' \<longleftrightarrow> length e \<le> length e' \<and>
     (\<forall>p<length e. fst (e' ! p) = fst (e ! p) \<and> (fst (e ! p) \<noteq> i \<longrightarrow> e' ! p = e ! p)) \<and>
     (\<forall>p<length e'. length e \<le> p \<longrightarrow> fst (e' ! p) = i)"

definition act ::
    "(nat \<Rightarrow> u8) \<Rightarrow> view \<Rightarrow> nat \<Rightarrow> 'a ghost \<times> 'a queue \<Rightarrow> 'a ghost \<times> 'a queue \<Rightarrow> bool" where
  "act own v i = (\<lambda>(g, q) (g', q').
     queue_inv own v g' q' \<and>
     (\<forall>k j. j \<noteq> i \<and> (holder (hold g k) = Some j \<or> holder (hold g' k) = Some j) \<longrightarrow>
        hold g' k = hold g k \<and> buf q' ! k = buf q ! k) \<and>
     log_step i (entries g) (entries g') \<and>
     (takers g' = takers g \<or> takers g' = takers g @ [i]) \<and>
     (\<forall>p<length (takers g). entries g' ! p = entries g ! p) \<and>
     (\<forall>n. bit (lifecycle q) n \<longrightarrow> bit (lifecycle q') n) \<and>
     (field_state (send_field v) q \<noteq> 0 \<longrightarrow> (\<forall>k. active (hold g' k) \<longrightarrow> active (hold g k))) \<and>
     (field_state (send_field v) q = 3 \<longrightarrow> entries g' = entries g))"

definition others ::
    "(nat \<Rightarrow> u8) \<Rightarrow> view \<Rightarrow> nat \<Rightarrow> 'a ghost \<times> 'a queue \<Rightarrow> 'a ghost \<times> 'a queue \<Rightarrow> bool" where
  "others own v i w w' \<longleftrightarrow> (\<exists>j. j \<noteq> i \<and> act own v j w w')"

lemma log_step_refl [simp]: "log_step i e e"
  by (simp add: log_step_def)

lemma log_step_append [simp]: "log_step i e (e @ [(i, x)])"
  by (auto simp: log_step_def nth_append)

lemma log_step_update: "e ! p = (i, y) \<Longrightarrow> log_step i e (e[p := (i, x)])"
  by (cases "p < length e") (auto simp: log_step_def nth_list_update)

lemma act_refl [simp]: "queue_inv own v g q \<Longrightarrow> act own v i (g, q) (g, q)"
  by (simp add: act_def)

lemma act_inv: "act own v i w (g, q) \<Longrightarrow> queue_inv own v g q"
  by (cases w) (simp add: act_def)

lemma queue_inv_le: "queue_inv own v g q \<Longrightarrow> length (takers g) \<le> length (entries g)"
  by (simp add: queue_inv_def)

section \<open>Windows\<close>

lemma in_window_unique:
  "in_window v g p \<Longrightarrow> in_window v g p' \<Longrightarrow> p mod capacity v = p' mod capacity v \<Longrightarrow> p = p'"
  using window_mod_eq [of p "capacity v" p'] window_mod_eq [of p' "capacity v" p]
  by (cases "p \<le> p'") (auto simp: in_window_def)

lemma window_position:
  assumes "view_ok v" "k < capacity v"
  obtains p where "in_window v g p" "p mod capacity v = k"
proof -
  let ?H = "length (takers g)" and ?c = "capacity v"
  let ?p = "?H + (k + ?c - ?H mod ?c) mod ?c"
  have c: "0 < ?c" using assms(2) by simp
  have "?H mod ?c < ?c" using c by simp
  then have "?H mod ?c + (k + ?c - ?H mod ?c) = k + ?c"
    by linarith
  then have "(?H mod ?c + (k + ?c - ?H mod ?c)) mod ?c = k"
    using assms(2) by simp
  then have "?p mod ?c = k"
    by (simp add: mod_add_eq mod_add_left_eq mod_add_right_eq)
  moreover have "in_window v g ?p"
    using c by (simp add: in_window_def)
  ultimately show thesis using that by blast
qed

lemma slot_okI:
  assumes "view_ok v" "queue_inv own v g q" "k < capacity v"
  obtains p where "in_window v g p" "p mod capacity v = k"
    "slot_ok own v (entries g) p (buf q ! k) (hold g k)"
  using window_position [OF assms(1,3), of g] assms(2) unfolding queue_inv_def by metis

lemma hold_bound: "queue_inv own v g q \<Longrightarrow> hold g k = Some h \<Longrightarrow> k < capacity v"
  unfolding queue_inv_def by (metis not_le option.distinct(1))

lemma hold_slot:
  assumes "view_ok v" "queue_inv own v g q" "hold g k = Some (i, st, p)"
  shows "in_window v g p \<and> p mod capacity v = k \<and> stage_ok v (entries g) p (buf q ! k) i (own i) st"
  using slot_okI [OF assms(1,2) hold_bound [OF assms(2,3)]] assms(3) by (metis slot_ok.simps(2))

lemma slot_ok_entries:
  assumes "length e' = length e" "\<forall>n<length e. n \<noteq> p \<longrightarrow> e' ! n = e ! n"
    and "p' \<noteq> p" "p' < p + capacity v" "capacity v \<le> p' \<longrightarrow> p' - capacity v < length e"
    and "slot_ok own v e p' s h"
  shows "slot_ok own v e' p' s h"
proof (cases h)
  case None
  with assms show ?thesis
    by (auto simp: idle_ok_def)
next
  case (Some t)
  obtain i st n where "t = (i, st, n)" by (cases t)
  with assms Some show ?thesis
    by (cases st) auto
qed

section \<open>Actions on one slot\<close>

lemma queue_inv_slot:
  assumes v: "view_ok v" and inv: "queue_inv own v g q"
    and p: "in_window v g p" "p mod capacity v = k"
    and e: "length e = length (entries g)" "\<forall>n<length e. n \<noteq> p \<longrightarrow> e ! n = entries g ! n"
    and s: "slot_ok own v e p s h"
    and h: "field_state (send_field v) q = 3 \<longrightarrow> \<not> active h"
  shows "queue_inv own v (g\<lparr>hold := (hold g)(k := h), entries := e\<rparr>) (q\<lparr>buf := (buf q)[k := s]\<rparr>)"
proof -
  have k: "k < capacity v"
    using v p(2) by (auto simp: view_ok_def)
  have "slot_ok own v e p' ((buf q)[k := s] ! (p' mod capacity v)) (((hold g)(k := h)) (p' mod capacity v))"
    if p': "in_window v g p'" for p'
  proof (cases "p' = p")
    case True
    with s k p(2) inv show ?thesis
      by (simp add: queue_inv_def)
  next
    case False
    then have "p' mod capacity v \<noteq> k"
      using in_window_unique [OF p(1) p'] p(2) by blast
    moreover have "slot_ok own v e p' (buf q ! (p' mod capacity v)) (hold g (p' mod capacity v))"
    proof (rule slot_ok_entries)
      show "slot_ok own v (entries g) p' (buf q ! (p' mod capacity v)) (hold g (p' mod capacity v))"
        using inv p' by (simp add: queue_inv_def)
      show "p' < p + capacity v" "capacity v \<le> p' \<longrightarrow> p' - capacity v < length (entries g)"
        using p(1) p' inv by (auto simp: in_window_def queue_inv_def)
    qed (use e False in auto)
    ultimately show ?thesis
      by simp
  qed
  with assms k show ?thesis
    by (auto simp: queue_inv_def in_window_def field_state_def)
qed

lemma act_slot:
  assumes v: "view_ok v" and inv: "queue_inv own v g q"
    and p: "in_window v g p" "p mod capacity v = k"
    and e: "e = entries g \<or> (hold g k = Some (i, Writing, p) \<and> e = (entries g)[p := (i, x)])"
    and s: "slot_ok own v e p s h"
    and held: "hold g k = None \<or> holder (hold g k) = Some i" "h = None \<or> holder h = Some i"
    and act: "active h \<longrightarrow> field_state (send_field v) q = 0 \<or> active (hold g k)"
  shows "act own v i (g, q) (g\<lparr>hold := (hold g)(k := h), entries := e\<rparr>, q\<lparr>buf := (buf q)[k := s]\<rparr>)"
proof -
  have closed: "\<not> active (hold g k)" if "field_state (send_field v) q = 3"
    using inv that by (simp add: queue_inv_def)
  have writing: "p < length (entries g) \<and> entries g ! p = (i, None)" if "hold g k = Some (i, Writing, p)"
    using hold_slot [OF v inv that] by simp
  have "queue_inv own v (g\<lparr>hold := (hold g)(k := h), entries := e\<rparr>) (q\<lparr>buf := (buf q)[k := s]\<rparr>)"
    using e act closed by (intro queue_inv_slot [OF v inv p _ _ s]) auto
  moreover have "log_step i (entries g) e"
    using e writing by (auto intro: log_step_update)
  moreover have "\<forall>n<length (takers g). e ! n = entries g ! n"
    using e p(1) by (auto simp: in_window_def)
  moreover have "e = entries g" if "field_state (send_field v) q = 3"
    using e closed [OF that] by auto
  ultimately show ?thesis
    using held act by (auto simp: act_def)
qed

lemma ghost_id [simp]:
  "g\<lparr>hold := h, entries := entries g\<rparr> = g\<lparr>hold := h\<rparr>" "g\<lparr>hold := hold g\<rparr> = g"
  by simp_all

lemma queue_id [simp]: "q\<lparr>buf := (buf q)[k := buf q ! k]\<rparr> = q"
  by simp

lemma stage_base:
  "stage_ok v e p s i own st \<Longrightarrow> base (control s) = PRODUCER \<or> base (control s) = CONSUMER"
  by (cases st) (auto simp: held_word_def)

lemma idle_if_free:
  assumes "slot_ok own v e p s h" "control s \<in> {EMPTY, AVAILABLE, AVAILABLE OR COMPLETE}"
  shows "h = None \<and> idle_ok v e p s"
proof (cases h)
  case (Some t)
  then obtain i st n where "h = Some (i, st, n)" by (cases t) auto
  with assms stage_base [of v e p s i "own i" st] show ?thesis
    by (auto simp: base_def)
qed (use assms in simp)

lemma held_word_owned [simp]:
  "unat o' < PARTICIPANT_CAPACITY \<Longrightarrow> b = PRODUCER \<or> b = CONSUMER \<Longrightarrow> held_word b o' (owned b cmp o')"
  by (simp add: held_word_def owned_parts)

lemma complete_owned [simp]:
  "unat o' < PARTICIPANT_CAPACITY \<Longrightarrow> b = PRODUCER \<or> b = CONSUMER \<Longrightarrow> complete (owned b cmp o') = cmp"
  by (simp add: complete_def owned_parts)

lemma owner_bound [simp]: "owners_ok own \<Longrightarrow> unat (own i) < PARTICIPANT_CAPACITY"
  by (simp add: owners_ok_def)

lemma act_reserve_slot:
  assumes v: "view_ok v" and own: "owners_ok own" and inv: "queue_inv own v g q"
    and free: "k < capacity v" "slot_control k q = EMPTY"
  obtains p where "hold g k = None"
    "act own v i (g, q) (g\<lparr>hold := (hold g)(k := Some (i, Reserving, p))\<rparr>,
       set_control k (owned PRODUCER False (own i)) q)"
proof -
  obtain p where p: "in_window v g p" "p mod capacity v = k"
      "slot_ok own v (entries g) p (buf q ! k) (hold g k)"
    using slot_okI [OF v inv free(1)] .
  with free(2) have idle: "hold g k = None" "idle_ok v (entries g) p (buf q ! k)"
    using idle_if_free [OF p(3)] by auto
  then have "length (entries g) \<le> p" "turn (buf q ! k) = cursor v p"
    using free(2) by (auto simp: idle_ok_def split: if_splits option.splits)
  then have "act own v i (g, q) (g\<lparr>hold := (hold g)(k := Some (i, Reserving, p)), entries := entries g\<rparr>,
       q\<lparr>buf := (buf q)[k := (buf q ! k)\<lparr>control := owned PRODUCER False (own i)\<rparr>]\<rparr>)"
    using idle(1) own by (intro act_slot [OF v inv p(1,2)]) auto
  with that idle(1) show thesis
    by (simp add: set_control_def)
qed

text \<open>For a slot that thread \<open>i\<close> holds, an action that keeps or drops the hold.\<close>

lemma act_held:
  assumes v: "view_ok v" and inv: "queue_inv own v g q" and held: "hold g k = Some (i, st, p)"
    and s: "slot_ok own v (entries g) p s h" and h: "h = None \<or> holder h = Some i"
    and act: "active h \<longrightarrow> field_state (send_field v) q = 0 \<or> active (hold g k)"
  shows "act own v i (g, q) (g\<lparr>hold := (hold g)(k := h)\<rparr>, q\<lparr>buf := (buf q)[k := s]\<rparr>)"
  using act_slot [OF v inv, of p k "entries g" i None s h] hold_slot [OF v inv held] held s h act
  by simp

lemma act_release_slot:
  assumes "view_ok v" "queue_inv own v g q" "hold g k = Some (i, st, p)" "st = Reserving \<or> st = Checked"
  shows "act own v i (g, q) (g\<lparr>hold := (hold g)(k := None)\<rparr>, set_control k EMPTY q)"
  unfolding set_control_def
  by (rule act_held [OF assms(1-3)]) (use hold_slot [OF assms(1-3)] assms(4) in \<open>auto simp: idle_ok_def\<close>)

lemma act_check:
  assumes "view_ok v" "queue_inv own v g q" "hold g k = Some (i, Reserving, p)"
    and "field_state (send_field v) q = 0"
  shows "act own v i (g, q) (g\<lparr>hold := (hold g)(k := Some (i, Checked, p))\<rparr>, q)"
  using act_held [OF assms(1-3), of "buf q ! k" "Some (i, Checked, p)"] hold_slot [OF assms(1-3)] assms(4)
  by simp

lemma act_write:
  assumes "view_ok v" "queue_inv own v g q" "hold g k = Some (i, Writing, p)"
    and "turn s = slot_turn k q" "held_word PRODUCER (own i) (control s)"
    and "complete (control s) \<longrightarrow> val s \<noteq> None"
  shows "act own v i (g, q) (g, q\<lparr>buf := (buf q)[k := s]\<rparr>)"
  using act_held [OF assms(1-3), of s "Some (i, Writing, p)"] hold_slot [OF assms(1-3)] assms(3-6)
  by (simp add: fun_upd_idem)

lemma act_skip:
  assumes "view_ok v" "queue_inv own v g q" "hold g k = Some (i, Writing, p)"
  shows "act own v i (g, q) (g\<lparr>hold := (hold g)(k := None)\<rparr>, set_control k AVAILABLE q)"
  unfolding set_control_def
  by (rule act_held [OF assms]) (use hold_slot [OF assms] in \<open>auto simp: idle_ok_def\<close>)

lemma act_publish:
  assumes "view_ok v" "queue_inv own v g q" "hold g k = Some (i, Writing, p)" "slot_val k q = Some x"
  shows "act own v i (g, q)
    (g\<lparr>hold := (hold g)(k := None), entries := (entries g)[p := (i, Some x)]\<rparr>,
     set_control k (AVAILABLE OR COMPLETE) q)"
  unfolding set_control_def
  by (rule act_slot [OF assms(1,2)]) (use hold_slot [OF assms(1-3)] assms(3,4) in \<open>auto simp: idle_ok_def\<close>)

lemma act_claim_slot:
  assumes v: "view_ok v" and own: "owners_ok own" and inv: "queue_inv own v g q"
    and free: "k < capacity v" "slot_control k q = a" "a = AVAILABLE \<or> a = AVAILABLE OR COMPLETE"
  obtains p where "hold g k = None"
    "act own v i (g, q) (g\<lparr>hold := (hold g)(k := Some (i, Claiming, p))\<rparr>,
       set_control k (owned CONSUMER (a AND COMPLETE \<noteq> 0) (own i)) q)"
proof -
  obtain p where p: "in_window v g p" "p mod capacity v = k"
      "slot_ok own v (entries g) p (buf q ! k) (hold g k)"
    using slot_okI [OF v inv free(1)] .
  with free(2,3) have idle: "hold g k = None" "idle_ok v (entries g) p (buf q ! k)"
    using idle_if_free [OF p(3)] by auto
  then have "p < length (entries g)" "turn (buf q ! k) = cursor v p"
      "(a AND COMPLETE \<noteq> 0) = (snd (entries g ! p) \<noteq> None)"
      "a AND COMPLETE \<noteq> 0 \<longrightarrow> slot_val k q = snd (entries g ! p)"
    using free(2,3) by (auto simp: idle_ok_def split: if_splits option.splits)
  then have "act own v i (g, q) (g\<lparr>hold := (hold g)(k := Some (i, Claiming, p)), entries := entries g\<rparr>,
       q\<lparr>buf := (buf q)[k := (buf q ! k)\<lparr>control := owned CONSUMER (a AND COMPLETE \<noteq> 0) (own i)\<rparr>]\<rparr>)"
    using idle(1) own by (intro act_slot [OF v inv p(1,2)]) auto
  with that idle(1) show thesis
    by (simp add: set_control_def)
qed

lemma act_unclaim:
  assumes "view_ok v" "queue_inv own v g q" "hold g k = Some (i, Claiming, p)"
    and "a = AVAILABLE OR (if complete (slot_control k q) then COMPLETE else 0)"
  shows "act own v i (g, q) (g\<lparr>hold := (hold g)(k := None)\<rparr>, set_control k a q)"
  unfolding set_control_def
  by (rule act_held [OF assms(1-3)])
    (use hold_slot [OF assms(1-3)] assms(4) in \<open>auto simp: idle_ok_def split: option.splits\<close>)

lemma act_recycle_turn:
  assumes "view_ok v" "queue_inv own v g q" "hold g k = Some (i, Reading, p)"
  shows "act own v i (g, q) (g\<lparr>hold := (hold g)(k := Some (i, Recycled, p))\<rparr>, set_turn k (cursor v p) q)"
  unfolding set_turn_def
  by (rule act_held [OF assms]) (use hold_slot [OF assms] in auto)

lemma act_recycle:
  assumes "view_ok v" "queue_inv own v g q" "hold g k = Some (i, Recycled, p)"
  shows "act own v i (g, q) (g\<lparr>hold := (hold g)(k := None)\<rparr>, set_control k EMPTY q)"
  unfolding set_control_def
  by (rule act_held [OF assms]) (use hold_slot [OF assms] in \<open>auto simp: idle_ok_def\<close>)

section \<open>Commits\<close>

lemma closed_inactive:
  "queue_inv own v g q \<Longrightarrow> field_state (send_field v) q = 3 \<Longrightarrow> \<not> active (hold g k)"
  by (simp add: queue_inv_def)

lemma slot_ok_grow:
  assumes "slot_ok own v e p s h" "p \<noteq> length e" "capacity v \<le> p \<longrightarrow> p - capacity v < length e"
  shows "slot_ok own v (e @ [x]) p s h"
proof (cases h)
  case None
  with assms show ?thesis
    by (auto simp: idle_ok_def nth_append)
next
  case (Some t)
  obtain i st n where "t = (i, st, n)" by (cases t)
  with assms Some show ?thesis
    by (cases st) (auto simp: nth_append)
qed

lemma act_commit_tail:
  assumes v: "view_ok v" and inv: "queue_inv own v g q" and held: "hold g k = Some (i, Checked, p)"
    and t: "slot_turn k q = tail q"
  shows "p = length (entries g)"
    and "act own v i (g, q)
      (g\<lparr>entries := entries g @ [(i, None)], hold := (hold g)(k := Some (i, Writing, p))\<rparr>,
       set_tail (cursor v (Suc (length (entries g)))) q)"
proof -
  let ?g = "g\<lparr>entries := entries g @ [(i, None)], hold := (hold g)(k := Some (i, Writing, p))\<rparr>"
  let ?q = "set_tail (cursor v (Suc (length (entries g)))) q"
  note slot = hold_slot [OF v inv held]
  have k: "k < capacity v" using hold_bound [OF inv held] .
  have "cursor v (length (entries g)) = cursor v p"
    using inv slot t by (simp add: queue_inv_def)
  then show p: "p = length (entries g)"
    using cursor_inject [OF v, of "length (entries g)" p] slot inv
    by (auto simp: in_window_def queue_inv_def)
  have open_send: "field_state (send_field v) q \<noteq> 3"
    using closed_inactive [OF inv, of k] held by auto
  have "slot_ok own v (entries ?g) n (buf ?q ! (n mod capacity v)) (hold ?g (n mod capacity v))"
    if n: "in_window v g n" for n
  proof (cases "n = p")
    case True
    with slot p show ?thesis by simp
  next
    case False
    then have "n mod capacity v \<noteq> k"
      using in_window_unique [OF n, of p] slot by auto
    moreover have "slot_ok own v (entries g) n (buf q ! (n mod capacity v)) (hold g (n mod capacity v))"
      using inv n by (simp add: queue_inv_def)
    moreover have "capacity v \<le> n \<longrightarrow> n - capacity v < length (entries g)"
      using n inv by (auto simp: in_window_def queue_inv_def)
    ultimately show ?thesis
      using False p by (simp add: slot_ok_grow)
  qed
  then have "queue_inv own v ?g ?q"
    using inv slot k open_send by (auto simp: queue_inv_def in_window_def field_state_def p)
  moreover have "length (takers g) \<le> length (entries g)"
    using inv by (simp add: queue_inv_def)
  ultimately show "act own v i (g, q) (?g, ?q)"
    using held open_send by (auto simp: act_def nth_append)
qed

lemma act_commit_head:
  assumes v: "view_ok v" and inv: "queue_inv own v g q" and held: "hold g k = Some (i, Claiming, p)"
    and t: "slot_turn k q = head q"
  shows "p = length (takers g)"
    and "act own v i (g, q)
      (g\<lparr>takers := takers g @ [i], hold := (hold g)(k := Some (i, Reading, p + capacity v))\<rparr>,
       set_head (cursor v (Suc (length (takers g)))) q)"
proof -
  let ?g = "g\<lparr>takers := takers g @ [i], hold := (hold g)(k := Some (i, Reading, p + capacity v))\<rparr>"
  let ?q = "set_head (cursor v (Suc (length (takers g)))) q"
  note slot = hold_slot [OF v inv held]
  have k: "k < capacity v" using hold_bound [OF inv held] .
  have "cursor v (length (takers g)) = cursor v p"
    using inv slot t by (simp add: queue_inv_def)
  then show p: "p = length (takers g)"
    using cursor_inject [OF v, of "length (takers g)" p] slot
    by (auto simp: in_window_def)
  have "slot_ok own v (entries ?g) n (buf ?q ! (n mod capacity v)) (hold ?g (n mod capacity v))"
    if n: "in_window v ?g n" for n
  proof (cases "n = p + capacity v")
    case True
    with slot inv p show ?thesis by (simp add: queue_inv_def)
  next
    case False
    then have n': "in_window v g n"
      using n p by (auto simp: in_window_def)
    then have "n mod capacity v \<noteq> k"
      using in_window_unique [OF n', of p] slot n p by (auto simp: in_window_def)
    moreover have "slot_ok own v (entries g) n (buf q ! (n mod capacity v)) (hold g (n mod capacity v))"
      using inv n' by (simp add: queue_inv_def)
    ultimately show ?thesis
      by simp
  qed
  then have "queue_inv own v ?g ?q"
    using inv slot k by (auto simp: queue_inv_def field_state_def p)
  then show "act own v i (g, q) (?g, ?q)"
    using held by (auto simp: act_def)
qed

section \<open>Lifecycle\<close>

lemma queue_inv_lifecycle:
  assumes "queue_inv own v g q" "field_state (send_field v) (set_lifecycle l q) \<noteq> 2"
    and "field_state (send_field v) (set_lifecycle l q) = 3 \<longrightarrow> (\<forall>k. \<not> active (hold g k))"
  shows "queue_inv own v g (set_lifecycle l q)"
  using assms by (simp add: queue_inv_def)

lemma act_lifecycle:
  assumes v: "view_ok v" and inv: "queue_inv own v g q" and f: "f \<in> {0, 2, 4, 6}" and b: "b \<in> {1, 2}"
    and fin: "f = send_field v \<and> b = 2 \<longrightarrow>
      field_state (send_field v) q \<noteq> 0 \<and> (\<forall>k. \<not> active (hold g k))"
  shows "act own v i (g, q) (g, set_lifecycle (lifecycle q OR push_bit f b) q)"
proof -
  have s: "send_field v \<in> {0, 2, 4, 6}"
    using v by (simp add: view_ok_def)
  have "field_state (send_field v) q \<in> {0, 1, 3}"
    using field_state_values [of "send_field v" q] inv by (auto simp: queue_inv_def)
  then have "queue_inv own v g (set_lifecycle (lifecycle q OR push_bit f b) q)"
    using b fin inv
    by (intro queue_inv_lifecycle) (auto simp: field_state_or [OF s f b] queue_inv_def)
  then show ?thesis
    by (simp add: act_def bit_or_iff)
qed

end
