(* ===== verification/Queue_Concurrent.thy ===== *)
theory Queue_Concurrent
  imports Queue_Invariant
begin

text \<open>
  Every operation of the ring under interference: a rely-guarantee specification of each program of
  \<open>Queue\<close>, and from them what any number of producers and consumers achieve together under every
  interleaving of their atomic operations.
\<close>

section \<open>What a thread has sent and received\<close>

definition sent :: "nat \<Rightarrow> (nat \<times> 'a option) list \<Rightarrow> 'a list" where
  "sent i e = List.map_filter (\<lambda>(j, x). if j = i then x else None) e"

definition received :: "nat \<Rightarrow> nat list \<Rightarrow> (nat \<times> 'a option) list \<Rightarrow> 'a list" where
  "received i t e = List.map_filter (\<lambda>(j, _, x). if j = i then x else None) (zip t e)"

lemma map_filter_append [simp]: "List.map_filter f (xs @ ys) = List.map_filter f xs @ List.map_filter f ys"
  by (simp add: List.map_filter_def)

lemma sent_append [simp]: "sent i (xs @ ys) = sent i xs @ sent i ys"
  by (simp add: sent_def)

lemma sent_simps [simp]: "sent i [] = []" "sent i ((j, None) # e) = sent i e"
  "sent i ((i, Some x) # e) = x # sent i e"
  by (simp_all add: sent_def List.map_filter_simps)

lemma sent_none: "(\<forall>y\<in>set e. fst y \<noteq> i) \<Longrightarrow> sent i e = []"
  by (induction e) (auto simp: sent_def List.map_filter_simps split: prod.splits option.splits)

lemma sent_cong:
  "list_all2 (\<lambda>x y. fst x = fst y \<and> (fst x = i \<longrightarrow> x = y)) xs ys \<Longrightarrow> sent i xs = sent i ys"
  by (induction rule: list_all2_induct)
    (auto simp: sent_def List.map_filter_simps split: prod.splits option.splits)

lemma set_drop_nth:
  assumes "y \<in> set (drop n e)"
  shows "\<exists>m. n \<le> m \<and> m < length e \<and> y = e ! m"
proof -
  obtain i where "i < length (drop n e)" "y = drop n e ! i"
    using assms by (metis in_set_conv_nth)
  then show ?thesis
    by (intro exI [of _ "n + i"]) auto
qed

lemma sent_other:
  assumes "log_step j e e'" "j \<noteq> i"
  shows "sent i e' = sent i e"
proof -
  let ?n = "length e"
  have "list_all2 (\<lambda>x y. fst x = fst y \<and> (fst x = i \<longrightarrow> x = y)) (take ?n e') e"
    using assms by (auto simp: list_all2_conv_all_nth log_step_def)
  moreover have "\<forall>y\<in>set (drop ?n e'). fst y \<noteq> i"
    using assms set_drop_nth [of _ ?n e'] unfolding log_step_def by blast
  ultimately have "sent i (take ?n e' @ drop ?n e') = sent i e"
    by (simp only: sent_append sent_cong sent_none append_Nil2)
  then show ?thesis
    by simp
qed

lemma sent_publish:
  assumes "p < length e" "e ! p = (i, None)" "\<forall>n. p < n \<and> n < length e \<longrightarrow> fst (e ! n) \<noteq> i"
  shows "sent i (e[p := (i, Some x)]) = sent i e @ [x]"
proof -
  have "sent i (drop (Suc p) e) = []"
    using assms(3) set_drop_nth [of _ "Suc p" e] by (intro sent_none) (metis Suc_le_lessD)
  moreover have "sent i e = sent i (take p e @ (i, None) # drop (Suc p) e)"
    using id_take_nth_drop [OF assms(1)] assms(2) by simp
  ultimately show ?thesis
    using assms(1) by (simp add: upd_conv_take_nth_drop)
qed

lemma zip_prefix_cong:
  assumes "\<forall>n<length t. e' ! n = e ! n" "length t \<le> length e" "length t \<le> length e'"
  shows "zip t e' = zip t e"
  using assms by (intro nth_equalityI) auto

lemma zip_snoc: "length t < length e \<Longrightarrow> zip (t @ [j]) e = zip t e @ [(j, e ! length t)]"
  by (intro nth_equalityI) (auto simp: nth_append less_Suc_eq)

lemma received_other:
  assumes "t' = t \<or> t' = t @ [j]" "j \<noteq> i" "\<forall>n<length t. e' ! n = e ! n"
    and "length t \<le> length e" "length t' \<le> length e'"
  shows "received i t' e' = received i t e"
  using assms zip_prefix_cong [of t e' e]
  by (auto simp: received_def zip_snoc List.map_filter_simps)

section \<open>Assertions of a thread\<close>

definition thread ::
    "(nat \<Rightarrow> u8) \<Rightarrow> view \<Rightarrow> nat \<Rightarrow> nat set \<Rightarrow> 'a list \<Rightarrow> 'a list \<Rightarrow> 'a ghost \<times> 'a queue \<Rightarrow> bool" where
  "thread own v i hs s r = (\<lambda>(g, q). queue_inv own v g q \<and>
     {k. holder (hold g k) = Some i} = hs \<and> sent i (entries g) = s \<and>
     received i (takers g) (entries g) = r)"

definition holding ::
    "nat \<Rightarrow> nat \<Rightarrow> hold_stage \<Rightarrow> nat \<Rightarrow> 'a slot \<Rightarrow> 'a ghost \<times> 'a queue \<Rightarrow> bool" where
  "holding i k st p sl = (\<lambda>(g, q). hold g k = Some (i, st, p) \<and> buf q ! k = sl)"

definition newest :: "nat \<Rightarrow> nat \<Rightarrow> 'a ghost \<times> 'a queue \<Rightarrow> bool" where
  "newest i p = (\<lambda>(g, q). \<forall>n. p < n \<and> n < length (entries g) \<longrightarrow> fst (entries g ! n) \<noteq> i)"

declare stable_conj [intro]

lemma stable_const [intro, simp]: "stable_under R (\<lambda>w. c)"
  by (simp add: stable_under_def)

lemma stable_ex [intro]: "(\<And>x. stable_under R (P x)) \<Longrightarrow> stable_under R (\<lambda>w. \<exists>x. P x w)"
  by (auto simp: stable_under_def)

lemma thread_stable [intro]: "stable_under (others own v i) (thread own v i hs s r)"
proof -
  have "thread own v i hs s r (g', q')"
    if t: "thread own v i hs s r (g, q)" and a: "act own v j (g, q) (g', q')" and j: "j \<noteq> i"
    for g q g' q' j
  proof -
    have inv: "queue_inv own v g q" "queue_inv own v g' q'"
      using t a by (auto simp: thread_def act_def)
    have "holder (hold g' k) = Some i \<longleftrightarrow> holder (hold g k) = Some i" for k
      using a j unfolding act_def by (auto simp del: holder_simps)
    moreover have "sent i (entries g') = sent i (entries g)"
      using a j by (intro sent_other) (auto simp: act_def)
    moreover have "received i (takers g') (entries g') = received i (takers g) (entries g)"
      using a j inv by (intro received_other [of _ _ j]) (auto simp: act_def queue_inv_def)
    ultimately show ?thesis
      using t inv by (simp add: thread_def)
  qed
  then show ?thesis
    unfolding stable_under_def others_def by fastforce
qed

lemma holding_stable [intro]: "stable_under (others own v i) (holding i k st p sl)"
proof -
  have "holding i k st p sl (g', q')"
    if t: "holding i k st p sl (g, q)" and a: "act own v j (g, q) (g', q')" and j: "j \<noteq> i"
    for g q g' q' j
  proof -
    have "holder (hold g k) = Some i"
      using t by (simp add: holding_def)
    then have "hold g' k = hold g k \<and> buf q' ! k = buf q ! k"
      using a j unfolding act_def by auto
    then show ?thesis
      using t by (simp add: holding_def)
  qed
  then show ?thesis
    unfolding stable_under_def others_def by fastforce
qed

lemma newest_stable [intro]: "stable_under (others own v i) (newest i p)"
proof -
  have "newest i p (g', q')"
    if t: "newest i p (g, q)" and a: "act own v j (g, q) (g', q')" and j: "j \<noteq> i"
    for g q g' q' j
  proof -
    have step: "log_step j (entries g) (entries g')"
      using a by (simp add: act_def)
    have "fst (entries g' ! n) \<noteq> i" if "p < n" "n < length (entries g')" for n
      using t step j that by (cases "n < length (entries g)") (auto simp: newest_def log_step_def)
    then show ?thesis
      by (simp add: newest_def)
  qed
  then show ?thesis
    unfolding stable_under_def others_def by fastforce
qed

section \<open>Rules for single operations\<close>

abbreviation rg ::
    "(nat \<Rightarrow> u8) \<Rightarrow> view \<Rightarrow> nat \<Rightarrow> ('b \<Rightarrow> 'a ghost \<times> 'a queue \<Rightarrow> bool) \<Rightarrow> ('a queue, 'b) prog \<Rightarrow>
     'a ghost \<times> 'a queue \<Rightarrow> bool" where
  "rg own v i \<equiv> sat (others own v i) (act own v i)"

lemma thread_inv: "thread own v i hs s r (g, q) \<Longrightarrow> queue_inv own v g q"
  by (simp add: thread_def)

lemma rg_load:
  assumes "stable_under (others own v i) P" "P w" "\<And>g q. P (g, q) \<Longrightarrow> queue_inv own v g q"
    and "\<And>g q. P (g, q) \<Longrightarrow> rg own v i Q (k (get q)) (g, q)"
  shows "rg own v i Q (load get k) w"
  unfolding load_def
proof (rule sat_StepI [OF assms(1,2)])
  fix g q
  assume "P (g, q)"
  then show "\<exists>g'. act own v i (g, q) (g', fst (q, k (get q))) \<and>
      rg own v i Q (snd (q, k (get q))) (g', fst (q, k (get q)))"
    using assms(3,4) by (intro exI [of _ g]) simp
qed

lemma rg_store:
  assumes "stable_under (others own v i) P" "P w"
    and "\<And>g q. P (g, q) \<Longrightarrow> \<exists>g'. act own v i (g, q) (g', upd q) \<and> rg own v i Q k (g', upd q)"
  shows "rg own v i Q (store upd k) w"
  unfolding store_def by (rule sat_StepI [OF assms(1,2)]) (use assms(3) in simp)

lemma rg_compare_exchange:
  assumes "stable_under (others own v i) P" "P w" "\<And>g q. P (g, q) \<Longrightarrow> queue_inv own v g q"
    and "\<And>g q. P (g, q) \<Longrightarrow> get q = old \<Longrightarrow>
      \<exists>g'. act own v i (g, q) (g', upd new q) \<and> rg own v i Q (k (Ok old)) (g', upd new q)"
    and "\<And>g q x. P (g, q) \<Longrightarrow> rg own v i Q (k (Err x)) (g, q)"
  shows "rg own v i Q (compare_exchange get upd old new k) w"
  unfolding compare_exchange_def
proof (rule sat_StepI [OF assms(1,2)], goal_cases)
  case (1 g q)
  show ?case
  proof (cases "get q = old")
    case True
    then show ?thesis using assms(4) [OF 1] by simp
  next
    case False
    then show ?thesis using assms(3,5) [OF 1] by (intro exI [of _ g]) simp
  qed
qed

lemma rg_ret:
  assumes "stable_under (others own v i) (Q a)" "Q a w"
  shows "rg own v i Q (Ret a) w"
  using assms by (rule sat_RetI)

text \<open>How the own actions change what a thread knows.\<close>

lemma thread_acquire:
  assumes "thread own v i hs s r (g, q)" "act own v i (g, q) (g\<lparr>hold := (hold g)(k := Some (i, st, p))\<rparr>, q')"
  shows "thread own v i (insert k hs) s r (g\<lparr>hold := (hold g)(k := Some (i, st, p))\<rparr>, q')"
  using assms by (auto simp: thread_def act_def)

lemma thread_release:
  assumes "thread own v i {k} s r (g, q)" "act own v i (g, q) (g\<lparr>hold := (hold g)(k := None)\<rparr>, q')"
  shows "thread own v i {} s r (g\<lparr>hold := (hold g)(k := None)\<rparr>, q')"
  using assms by (auto simp: thread_def act_def)

lemma thread_keep:
  assumes "thread own v i hs s r (g, q)" "act own v i (g, q) (g, q')"
  shows "thread own v i hs s r (g, q')"
  using assms by (auto simp: thread_def act_def)

lemma slot_update [simp]:
  "length (buf q) = n \<Longrightarrow> k < n \<Longrightarrow> slot_control k (set_control k c q) = c"
  "length (buf q) = n \<Longrightarrow> k < n \<Longrightarrow> buf (set_control k c q) ! k = (buf q ! k)\<lparr>control := c\<rparr>"
  "length (buf q) = n \<Longrightarrow> k < n \<Longrightarrow> buf (set_turn k t q) ! k = (buf q ! k)\<lparr>turn := t\<rparr>"
  "length (buf q) = n \<Longrightarrow> k < n \<Longrightarrow> buf (set_val k x q) ! k = (buf q ! k)\<lparr>val := x\<rparr>"
  by (simp_all add: set_control_def set_turn_def set_val_def)

lemma queue_inv_length: "queue_inv own v g q \<Longrightarrow> length (buf q) = capacity v"
  by (simp add: queue_inv_def)

section \<open>Reserving\<close>

definition at_slot ::
    "(nat \<Rightarrow> u8) \<Rightarrow> view \<Rightarrow> nat \<Rightarrow> nat \<Rightarrow> hold_stage \<Rightarrow> nat \<Rightarrow> 'a slot \<Rightarrow> 'a list \<Rightarrow> 'a list \<Rightarrow>
     'a ghost \<times> 'a queue \<Rightarrow> bool" where
  "at_slot own v i k st p sl s r w \<longleftrightarrow> thread own v i {k} s r w \<and> holding i k st p sl w"

lemma at_slot_stable [intro]: "stable_under (others own v i) (at_slot own v i k st p sl s r)"
  unfolding at_slot_def by (intro stable_conj thread_stable holding_stable)

lemma at_slotD:
  assumes "at_slot own v i k st p sl s r (g, q)"
  shows "queue_inv own v g q" "hold g k = Some (i, st, p)" "buf q ! k = sl"
    "thread own v i {k} s r (g, q)" "length (buf q) = capacity v" "k < capacity v"
proof -
  show inv: "queue_inv own v g q" and h: "hold g k = Some (i, st, p)" and "buf q ! k = sl"
    and "thread own v i {k} s r (g, q)"
    using assms by (auto simp: at_slot_def holding_def thread_def)
  show "length (buf q) = capacity v" "k < capacity v"
    using inv hold_bound [OF inv h] by (auto simp: queue_inv_def)
qed

lemma at_slotI:
  assumes "act own v i w (g', q')" "thread own v i {k} s r (g', q')" "hold g' k = Some (i, st, p)"
    "buf q' ! k = sl"
  shows "at_slot own v i k st p sl s r (g', q')"
  using assms by (simp add: at_slot_def holding_def)

lemma give_back:
  assumes v: "view_ok v" and st: "st = Reserving \<or> st = Checked"
    and w: "at_slot own v i k st p sl s r w"
    and Q: "\<And>w. thread own v i {} s r w \<Longrightarrow> rg own v i Q c w"
  shows "rg own v i Q (store (set_control k EMPTY) c) w"
proof (rule rg_store [OF at_slot_stable w])
  fix g q
  assume P: "at_slot own v i k st p sl s r (g, q)"
  note act = act_release_slot [OF v at_slotD(1) [OF P] at_slotD(2) [OF P] st]
  show "\<exists>g'. act own v i (g, q) (g', set_control k EMPTY q) \<and>
      rg own v i Q c (g', set_control k EMPTY q)"
    using act Q [OF thread_release [OF at_slotD(4) [OF P] act]] by blast
qed

definition reserved ::
    "(nat \<Rightarrow> u8) \<Rightarrow> view \<Rightarrow> nat \<Rightarrow> nat \<Rightarrow> nat \<Rightarrow> 'a slot \<Rightarrow> 'a list \<Rightarrow> 'a list \<Rightarrow>
     'a ghost \<times> 'a queue \<Rightarrow> bool" where
  "reserved own v i k p sl s r w \<longleftrightarrow> at_slot own v i k Writing p sl s r w \<and> newest i p w"

lemma reserved_stable [intro]: "stable_under (others own v i) (reserved own v i k p sl s r)"
  unfolding reserved_def by (intro stable_conj at_slot_stable newest_stable)

lemma newest_commit: "newest i (length (entries g)) (g\<lparr>entries := entries g @ [x], hold := h\<rparr>, q)"
  by (auto simp: newest_def)

lemma received_grow:
  "length (takers g) \<le> length (entries g) \<Longrightarrow>
   received i (takers g) (entries g @ xs) = received i (takers g) (entries g)"
  by (simp add: received_def zip_prefix_cong [of _ "entries g @ xs" "entries g"] nth_append)

lemma reserve_commit:
  assumes v: "view_ok v" and w: "at_slot own v i k Checked p sl s r w" and t: "turn sl = t"
    and next_t: "new = cursor_next v t" and Q: "\<And>p w. reserved own v i k p sl s r w \<Longrightarrow> rg own v i Q (c (Ok t)) w"
    and E: "\<And>x w. thread own v i {} s r w \<Longrightarrow> rg own v i Q (e x) w" and c: "\<And>x. c (Err x) = store (set_control k EMPTY) (e x)"
  shows "rg own v i Q (compare_exchange tail set_tail t new c) w"
proof (rule rg_compare_exchange [OF at_slot_stable w])
  fix g q
  assume P: "at_slot own v i k Checked p sl s r (g, q)"
  note D = at_slotD [OF P]
  show "queue_inv own v g q" by (rule D(1))
  show "rg own v i Q (c (Err x)) (g, q)" for x
    unfolding c by (rule give_back [OF v _ P E]) auto
  assume tail: "tail q = t"
  let ?g = "g\<lparr>entries := entries g @ [(i, None)], hold := (hold g)(k := Some (i, Writing, p))\<rparr>"
  let ?q = "set_tail new q"
  have "slot_turn k q = tail q"
    using D(3) tail t by simp
  note act_commit_tail [OF v D(1,2) this]
  moreover have "t = cursor v (length (entries g))"
    using D(1) tail by (simp add: queue_inv_def)
  then have "new = cursor v (Suc (length (entries g)))"
    using v next_t by simp
  ultimately have p: "p = length (entries g)" and act: "act own v i (g, q) (?g, ?q)"
    by simp_all
  have "thread own v i {k} s r (?g, ?q)"
    using D(4) act_inv [OF act] queue_inv_le [OF D(1)] by (auto simp: thread_def received_grow)
  then have "reserved own v i k p sl s r (?g, ?q)"
    using D(3) newest_commit [of i g] p by (simp add: reserved_def at_slot_def holding_def)
  with act Q show "\<exists>g'. act own v i (g, q) (g', set_tail new q) \<and> rg own v i Q (c (Ok t)) (g', set_tail new q)"
    by blast
qed

lemma queue_state_check:
  assumes v: "view_ok v" and w: "at_slot own v i k Reserving p sl s r w"
    and stop: "\<And>st x w. st = Reserving \<or> st = Checked \<Longrightarrow> x \<noteq> 0 \<Longrightarrow> at_slot own v i k st p sl s r w \<Longrightarrow>
      rg own v i Q (c x) w"
    and go: "\<And>w. at_slot own v i k Checked p sl s r w \<Longrightarrow> rg own v i Q (c 0) w"
  shows "rg own v i Q (queue_state (v\<lparr>owner := o'\<rparr>) c) w"
proof -
  have second: "rg own v i Q (load (field_state (recv_field v)) (\<lambda>r. c (x OR r))) w"
    if at: "at_slot own v i k st p sl s r w" and st: "st = Reserving \<or> st = Checked"
      and x: "st = Reserving \<longrightarrow> x \<noteq> 0" for st x w
  proof (rule rg_load [OF at_slot_stable at])
    fix g q
    assume P: "at_slot own v i k st p sl s r (g, q)"
    show "queue_inv own v g q" by (rule at_slotD(1) [OF P])
    show "rg own v i Q (c (x OR field_state (recv_field v) q)) (g, q)"
      using stop [OF st _ P] go P st x by (cases "x OR field_state (recv_field v) q = 0") (auto simp: or_eq_0_iff)
  qed
  show ?thesis
    unfolding queue_state_def load_def [of "field_state (send_field (v\<lparr>owner := o'\<rparr>))"]
  proof (rule sat_StepI [OF at_slot_stable w])
    fix g q
    assume P: "at_slot own v i k Reserving p sl s r (g, q)"
    note D = at_slotD [OF P]
    let ?x = "field_state (send_field v) q"
    have "\<exists>g'. act own v i (g, q) (g', q) \<and>
        rg own v i Q (load (field_state (recv_field v)) (\<lambda>r. c (?x OR r))) (g', q)"
    proof (cases "?x = 0")
      case True
      note act = act_check [OF v D(1,2) this]
      have "at_slot own v i k Checked p sl s r (g\<lparr>hold := (hold g)(k := Some (i, Checked, p))\<rparr>, q)"
        using thread_acquire [OF D(4) act] D(3) by (simp add: at_slot_def holding_def)
      with act second show ?thesis by blast
    next
      case False
      with act_refl [OF D(1)] second [OF P, of ?x] show ?thesis by blast
    qed
    then show "\<exists>g'. act own v i (g, q) (g', fst (q, load (field_state (recv_field (v\<lparr>owner := o'\<rparr>))) (\<lambda>r. c (field_state (send_field (v\<lparr>owner := o'\<rparr>)) q OR r)))) \<and>
        rg own v i Q (snd (q, load (field_state (recv_field (v\<lparr>owner := o'\<rparr>))) (\<lambda>r. c (field_state (send_field (v\<lparr>owner := o'\<rparr>)) q OR r))))
          (g', fst (q, load (field_state (recv_field (v\<lparr>owner := o'\<rparr>))) (\<lambda>r. c (field_state (send_field (v\<lparr>owner := o'\<rparr>)) q OR r))))"
      by simp
  qed
qed

lemma queue_state_idle:
  assumes w: "thread own v i {} s r w" and k: "\<And>x w. thread own v i {} s r w \<Longrightarrow> rg own v i Q (c x) w"
  shows "rg own v i Q (queue_state v' c) w"
  unfolding queue_state_def
  by (rule rg_load [OF thread_stable w thread_inv], assumption,
      rule rg_load [OF thread_stable _ thread_inv], assumption, assumption, rule k)

lemma load_idle:
  assumes w: "thread own v i {} s r w" and k: "\<And>g q. thread own v i {} s r (g, q) \<Longrightarrow> rg own v i Q (c (get q)) (g, q)"
  shows "rg own v i Q (load get c) w"
  by (rule rg_load [OF thread_stable w thread_inv], assumption, rule k)

lemma load_at_slot:
  assumes w: "at_slot own v i k st p sl s r w"
    and k: "\<And>g q. at_slot own v i k st p sl s r (g, q) \<Longrightarrow> rg own v i Q (c (get q)) (g, q)"
  shows "rg own v i Q (load get c) w"
  by (rule rg_load [OF at_slot_stable w at_slotD(1)], assumption, rule k)

definition reserve_post ::
    "(nat \<Rightarrow> u8) \<Rightarrow> view \<Rightarrow> nat \<Rightarrow> 'a list \<Rightarrow> 'a list \<Rightarrow> (nat, reserve_error) result \<Rightarrow>
     'a ghost \<times> 'a queue \<Rightarrow> bool" where
  "reserve_post own v i s r res w = (case res of
     Err _ \<Rightarrow> thread own v i {} s r w
   | Ok k \<Rightarrow> \<exists>p sl. reserved own v i k p sl s r w)"

lemma reserve_post_stable: "stable_under (others own v i) (reserve_post own v i s r res)"
  unfolding reserve_post_def by (cases res) (auto intro!: stable_ex)

lemma ret_err:
  "thread own v i {} s r w \<Longrightarrow> rg own v i (reserve_post own v i s r) (Ret (Err e)) w"
  by (rule rg_ret [OF reserve_post_stable]) (simp add: reserve_post_def)

lemma give_back_err:
  assumes "view_ok v" "st = Reserving \<or> st = Checked" "at_slot own v i k st p sl s r w"
  shows "rg own v i (reserve_post own v i s r) (store (set_control k EMPTY) (Ret (Err e))) w"
  by (rule give_back [OF assms]) (rule ret_err)

lemma cursor_bound:
  assumes "view_ok v" "queue_inv own v g q"
  shows "cursor_index v (tail q) < capacity v" "cursor_index v (head q) < capacity v"
  using assms by (auto simp: queue_inv_def view_ok_def)

lemma ret_reserved:
  "reserved own v i k p sl s r w \<Longrightarrow> rg own v i (reserve_post own v i s r) (Ret (Ok k)) w"
  by (rule rg_ret [OF reserve_post_stable]) (auto simp: reserve_post_def)

lemma reserve_validate:
  assumes v: "view_ok v" and at: "at_slot own v i k Reserving p sl s r w"
  shows "rg own v i (reserve_post own v i s r)
    (load (slot_turn k) (\<lambda>tn.
     if tn \<noteq> t then store (set_control k EMPTY) (Ret (Err Reserve_Busy)) else
     load tail (\<lambda>t'.
     if t' \<noteq> t then store (set_control k EMPTY) (Ret (Err Reserve_Busy)) else
     queue_state (v\<lparr>owner := own i\<rparr>) (\<lambda>state'.
     if state' \<noteq> 0 then store (set_control k EMPTY) (Ret (Err Reserve_Closed)) else
     compare_exchange tail set_tail t (cursor_next v t) (\<lambda>committed.
     case committed of
       Ok _ \<Rightarrow> Ret (Ok k) | Err _ \<Rightarrow> store (set_control k EMPTY) (Ret (Err Reserve_Busy))))))) w"
proof (rule load_at_slot [OF at], split if_split, intro conjI impI, goal_cases)
  case (1 g q)
  then show ?case by (intro give_back_err [OF v]) auto
next
  case (2 g q)
  then have sl: "turn sl = t"
    using at_slotD(3) [OF 2(1)] by simp
  show ?case
  proof (rule load_at_slot [OF 2(1)], split if_split, intro conjI impI, goal_cases)
    case (1 g q)
    then show ?case by (intro give_back_err [OF v]) auto
  next
    case (2 g q)
    show ?case
    proof (rule queue_state_check [OF v 2(1)], goal_cases)
      case (1 st x w)
      then show ?case by (simp add: give_back_err [OF v])
    next
      case (2 w)
      then show ?case
        by simp (rule reserve_commit [OF v _ sl refl], auto intro: ret_reserved ret_err)
    qed
  qed
qed

lemma reserve_sat:
  assumes v: "view_ok v" and own: "owners_ok own" and w: "thread own v i {} s r w"
  shows "rg own v i (reserve_post own v i s r) (reserve (v\<lparr>owner := own i\<rparr>)) w"
  unfolding reserve_def Let_def
proof (rule queue_state_idle [OF w], split if_split, intro conjI impI ret_err, assumption,
    rule load_idle, assumption, goal_cases)
  case (1 state w g q)
  define t k where "t = tail q" and "k = cursor_index v t"
  have k: "k < capacity v"
    using cursor_bound [OF v thread_inv [OF 1(3)]] by (simp add: k_def t_def)
  show ?case
    unfolding cursor_owner unfolding t_def [symmetric] unfolding k_def [symmetric]
  proof (subst if_not_P, use k in simp,
      rule rg_compare_exchange [OF thread_stable 1(3) thread_inv], assumption, goal_cases)
    case (1 g q)
    obtain p where act: "act own v i (g, q) (g\<lparr>hold := (hold g)(k := Some (i, Reserving, p))\<rparr>,
        set_control k (owned PRODUCER False (own i)) q)"
      using act_reserve_slot [OF v own thread_inv [OF 1(1)] k 1(2)] by metis
    have "at_slot own v i k Reserving p (buf (set_control k (owned PRODUCER False (own i)) q) ! k) s r
        (g\<lparr>hold := (hold g)(k := Some (i, Reserving, p))\<rparr>, set_control k (owned PRODUCER False (own i)) q)"
      using thread_acquire [OF 1(1) act] by (simp add: at_slot_def holding_def)
    with act show ?case
      using reserve_validate [OF v, where k = k and t = t] by fastforce
  next
    case (2 g q x)
    then show ?case
      by simp (rule load_idle, assumption, rule ret_err)
  qed
qed

section \<open>Staging, publishing and skipping\<close>

lemma owner_of_word:
  "held_word b o' c \<Longrightarrow> (ucast (source c - 1) :: u8) = o'"
  by (simp add: held_word_def)

lemma reserved_write:
  assumes v: "view_ok v" and P: "reserved own v i k p sl s r (g, q)"
    and sl': "turn sl' = turn sl" "held_word PRODUCER (own i) (control sl')"
      "complete (control sl') \<longrightarrow> val sl' \<noteq> None"
  shows "act own v i (g, q) (g, q\<lparr>buf := (buf q)[k := sl']\<rparr>)"
    and "reserved own v i k p sl' s r (g, q\<lparr>buf := (buf q)[k := sl']\<rparr>)"
proof -
  have at: "at_slot own v i k Writing p sl s r (g, q)"
    using P by (simp add: reserved_def)
  note D = at_slotD [OF at]
  show act: "act own v i (g, q) (g, q\<lparr>buf := (buf q)[k := sl']\<rparr>)"
    using sl' D(3) by (intro act_write [OF v D(1,2)]) auto
  show "reserved own v i k p sl' s r (g, q\<lparr>buf := (buf q)[k := sl']\<rparr>)"
    using thread_keep [OF D(4) act] P D(2,5,6)
    by (simp add: reserved_def at_slot_def holding_def newest_def)
qed

lemma reserved_word:
  assumes "view_ok v" "reserved own v i k p sl s r (g, q)"
  shows "held_word PRODUCER (own i) (control sl)"
proof -
  have at: "at_slot own v i k Writing p sl s r (g, q)"
    using assms(2) by (simp add: reserved_def)
  show ?thesis
    using hold_slot [OF assms(1) at_slotD(1,2) [OF at]] at_slotD(3) [OF at] by simp
qed

lemma reserved_inv: "reserved own v i k p sl s r (g, q) \<Longrightarrow> queue_inv own v g q"
  by (simp add: reserved_def at_slot_def thread_def)

lemma stage_sat:
  assumes v: "view_ok v" and own: "owners_ok own" and w: "reserved own v i k p sl s r w"
  shows "rg own v i (\<lambda>_ w. \<exists>sl. reserved own v i k p sl s r w \<and> val sl = Some x) (stage k x) w"
  unfolding stage_def
proof (rule rg_store [OF reserved_stable w], goal_cases)
  case (1 g q)
  let ?sl = "sl\<lparr>val := Some x\<rparr>"
  have eq: "set_val k (Some x) q = q\<lparr>buf := (buf q)[k := ?sl]\<rparr>"
    using 1 by (auto simp: set_val_def reserved_def at_slot_def holding_def)
  note step = reserved_write [OF v 1, of ?sl]
  have "act own v i (g, q) (g, set_val k (Some x) q)"
    and staged: "reserved own v i k p ?sl s r (g, set_val k (Some x) q)"
    using step reserved_word [OF v 1] by (simp_all add: eq)
  moreover have "rg own v i (\<lambda>_ w. \<exists>sl. reserved own v i k p sl s r w \<and> val sl = Some x)
      (load (slot_control k) (\<lambda>c. store (set_control k (owned PRODUCER True (ucast (source c - 1)))) (Ret ())))
      (g, set_val k (Some x) q)"
  proof (rule rg_load [OF reserved_stable staged reserved_inv], assumption,
      rule rg_store [OF reserved_stable], assumption, goal_cases)
    case (1 g0 q0 g q)
    have c: "(ucast (source (slot_control k q0) - 1) :: u8) = own i"
      using owner_of_word [OF reserved_word [OF v 1(1)]] 1(1)
      by (simp add: reserved_def at_slot_def holding_def)
    let ?sl' = "?sl\<lparr>control := owned PRODUCER True (own i)\<rparr>"
    have eq: "set_control k (owned PRODUCER True (own i)) q = q\<lparr>buf := (buf q)[k := ?sl']\<rparr>"
      using 1(2) by (auto simp: set_control_def reserved_def at_slot_def holding_def)
    have "act own v i (g, q) (g, set_control k (owned PRODUCER True (own i)) q)"
      and "reserved own v i k p ?sl' s r (g, set_control k (owned PRODUCER True (own i)) q)"
      using reserved_write [OF v 1(2), of ?sl'] own by (simp_all add: eq)
    then show ?case
      unfolding c by (intro exI [of _ g] conjI rg_ret stable_ex stable_conj) auto
  qed
  ultimately show ?case
    by blast
qed

lemma publish_sat:
  assumes v: "view_ok v" and w: "reserved own v i k p sl s r w" and x: "val sl = Some x"
  shows "rg own v i (\<lambda>_. thread own v i {} (s @ [x]) r) (publish k) w"
  unfolding publish_def
proof (rule rg_store [OF reserved_stable w], goal_cases)
  case (1 g q)
  have at: "at_slot own v i k Writing p sl s r (g, q)"
    using 1 by (simp add: reserved_def)
  note D = at_slotD [OF at]
  let ?g = "g\<lparr>hold := (hold g)(k := None), entries := (entries g)[p := (i, Some x)]\<rparr>"
  let ?q = "set_control k (AVAILABLE OR COMPLETE) q"
  have act: "act own v i (g, q) (?g, ?q)"
    using D(3) x by (intro act_publish [OF v D(1,2)]) simp
  have p: "length (takers g) \<le> p" "p < length (entries g)" "entries g ! p = (i, None)"
    using hold_slot [OF v D(1,2)] by (auto simp: in_window_def)
  have "sent i (entries ?g) = s @ [x]"
    using sent_publish [OF p(2,3)] 1 D(4) by (simp add: reserved_def newest_def thread_def)
  moreover have "received i (takers ?g) (entries ?g) = r"
    using D(4) p(1) queue_inv_le [OF D(1)]
    by (simp add: thread_def received_def zip_prefix_cong [of _ "(entries g)[p := (i, Some x)]" "entries g"])
  ultimately have "thread own v i {} (s @ [x]) r (?g, ?q)"
    using act_inv [OF act] D(4) by (auto simp: thread_def)
  with act show ?case
    by (intro exI [of _ ?g] conjI rg_ret) auto
qed

lemma skip_sat:
  assumes v: "view_ok v" and w: "reserved own v i k p sl s r w"
  shows "rg own v i (\<lambda>_. thread own v i {} s r) (skip k) w"
  unfolding skip_def
proof (rule rg_store [OF reserved_stable w], goal_cases)
  case (1 g q)
  have at: "at_slot own v i k Writing p sl s r (g, q)"
    using 1 by (simp add: reserved_def)
  note D = at_slotD [OF at]
  note act = act_skip [OF v D(1,2)]
  show ?case
    using act thread_release [OF D(4) act] by (intro exI conjI rg_ret) auto
qed

lemma cancel_sat:
  assumes v: "view_ok v" and w: "reserved own v i k p sl s r w" and x: "val sl = Some x"
  shows "rg own v i (\<lambda>y w. y = Some x \<and> thread own v i {} s r w) (cancel k) w"
  unfolding cancel_def
proof (rule rg_load [OF reserved_stable w reserved_inv], assumption, goal_cases)
  case (1 g q)
  then have "slot_val k q = Some x"
    using x by (auto simp: reserved_def at_slot_def holding_def)
  with skip_sat [OF v 1] show ?case
    by (auto intro!: sat_bind [OF skip_sat [OF v 1]] rg_ret)
qed

section \<open>Claiming\<close>

definition claim_post ::
    "(nat \<Rightarrow> u8) \<Rightarrow> view \<Rightarrow> nat \<Rightarrow> 'a list \<Rightarrow> 'a list \<Rightarrow> (claimed, claim_error) result \<Rightarrow>
     'a ghost \<times> 'a queue \<Rightarrow> bool" where
  "claim_post own v i s r res w = (case res of
     Err _ \<Rightarrow> thread own v i {} s r w
   | Ok c \<Rightarrow> \<exists>p sl x. at_slot own v i (claim_slot c) Reading p sl s (r @ [x]) w \<and>
       next_turn c = cursor v p \<and> val sl = Some x)"

lemma claim_post_stable: "stable_under (others own v i) (claim_post own v i s r res)"
  unfolding claim_post_def by (cases res) (auto intro!: stable_ex stable_conj)

lemma ret_claim_err:
  "thread own v i {} s r w \<Longrightarrow> rg own v i (claim_post own v i s r) (Ret (Err e)) w"
  by (rule rg_ret [OF claim_post_stable]) (simp add: claim_post_def)

lemma recycle_sat:
  assumes v: "view_ok v" and w: "at_slot own v i (claim_slot c) Reading p sl s r w"
    and c: "next_turn c = cursor v p"
  shows "rg own v i (\<lambda>_. thread own v i {} s r) (recycle c) w"
  unfolding recycle_def
proof (rule rg_store [OF at_slot_stable w], goal_cases)
  case (1 g q)
  let ?k = "claim_slot c"
  note D = at_slotD [OF 1]
  note act = act_recycle_turn [OF v D(1,2), folded c]
  let ?g = "g\<lparr>hold := (hold g)(?k := Some (i, Recycled, p))\<rparr>" and ?q = "set_turn ?k (next_turn c) q"
  have at: "at_slot own v i ?k Recycled p (buf ?q ! ?k) s r (?g, ?q)"
    using thread_acquire [OF D(4) act] by (simp add: at_slot_def holding_def)
  have "rg own v i (\<lambda>_. thread own v i {} s r) (store (set_control ?k EMPTY) (Ret ())) (?g, ?q)"
  proof (rule rg_store [OF at_slot_stable at], goal_cases)
    case (1 g q)
    note D = at_slotD [OF 1]
    note act = act_recycle [OF v D(1,2)]
    show ?case
      using act thread_release [OF D(4) act] by (intro exI conjI rg_ret) auto
  qed
  with act show ?case
    by blast
qed

lemma unclaim:
  assumes v: "view_ok v" and w: "at_slot own v i k Claiming p sl s r w"
    and a: "a = AVAILABLE OR (if complete (control sl) then COMPLETE else 0)"
  shows "rg own v i (claim_post own v i s r) (store (set_control k a) (Ret (Err e))) w"
proof (rule rg_store [OF at_slot_stable w], goal_cases)
  case (1 g q)
  note D = at_slotD [OF 1]
  have act: "act own v i (g, q) (g\<lparr>hold := (hold g)(k := None)\<rparr>, set_control k a q)"
    using a D(3) by (intro act_unclaim [OF v D(1,2)]) simp
  show ?case
    using act ret_claim_err [OF thread_release [OF D(4) act]] by blast
qed

lemma claim_commit:
  assumes v: "view_ok v" and at: "at_slot own v i k Claiming p sl s r (g, q)"
    and t: "turn sl = head q"
  obtains g' where
    "act own v i (g, q) (g', set_head (cursor_next v (head q)) q)"
    "at_slot own v i k Reading (p + capacity v) sl s
       (r @ (if complete (control sl) then [the (val sl)] else [])) (g', set_head (cursor_next v (head q)) q)"
    "head q + one_lap v = cursor v (p + capacity v)" "complete (control sl) \<longrightarrow> val sl \<noteq> None"
proof -
  note D = at_slotD [OF at]
  let ?g = "g\<lparr>takers := takers g @ [i], hold := (hold g)(k := Some (i, Reading, p + capacity v))\<rparr>"
  let ?q = "set_head (cursor_next v (head q)) q"
  have h: "head q = cursor v (length (takers g))"
    using D(1) by (simp add: queue_inv_def)
  have "slot_turn k q = head q"
    using D(3) t by simp
  note commit = act_commit_head [OF v D(1,2) this]
  have p: "p = length (takers g)" by (rule commit(1))
  have act: "act own v i (g, q) (?g, ?q)"
    using commit(2) v by (simp add: h)
  have slot: "p < length (entries g)" "complete (control sl) \<longleftrightarrow> snd (entries g ! p) \<noteq> None"
      "complete (control sl) \<longrightarrow> val sl = snd (entries g ! p)"
    using hold_slot [OF v D(1,2)] D(3) by auto
  then have "received i (takers g @ [i]) (entries g) =
      received i (takers g) (entries g) @ (if complete (control sl) then [the (val sl)] else [])"
    using zip_snoc [of "takers g" "entries g" i] p
    by (auto simp: received_def List.map_filter_simps split: prod.splits option.splits)
  then have "thread own v i {k} s (r @ (if complete (control sl) then [the (val sl)] else [])) (?g, ?q)"
    using act_inv [OF act] D(4) by (auto simp: thread_def)
  then show thesis
    using that act D(3) slot h p cursor_add_lap [of v p] v
    by (auto simp: at_slot_def holding_def view_ok_def)
qed

lemma claim_finish:
  assumes v: "view_ok v" and h: "h + one_lap v = cursor v p" and x: "init \<longrightarrow> val sl \<noteq> None"
    and at: "at_slot own v i k Reading p sl s (r @ (if init then [the (val sl)] else [])) w"
  shows "rg own v i (claim_post own v i s r)
    (if \<not> init then bind (recycle \<lparr>claim_slot = k, next_turn = h + one_lap v\<rparr>) (\<lambda>_. Ret (Err Claim_Busy))
     else Ret (Ok \<lparr>claim_slot = k, next_turn = h + one_lap v\<rparr>)) w"
proof (cases init)
  case True
  with x obtain y where "val sl = Some y" by blast
  with True at h have "claim_post own v i s r (Ok \<lparr>claim_slot = k, next_turn = h + one_lap v\<rparr>) w"
    unfolding claim_post_def by auto
  with True show ?thesis
    by (auto intro: rg_ret claim_post_stable)
next
  case False
  with at h v show ?thesis
    by (auto intro!: sat_bind [OF recycle_sat] ret_claim_err)
qed

lemma claim_validate:
  assumes v: "view_ok v" and at: "at_slot own v i k Claiming p sl s r w"
    and a: "a = AVAILABLE OR (if init then COMPLETE else 0)" and init: "init = complete (control sl)"
  shows "rg own v i (claim_post own v i s r)
    (load (slot_turn k) (\<lambda>tn.
     if tn \<noteq> h then store (set_control k a) (Ret (Err Claim_Busy)) else
     load head (\<lambda>h'.
     if h' \<noteq> h then store (set_control k a) (Ret (Err Claim_Busy)) else
     compare_exchange head set_head h (cursor_next v h) (\<lambda>committed.
     case committed of
       Ok _ \<Rightarrow>
         if \<not> init then bind (recycle \<lparr>claim_slot = k, next_turn = h + one_lap v\<rparr>) (\<lambda>_. Ret (Err Claim_Busy))
         else Ret (Ok \<lparr>claim_slot = k, next_turn = h + one_lap v\<rparr>)
     | Err _ \<Rightarrow> store (set_control k a) (Ret (Err Claim_Busy)))))) w"
proof (rule load_at_slot [OF at], split if_split, intro conjI impI, goal_cases)
  case (1 g q)
  then show ?case using unclaim [OF v 1(1)] a init by simp
next
  case (2 g q)
  then have sl: "turn sl = h"
    using at_slotD(3) [OF 2(1)] by simp
  show ?case
  proof (rule load_at_slot [OF 2(1)], split if_split, intro conjI impI, goal_cases)
    case (1 g q)
    then show ?case using unclaim [OF v 1(1)] a init by simp
  next
    case (2 g q)
    show ?case
    proof (rule rg_compare_exchange [OF at_slot_stable 2(1) at_slotD(1)], assumption, goal_cases)
      case (1 g q)
      then have "turn sl = head q" using sl by simp
      note claim_commit [OF v 1(1) this, unfolded 1(2), folded init]
      then obtain g' where
        commit: "act own v i (g, q) (g', set_head (cursor_next v h) q)"
        "at_slot own v i k Reading (p + capacity v) sl s
           (r @ (if init then [the (val sl)] else [])) (g', set_head (cursor_next v h) q)"
        "h + one_lap v = cursor v (p + capacity v)" "init \<longrightarrow> val sl \<noteq> None"
        by blast
      from claim_finish [OF v commit(3,4,2)] commit(1) show ?case
        by (intro exI [of _ g']) simp
    next
      case (2 g q x)
      then show ?case using unclaim [OF v 2(1)] a init by simp
    qed
  qed
qed

lemma claim_sat:
  assumes v: "view_ok v" and own: "owners_ok own" and w: "thread own v i {} s r w"
  shows "rg own v i (claim_post own v i s r) (claim (v\<lparr>owner := own i\<rparr>)) w"
  unfolding claim_def Let_def
proof (rule load_idle [OF w], split if_split, intro conjI impI ret_claim_err, assumption,
    rule load_idle, assumption, goal_cases)
  case (1 g0 q0 g q)
  define h k where "h = head q" and "k = cursor_index v h"
  have k: "k < capacity v"
    using cursor_bound [OF v thread_inv [OF 1(3)]] by (simp add: k_def h_def)
  show ?case
    unfolding cursor_owner unfolding h_def [symmetric] unfolding k_def [symmetric]
  proof (subst if_not_P, use k in simp, rule load_idle [OF 1(3)], split if_split, intro conjI impI,
      rule load_idle, assumption, rule ret_claim_err, assumption, goal_cases)
    case (1 g q)
    define a where "a = slot_control k q"
    have a: "a = AVAILABLE \<or> a = AVAILABLE OR COMPLETE"
      using 1(2) by (auto simp: a_def)
    show ?case
      unfolding a_def [symmetric]
    proof (rule rg_compare_exchange [OF thread_stable 1(1) thread_inv], assumption, goal_cases)
      case (1 g q)
      let ?c = "owned CONSUMER (a AND COMPLETE \<noteq> 0) (own i)"
      obtain p where act: "act own v i (g, q) (g\<lparr>hold := (hold g)(k := Some (i, Claiming, p))\<rparr>, set_control k ?c q)"
        using act_claim_slot [OF v own thread_inv [OF 1(1)] k 1(2) a] by metis
      have at: "at_slot own v i k Claiming p (buf (set_control k ?c q) ! k) s r
          (g\<lparr>hold := (hold g)(k := Some (i, Claiming, p))\<rparr>, set_control k ?c q)"
        using thread_acquire [OF 1(1) act] by (simp add: at_slot_def holding_def)
      have init: "(a AND COMPLETE \<noteq> 0) = complete (control (buf (set_control k ?c q) ! k))"
        using k queue_inv_length [OF thread_inv [OF 1(1)]] own by simp
      have "a = AVAILABLE OR (if a AND COMPLETE \<noteq> 0 then COMPLETE else 0)"
        using a by auto
      from claim_validate [OF v at this init, of h] act show ?case
        by (intro exI [of _ "g\<lparr>hold := (hold g)(k := Some (i, Claiming, p))\<rparr>"] conjI)
          (simp_all only: result.case view.simps)
    next
      case (2 g q x)
      then show ?case by (simp add: ret_claim_err)
    qed
  qed
qed

lemma take_sat:
  assumes v: "view_ok v" and w: "at_slot own v i (claim_slot c) Reading p sl s r w"
    and c: "next_turn c = cursor v p"
  shows "rg own v i (\<lambda>y w. y = val sl \<and> thread own v i {} s r w) (take_claim c) w"
  unfolding take_claim_def
proof (rule load_at_slot [OF w], goal_cases)
  case (1 g q)
  then have "slot_val (claim_slot c) q = val sl"
    using at_slotD(3) by fastforce
  then show ?case
    by (auto intro!: sat_bind [OF recycle_sat [OF v 1 c]] rg_ret)
qed

lemma item_sat:
  assumes w: "at_slot own v i (claim_slot c) st p sl s r w"
  shows "rg own v i (\<lambda>y w. y = val sl \<and> at_slot own v i (claim_slot c) st p sl s r w) (item c) w"
  unfolding item_def
proof (rule load_at_slot [OF w], goal_cases)
  case (1 g q)
  then show ?case
    using at_slotD(3) [OF 1] by (auto intro!: rg_ret stable_conj)
qed

section \<open>Closing\<close>

lemma rg_fetch_update:
  assumes "stable_under (others own v i) P" "P w"
    and "\<And>g q. P (g, q) \<Longrightarrow> \<exists>g'. act own v i (g, q) (g', upd (f (get q)) q) \<and>
      rg own v i Q (k (get q)) (g', upd (f (get q)) q)"
  shows "rg own v i Q (fetch_update get upd f k) w"
  unfolding fetch_update_def by (rule sat_StepI [OF assms(1,2)]) (use assms(3) in simp)

lemma field_mono:
  assumes "\<forall>n. bit (lifecycle q) n \<longrightarrow> bit (lifecycle q') n"
  shows "field_state f q AND field_state f q' = field_state f q"
  unfolding field_state_def by (rule bit_word_eqI) (use assms in \<open>auto simp: bit_simps\<close>)

lemma field_and_values:
  assumes "field_state f q AND field_state f q' = field_state f q"
  shows "field_state f q = 3 \<Longrightarrow> field_state f q' = 3" "field_state f q \<noteq> 0 \<Longrightarrow> field_state f q' \<noteq> 0"
  using assms field_state_values [of f q] field_state_values [of f q'] by auto

lemma act_field:
  assumes "act own v i (g, q) (g', q')"
  shows "field_state f q = 3 \<Longrightarrow> field_state f q' = 3" "field_state f q \<noteq> 0 \<Longrightarrow> field_state f q' \<noteq> 0"
proof -
  have "field_state f q AND field_state f q' = field_state f q"
    using assms by (intro field_mono) (simp add: act_def)
  from field_and_values [OF this]
  show "field_state f q = 3 \<Longrightarrow> field_state f q' = 3" "field_state f q \<noteq> 0 \<Longrightarrow> field_state f q' \<noteq> 0"
    by blast+
qed

text \<open>While the sending side closes, a slot seen without a producer stays without a committed one.\<close>

definition scanned :: "view \<Rightarrow> nat set \<Rightarrow> 'a ghost \<times> 'a queue \<Rightarrow> bool" where
  "scanned v ks = (\<lambda>(g, q). field_state (send_field v) q \<noteq> 0 \<and> (\<forall>k\<in>ks. \<not> active (hold g k)))"

lemma scanned_stable [intro]: "stable_under (others own v i) (scanned v ks)"
proof -
  have "scanned v ks (g', q')" if "scanned v ks (g, q)" "act own v j (g, q) (g', q')" for g q g' q' j
    using that act_field(2) [OF that(2)] by (auto simp: scanned_def act_def)
  then show ?thesis
    unfolding stable_under_def others_def by fastforce
qed

lemma not_active:
  assumes "view_ok v" "queue_inv own v g q" "base (slot_control k q) \<noteq> PRODUCER"
  shows "\<not> active (hold g k)"
proof
  assume "active (hold g k)"
  then obtain i st p where h: "hold g k = Some (i, st, p)" "st = Checked \<or> st = Writing"
    by (auto simp: active_def split: option.splits)
  with hold_slot [OF assms(1,2) h(1)] assms(3) show False
    by (auto simp: held_word_def)
qed

lemma scan_stable:
  "stable_under (others own v i) (\<lambda>w. thread own v i {} s r w \<and> scanned v ks w)"
  by (intro stable_conj thread_stable scanned_stable)

lemma scan_sat:
  assumes v: "view_ok v" and w: "thread own v i {} s r w \<and> scanned v ks w"
    and yes: "\<And>w. thread own v i {} s r w \<and> scanned v (ks \<union> set is) w \<Longrightarrow> rg own v i Q (c True) w"
    and no: "\<And>w. thread own v i {} s r w \<Longrightarrow> rg own v i Q (c False) w"
  shows "rg own v i Q (none_owned PRODUCER is c) w"
  using w yes
proof (induction "is" arbitrary: w ks)
  case (Cons j js)
  show ?case
    unfolding none_owned.simps
  proof (rule rg_load [where P = "\<lambda>w. thread own v i {} s r w \<and> scanned v ks w", OF scan_stable Cons.prems(1)],
      goal_cases)
    case (1 g q)
    then show ?case using thread_inv by blast
  next
    case (2 g q)
    show ?case
    proof (cases "base (slot_control j q) = PRODUCER")
      case True
      with 2 no show ?thesis by simp
    next
      case False
      then have "\<not> active (hold g j)"
        using not_active [OF v thread_inv] 2 by blast
      with 2 have "scanned v (insert j ks) (g, q)"
        by (auto simp: scanned_def)
      with 2 False Cons.prems(2) show ?thesis
        by (auto intro!: Cons.IH [of _ "insert j ks"])
    qed
  qed
qed simp

lemma scan_any_sat:
  assumes w: "thread own v i {} s r w" and c: "\<And>b w. thread own v i {} s r w \<Longrightarrow> rg own v i Q (c b) w"
  shows "rg own v i Q (none_owned b is c) w"
  using w by (induction "is" arbitrary: w) (auto intro!: c load_idle)

lemma lifecycle_sat:
  assumes v: "view_ok v" and P: "stable_under (others own v i) P" "P w" "\<And>w. P w \<Longrightarrow> thread own v i {} s r w"
    and f: "f \<in> {0, 2, 4, 6}" and b: "b \<in> {1, 2}"
    and fin: "\<And>g q. P (g, q) \<Longrightarrow> f = send_field v \<and> b = 2 \<Longrightarrow>
      field_state (send_field v) q \<noteq> 0 \<and> (\<forall>k. \<not> active (hold g k))"
    and k: "\<And>x w. thread own v i {} s r w \<Longrightarrow> rg own v i Q (k x) w"
  shows "rg own v i Q (fetch_update lifecycle set_lifecycle (\<lambda>l. l OR push_bit f b) k) w"
proof (rule rg_fetch_update [OF P(1,2)])
  fix g q
  assume "P (g, q)"
  then have th: "thread own v i {} s r (g, q)" and
    act: "act own v i (g, q) (g, set_lifecycle (lifecycle q OR push_bit f b) q)"
    using P(3) fin thread_inv [OF P(3)] by (auto intro!: act_lifecycle [OF v _ f b])
  then show "\<exists>g'. act own v i (g, q) (g', set_lifecycle (lifecycle q OR push_bit f b) q) \<and>
      rg own v i Q (k (lifecycle q)) (g', set_lifecycle (lifecycle q OR push_bit f b) q)"
    using k [OF thread_keep [OF th act]] by blast
qed

lemma fields_ok: "view_ok v \<Longrightarrow> send_field v \<in> {0, 2, 4, 6}" "view_ok v \<Longrightarrow> recv_field v \<in> {0, 2, 4, 6}"
  "view_ok v \<Longrightarrow> recv_field v \<noteq> send_field v"
  by (simp_all add: view_ok_def)

lemma close_sat:
  assumes v: "view_ok v" and w: "thread own v i {} s r w" and f: "f = send_field v \<or> f = recv_field v"
  shows "rg own v i (\<lambda>_. thread own v i {} s r) (close_field f) w"
  unfolding close_field_def
  by (rule lifecycle_sat [OF v thread_stable w])
    (use f fields_ok [OF v] in \<open>auto intro!: rg_ret\<close>)

lemma finish_send_sat:
  assumes v: "view_ok v" and w: "thread own v i {} s r w"
  shows "rg own v i (\<lambda>_. thread own v i {} s r) (finish_field (v\<lparr>owner := o'\<rparr>) (send_field v) PRODUCER) w"
  unfolding finish_field_def
proof (rule load_idle [OF w], split if_split, intro conjI impI, goal_cases)
  case (1 g q)
  then have start: "thread own v i {} s r (g, q) \<and> scanned v {} (g, q)"
    by (simp add: scanned_def)
  show ?case
  proof (rule scan_sat [OF v start], goal_cases)
    case (1 w)
    let ?P = "\<lambda>w. thread own v i {} s r w \<and> scanned v ({} \<union> set [0..<capacity (v\<lparr>owner := o'\<rparr>)]) w"
    have "rg own v i (\<lambda>_. thread own v i {} s r)
        (fetch_update lifecycle set_lifecycle (\<lambda>l. l OR push_bit (send_field v) 2) (\<lambda>_. Ret 3)) w"
    proof (rule lifecycle_sat [OF v scan_stable 1], goal_cases)
      case (4 g q)
      then have "queue_inv own v g q"
        using thread_inv by blast
      then have "hold g k = None" if "capacity v \<le> k" for k
        using that by (simp add: queue_inv_def)
      with 4 have "\<not> active (hold g k)" for k
        by (cases "k < capacity v") (auto simp: scanned_def)
      with 4 show ?case by (simp add: scanned_def)
    qed (use fields_ok [OF v] in \<open>auto intro!: rg_ret\<close>)
    then show ?case by simp
  next
    case (2 w)
    then show ?case by (auto intro: rg_ret)
  qed
next
  case (2 g q)
  then show ?case by (auto intro: rg_ret)
qed

lemma finish_recv_sat:
  assumes v: "view_ok v" and w: "thread own v i {} s r w"
  shows "rg own v i (\<lambda>_. thread own v i {} s r) (finish_field v' (recv_field v) CONSUMER) w"
  unfolding finish_field_def
proof (rule load_idle [OF w], split if_split, intro conjI impI, goal_cases)
  case (1 g q)
  show ?case
  proof (rule scan_any_sat [OF 1(1)], goal_cases)
    case (1 b w)
    have "rg own v i (\<lambda>_. thread own v i {} s r)
        (fetch_update lifecycle set_lifecycle (\<lambda>l. l OR push_bit (recv_field v) 2) (\<lambda>_. Ret 3)) w"
      by (rule lifecycle_sat [OF v thread_stable 1]) (use fields_ok [OF v] in \<open>auto intro!: rg_ret\<close>)
    with 1 show ?case by (auto intro: rg_ret)
  qed
next
  case (2 g q)
  then show ?case by (auto intro: rg_ret)
qed

lemma is_empty_sat:
  "thread own v i {} s r w \<Longrightarrow> rg own v i (\<lambda>_. thread own v i {} s r) is_empty w"
  unfolding is_empty_def by (auto intro!: load_idle rg_ret)

lemma terminal_sat:
  assumes v: "view_ok v" and w: "thread own v i {} s r w"
  shows "rg own v i (\<lambda>_. thread own v i {} s r) (terminal (v\<lparr>owner := o'\<rparr>)) w"
proof -
  have recv: "rg own v i (\<lambda>_. thread own v i {} s r) (recv_closed (v\<lparr>owner := o'\<rparr>)) w"
    if "thread own v i {} s r w" for w
    unfolding recv_closed_def using finish_recv_sat [OF v that, of "v\<lparr>owner := o'\<rparr>"]
    by (auto intro!: sat_bind rg_ret)
  have send: "rg own v i (\<lambda>_. thread own v i {} s r) (send_closed (v\<lparr>owner := o'\<rparr>)) w"
    if "thread own v i {} s r w" for w
    unfolding send_closed_def using finish_send_sat [OF v that, of o']
    by (auto intro!: sat_bind rg_ret)
  show ?thesis
    unfolding terminal_def
    by (rule sat_bind [OF recv [OF w]]) (auto intro!: rg_ret sat_bind [OF send] is_empty_sat)
qed

section \<open>Producers and consumers\<close>

text \<open>
  What a thread does with a queue: any sequence of sends, abandoned and cancelled reservations,
  receipts, dropped claims, closes and polls. It returns the values it committed and the values it
  was given, in its own order.
\<close>

datatype 'a op = Send 'a | Abandon | Cancel 'a | Receive | Discard | Close_Send | Close_Recv | Poll

primrec client :: "view \<Rightarrow> 'a op list \<Rightarrow> 'a list \<Rightarrow> 'a list \<Rightarrow> ('a queue, 'a list \<times> 'a list) prog" where
  "client v [] s r = Ret (s, r)"
| "client v (op # ops) s r = (case op of
     Send x \<Rightarrow> bind (reserve v) (\<lambda>res. case res of
       Ok k \<Rightarrow> bind (stage k x) (\<lambda>_. bind (publish k) (\<lambda>_. client v ops (s @ [x]) r))
     | Err _ \<Rightarrow> client v ops s r)
   | Abandon \<Rightarrow> bind (reserve v) (\<lambda>res. case res of
       Ok k \<Rightarrow> bind (drop_reserved False k) (\<lambda>_. client v ops s r)
     | Err _ \<Rightarrow> client v ops s r)
   | Cancel x \<Rightarrow> bind (reserve v) (\<lambda>res. case res of
       Ok k \<Rightarrow> bind (stage k x) (\<lambda>_. bind (cancel k) (\<lambda>_. client v ops s r))
     | Err _ \<Rightarrow> client v ops s r)
   | Receive \<Rightarrow> bind (claim v) (\<lambda>res. case res of
       Ok c \<Rightarrow> bind (take_claim c) (\<lambda>x. client v ops s (r @ [the x]))
     | Err _ \<Rightarrow> client v ops s r)
   | Discard \<Rightarrow> bind (claim v) (\<lambda>res. case res of
       Ok c \<Rightarrow> bind (item c) (\<lambda>x. bind (drop_claim False c) (\<lambda>_. client v ops s (r @ [the x])))
     | Err _ \<Rightarrow> client v ops s r)
   | Close_Send \<Rightarrow> bind (close_send v) (\<lambda>_. client v ops s r)
   | Close_Recv \<Rightarrow> bind (close_recv v) (\<lambda>_. client v ops s r)
   | Poll \<Rightarrow> bind (terminal v) (\<lambda>_. client v ops s r))"

definition client_post ::
    "(nat \<Rightarrow> u8) \<Rightarrow> view \<Rightarrow> nat \<Rightarrow> 'a list \<times> 'a list \<Rightarrow> 'a ghost \<times> 'a queue \<Rightarrow> bool" where
  "client_post own v i = (\<lambda>(s, r). thread own v i {} s r)"

lemma after_reserve:
  assumes v: "view_ok v" and own: "owners_ok own" and w: "thread own v i {} s r w"
    and yes: "\<And>k p sl w. reserved own v i k p sl s r w \<Longrightarrow> rg own v i Q (f k) w"
    and no: "\<And>w. thread own v i {} s r w \<Longrightarrow> rg own v i Q e w"
  shows "rg own v i Q (bind (reserve (v\<lparr>owner := own i\<rparr>)) (\<lambda>res. case res of Ok k \<Rightarrow> f k | Err _ \<Rightarrow> e)) w"
  by (rule sat_bind [OF reserve_sat [OF v own w]])
    (auto simp: reserve_post_def intro: yes no split: result.splits)

lemma after_claim:
  assumes v: "view_ok v" and own: "owners_ok own" and w: "thread own v i {} s r w"
    and yes: "\<And>c p sl x w. at_slot own v i (claim_slot c) Reading p sl s (r @ [x]) w \<Longrightarrow>
      next_turn c = cursor v p \<Longrightarrow> val sl = Some x \<Longrightarrow> rg own v i Q (f c) w"
    and no: "\<And>w. thread own v i {} s r w \<Longrightarrow> rg own v i Q e w"
  shows "rg own v i Q (bind (claim (v\<lparr>owner := own i\<rparr>)) (\<lambda>res. case res of Ok c \<Rightarrow> f c | Err _ \<Rightarrow> e)) w"
  by (rule sat_bind [OF claim_sat [OF v own w]])
    (auto simp: claim_post_def intro: yes no split: result.splits)

lemma client_sat:
  assumes v: "view_ok v" and own: "owners_ok own" and w: "thread own v i {} s r w"
  shows "rg own v i (client_post own v i) (client (v\<lparr>owner := own i\<rparr>) ops s r) w"
  using w
proof (induction ops arbitrary: s r w)
  case Nil
  then show ?case
    by (auto simp: client_post_def intro: rg_ret)
next
  case (Cons op ops)
  have staged: "rg own v i (client_post own v i) (bind (stage k x) (\<lambda>_. f)) w"
    if "reserved own v i k p sl s r w"
      and "\<And>sl w. reserved own v i k p sl s r w \<Longrightarrow> val sl = Some x \<Longrightarrow> rg own v i (client_post own v i) f w"
    for k p sl x f w
    by (rule sat_bind [OF stage_sat [OF v own that(1)]]) (use that(2) in blast)
  show ?case
  proof (cases op)
    case (Send x)
    then show ?thesis
      using Cons by (auto intro!: after_reserve [OF v own] staged sat_bind [OF publish_sat [OF v]])
  next
    case (Cancel x)
    then show ?thesis
      using Cons by (auto intro!: after_reserve [OF v own] staged sat_bind [OF cancel_sat [OF v]])
  next
    case Abandon
    then show ?thesis
      using Cons by (auto simp: drop_reserved_def intro!: after_reserve [OF v own] sat_bind [OF skip_sat [OF v]])
  next
    case Receive
    then show ?thesis
      using Cons by (auto intro!: after_claim [OF v own] sat_bind [OF take_sat [OF v]])
  next
    case Discard
    have "rg own v i (client_post own v i)
        (bind (item c) (\<lambda>x. bind (drop_claim False c) (\<lambda>_. client (v\<lparr>owner := own i\<rparr>) ops s (r @ [the x])))) w"
      if "at_slot own v i (claim_slot c) Reading p sl s (r @ [x]) w" "next_turn c = cursor v p" "val sl = Some x"
      for c p sl x w
      using that Cons.IH
      by (auto simp: drop_claim_def intro!: sat_bind [OF item_sat [OF that(1)]] sat_bind [OF recycle_sat [OF v]])
    with Discard Cons show ?thesis
      by (auto intro!: after_claim [OF v own])
  next
    case Close_Send
    then show ?thesis
      using Cons by (auto simp: close_send_def intro!: sat_bind [OF close_sat [OF v]])
  next
    case Close_Recv
    then show ?thesis
      using Cons by (auto simp: close_recv_def intro!: sat_bind [OF close_sat [OF v]])
  next
    case Poll
    then show ?thesis
      using Cons by (auto intro!: sat_bind [OF terminal_sat [OF v]])
  qed
qed

section \<open>All interleavings\<close>

definition ghost_new :: "'a ghost" where
  "ghost_new = \<lparr>entries = [], takers = [], hold = (\<lambda>_. None)\<rparr>"

lemma cursor_small: "view_ok v \<Longrightarrow> p < capacity v \<Longrightarrow> cursor v p = of_nat p"
  by (simp add: cursor_def)

lemma queue_inv_new: "view_ok v \<Longrightarrow> queue_inv own v ghost_new (queue_new v)"
  by (auto simp: queue_inv_def ghost_new_def queue_new_def in_window_def idle_ok_def slot_new_def
      cursor_small view_ok_def field_state_def cursor_def)

lemma thread_new: "view_ok v \<Longrightarrow> thread own v i {} [] [] (ghost_new, queue_new v)"
  by (simp add: thread_def queue_inv_new) (simp add: ghost_new_def received_def List.map_filter_simps)

abbreviation clients ::
    "(nat \<Rightarrow> u8) \<Rightarrow> view \<Rightarrow> (nat \<Rightarrow> 'a op list) \<Rightarrow> nat \<Rightarrow> ('a queue, 'a list \<times> 'a list) prog" where
  "clients own v ops \<equiv> \<lambda>i. client (v\<lparr>owner := own i\<rparr>) (ops i) [] []"

lemma clients_sound:
  assumes v: "view_ok v" and own: "owners_ok own"
    and reach: "pstep\<^sup>*\<^sup>* (queue_new v, clients own v ops) (q, T)"
  obtains g where "queue_inv own v g q" "\<And>i. rg own v i (client_post own v i) (T i) (g, q)"
proof -
  have "rg own v i (client_post own v i) (clients own v ops i) (ghost_new, queue_new v)" for i
    using client_sat [OF v own thread_new [OF v]] .
  from pool_sound [of "others own v" "act own v" "client_post own v", OF this _ reach]
  obtain g where path: "(\<lambda>w w'. \<exists>i. act own v i w w')\<^sup>*\<^sup>* (ghost_new, queue_new v) (g, q)"
    and sats: "\<forall>i. rg own v i (client_post own v i) (T i) (g, q)"
    by (auto simp: others_def)
  have "queue_inv own v g q"
    using path by (cases rule: rtranclp.cases) (use queue_inv_new [OF v] act_inv in \<open>auto\<close>)
  with sats that show thesis by blast
qed

text \<open>What a ring holds, read from its head to its tail; \<open>None\<close> is a skipped position.\<close>

fun contents_from :: "view \<Rightarrow> 'a queue \<Rightarrow> nat \<Rightarrow> usize \<Rightarrow> 'a option list" where
  "contents_from v q 0 h = []"
| "contents_from v q (Suc n) h =
     (if h = tail q then []
      else (if complete (slot_control (cursor_index v h) q) then slot_val (cursor_index v h) q else None)
        # contents_from v q n (cursor_next v h))"

definition contents :: "view \<Rightarrow> 'a queue \<Rightarrow> 'a option list" where
  "contents v q = contents_from v q (capacity v) (head q)"

definition quiet :: "'a ghost \<Rightarrow> bool" where
  "quiet g \<longleftrightarrow> (\<forall>k. hold g k = None)"

lemma contents_quiet:
  assumes v: "view_ok v" and inv: "queue_inv own v g q" and quiet: "quiet g"
  shows "contents v q = map snd (drop (length (takers g)) (entries g))"
proof -
  have "contents_from v q n (cursor v p) = map snd (drop p (entries g))"
    if "length (takers g) \<le> p" "p \<le> length (entries g)" "length (entries g) \<le> p + n" for n p
    using that
  proof (induction n arbitrary: p)
    case (Suc n)
    have tail: "tail q = cursor v (length (entries g))" and le: "length (entries g) \<le> length (takers g) + capacity v"
      using inv by (auto simp: queue_inv_def)
    show ?case
    proof (cases "p = length (entries g)")
      case False
      then have "cursor v p \<noteq> tail q"
        using cursor_eq_iff [OF v, of p "length (entries g)"] Suc.prems le v by (simp add: tail view_ok_def)
      moreover have "idle_ok v (entries g) p (buf q ! (p mod capacity v))"
        using inv quiet Suc.prems le False by (auto simp: queue_inv_def in_window_def quiet_def)
      ultimately show ?thesis
        using v Suc False by (auto simp: idle_ok_def complete_def Cons_nth_drop_Suc [symmetric] split: option.splits)
    qed (simp add: tail)
  qed simp
  from this [of "length (takers g)" "capacity v"] inv show ?thesis
    by (simp add: contents_def queue_inv_def)
qed

lemma all_returned_quiet:
  assumes "queue_inv own v g q" "\<And>i. rg own v i (client_post own v i) (T i) (g, q)"
    and "\<forall>i. T i = Ret (snt i, rcv i)"
  shows "quiet g" "sent i (entries g) = snt i" "received i (takers g) (entries g) = rcv i"
proof -
  have th: "thread own v i {} (snt i) (rcv i) (g, q)" for i
    using assms(2) [of i] assms(3) by (auto simp: sat.simps(1) client_post_def)
  then show "sent i (entries g) = snt i" "received i (takers g) (entries g) = rcv i"
    by (auto simp: thread_def)
  have "holder (hold g k) \<noteq> Some i" for i k
    using th [of i] by (auto simp: thread_def)
  then show "quiet g"
    unfolding quiet_def holder_def by (metis map_option_eq_Some not_None_eq)
qed

text \<open>
  C1. Any number of threads send, abandon, cancel, receive, drop, close and poll
  on one ring, interleaved in any way. When all have returned, one log \<open>L\<close> of the committed
  reservations explains every result: each thread's committed sends are its entries of \<open>L\<close> in order,
  the positions consumed are a prefix of \<open>L\<close> and each went to exactly one consumer in log order,
  and what the ring still holds is the rest of \<open>L\<close>. Nothing is lost, duplicated or reordered.
\<close>

theorem queue_exactly_once:
  assumes "view_ok v" and "owners_ok own"
    and "pstep\<^sup>*\<^sup>* (queue_new v, clients own v ops) (q, T)"
    and "\<forall>i. T i = Ret (snt i, rcv i)"
  shows "\<exists>L C. length C \<le> length L \<and> (\<forall>i. snt i = sent i L \<and> rcv i = received i C L) \<and>
    contents v q = map snd (drop (length C) L)"
proof -
  obtain g where g: "queue_inv own v g q" "\<And>i. rg own v i (client_post own v i) (T i) (g, q)"
    by (rule clients_sound [OF assms(1-3)]) blast
  note quiet = all_returned_quiet [OF g assms(4)]
  show ?thesis
    using contents_quiet [OF assms(1) g(1) quiet(1)] quiet(2,3) queue_inv_le [OF g(1)] by metis
qed

text \<open>A producer and a consumer on a ring of one slot, the consumer starting while the producer works.\<close>

definition demo_view :: view where
  "demo_view = \<lparr>send_field = 0, recv_field = 6, owner = 0, one_lap = 2, capacity = 1\<rparr>"

definition demo_ops :: "nat \<Rightarrow> nat op list" where
  "demo_ops i = (if i = 0 then [Send 7, Close_Send, Poll] else if i = 1 then [Receive] else [])"

definition demo_sent :: "(nat queue, nat list \<times> nat list) pool" where
  "demo_sent = schedule ([0, 0, 1, 0, 0] @ replicate 20 0)
     (queue_new demo_view, clients (\<lambda>_. 0) demo_view demo_ops)"

definition demo_final :: "(nat queue, nat list \<times> nat list) pool" where
  "demo_final = schedule (replicate 12 1) demo_sent"

lemma demo_ok [simp]: "view_ok demo_view" "owners_ok (\<lambda>_. 0)"
  by (simp_all add: view_ok_def demo_view_def owners_ok_def is_power_of_two_iff exI [of _ 1])

lemma demo_sent_reaches:
  "pstep\<^sup>*\<^sup>* (queue_new demo_view, clients (\<lambda>_. 0) demo_view demo_ops) (fst demo_sent, snd demo_sent)"
  unfolding prod.collapse demo_sent_def by (rule schedule_reaches)

lemma demo_final_reaches: "pstep\<^sup>*\<^sup>* (fst demo_sent, snd demo_sent) (fst demo_final, snd demo_final)"
  unfolding prod.collapse demo_final_def by (rule schedule_reaches)

lemmas demo_reaches = rtranclp_trans [OF demo_sent_reaches demo_final_reaches]

lemma demo_returned:
  "snd demo_final i = Ret (if i = 0 then [7] else [], if i = 1 then [7] else [])"
proof -
  have "map (returned \<circ> snd demo_final) [0, 1] = [Some ([7], []), Some ([], [7])]"
    by code_simp
  moreover have "snd demo_final i = Ret ([], [])" if "i \<noteq> 0" "i \<noteq> 1"
  proof -
    have "snd demo_final i = snd demo_sent i"
      using that schedule_other [of i "replicate 12 1" "fst demo_sent" "snd demo_sent"]
      by (simp add: demo_final_def)
    also have "\<dots> = client (demo_view\<lparr>owner := 0\<rparr>) (demo_ops i) [] []"
      unfolding demo_sent_def using that by (subst schedule_other) auto
    finally show ?thesis
      using that by (simp add: demo_ops_def)
  qed
  ultimately show ?thesis
    by (cases "i = 0"; cases "i = 1") auto
qed

theorem queue_exactly_once_witness:
  "\<exists>L C. length C \<le> length L \<and>
     (\<forall>i. (if i = 0 then [7 :: nat] else []) = sent i L \<and> (if i = 1 then [7] else []) = received i C L) \<and>
     contents demo_view (fst demo_final) = map snd (drop (length C) L)"
  by (rule queue_exactly_once [OF demo_ok demo_reaches]) (simp add: demo_returned)

text \<open>
  C5. In every reachable state no thread has panicked, and the cursors are
  the encodings of two positions at most one capacity apart, whatever the number of laps and however
  often the words have wrapped.
\<close>

theorem queue_interleaving_safe:
  assumes "view_ok v" and "owners_ok own"
    and "pstep\<^sup>*\<^sup>* (queue_new v, clients own v ops) (q, T)"
  shows "T i \<noteq> Panic \<and>
    (\<exists>h t. head q = cursor v h \<and> tail q = cursor v t \<and> h \<le> t \<and> t \<le> h + capacity v)"
proof -
  obtain g where g: "queue_inv own v g q" "\<And>i. rg own v i (client_post own v i) (T i) (g, q)"
    by (rule clients_sound [OF assms(1-3)]) blast
  from g(2) [of i] have "T i \<noteq> Panic"
    by auto
  with g(1) show ?thesis
    by (auto simp: queue_inv_def)
qed

theorem queue_interleaving_safe_witness:
  "snd demo_final 1 \<noteq> Panic \<and> (\<exists>h t. head (fst demo_final) = cursor demo_view h \<and>
     tail (fst demo_final) = cursor demo_view t \<and> h \<le> t \<and> t \<le> h + capacity demo_view)"
  by (rule queue_interleaving_safe [OF demo_ok demo_reaches])

end
