(* ===== verification/Queue_Fifo.thy ===== *)
theory Queue_Fifo
  imports Queue_Concurrent
begin

text \<open>
  The ring without interference is an exact bounded queue: what every sequential send and receive
  returns, and what it leaves. The interface \<open>bounded_fifo\<close> states it for the users of the ring.
\<close>

section \<open>Sequential operations\<close>

definition send_value :: "view \<Rightarrow> 'a \<Rightarrow> ('a queue, (unit, reserve_error) result) prog" where
  "send_value v x = bind (reserve v) (\<lambda>r. case r of
     Ok k \<Rightarrow> bind (stage k x) (\<lambda>_. bind (publish k) (\<lambda>_. Ret (Ok ())))
   | Err e \<Rightarrow> Ret (Err e))"

definition skip_value :: "view \<Rightarrow> ('a queue, (unit, reserve_error) result) prog" where
  "skip_value v = bind (reserve v) (\<lambda>r. case r of
     Ok k \<Rightarrow> bind (drop_reserved False k) (\<lambda>_. Ret (Ok ()))
   | Err e \<Rightarrow> Ret (Err e))"

definition recv_value :: "view \<Rightarrow> ('a queue, ('a option, claim_error) result) prog" where
  "recv_value v = bind (claim v) (\<lambda>r. case r of
     Ok c \<Rightarrow> bind (take_claim c) (\<lambda>x. Ret (Ok x))
   | Err e \<Rightarrow> Ret (Err e))"

definition send_open :: "view \<Rightarrow> 'a queue \<Rightarrow> bool" where
  "send_open v q \<longleftrightarrow> field_state (send_field v) q OR field_state (recv_field v) q = 0"

definition recv_open :: "view \<Rightarrow> 'a queue \<Rightarrow> bool" where
  "recv_open v q \<longleftrightarrow> field_state (recv_field v) q = 0"

definition represents :: "view \<Rightarrow> 'a queue \<Rightarrow> 'a option list \<Rightarrow> bool" where
  "represents v q l \<longleftrightarrow> (\<exists>g. queue_inv (\<lambda>_. 0) v g q \<and> quiet g \<and>
     l = map snd (drop (length (takers g)) (entries g)))"

section \<open>Quiet states\<close>

lemma queue_inv_owner:
  assumes "quiet g"
  shows "queue_inv own v g q \<longleftrightarrow> queue_inv own' (v\<lparr>owner := o'\<rparr>) g q"
  using assms by (simp add: queue_inv_def quiet_def in_window_def idle_ok_def)

lemma represents_owner [simp]: "represents (v\<lparr>owner := o'\<rparr>) q l \<longleftrightarrow> represents v q l"
  unfolding represents_def using queue_inv_owner by blast

lemma represents_contents: "view_ok v \<Longrightarrow> represents v q l \<Longrightarrow> l = contents v q"
  by (auto simp: represents_def contents_quiet)

lemma representsE:
  assumes "represents v q l"
  obtains g where "queue_inv own v g q" "quiet g" "l = map snd (drop (length (takers g)) (entries g))"
  using assms queue_inv_owner [of _ "\<lambda>_. 0" v q own "owner v"] unfolding represents_def by auto

lemma representsI:
  assumes "queue_inv own v g q" "quiet g" "l = map snd (drop (length (takers g)) (entries g))"
  shows "represents v q l"
  using assms queue_inv_owner [of g own v q "\<lambda>_. 0" "owner v"] unfolding represents_def by auto

lemma represents_new: "view_ok v \<Longrightarrow> represents v (queue_new v) []"
  by (rule representsI [OF queue_inv_new]) (simp_all add: ghost_new_def quiet_def)

lemma quiet_slot:
  assumes "queue_inv own v g q" "quiet g" "in_window v g p"
  shows "idle_ok v (entries g) p (buf q ! (p mod capacity v))"
  using assms by (simp add: queue_inv_def quiet_def)

lemma field_state_simps [simp]:
  "field_state f (set_control k c q) = field_state f q" "field_state f (set_turn k t q) = field_state f q"
  "field_state f (set_val k x q) = field_state f q" "field_state f (set_tail t q) = field_state f q"
  "field_state f (set_head t q) = field_state f q"
  by (simp_all add: field_state_def set_control_def set_turn_def set_val_def)

lemma cursor_simps [simp]:
  "tail (set_control k c q) = tail q" "head (set_control k c q) = head q"
  "tail (set_turn k t q) = tail q" "head (set_turn k t q) = head q"
  "tail (set_val k x q) = tail q" "head (set_val k x q) = head q"
  "lifecycle (set_control k c q) = lifecycle q" "lifecycle (set_turn k t q) = lifecycle q"
  "lifecycle (set_val k x q) = lifecycle q"
  "length (buf (set_control k c q)) = length (buf q)" "length (buf (set_turn k t q)) = length (buf q)"
  "length (buf (set_val k x q)) = length (buf q)"
  by (simp_all add: set_control_def set_turn_def set_val_def)

section \<open>Reserving and publishing\<close>

lemma run_reserve_closed:
  "\<not> send_open v q \<Longrightarrow> run (reserve v) q = Returned (Err Reserve_Closed) q"
  by (simp add: reserve_def queue_state_def send_open_def)

lemma run_reserve_full:
  assumes v: "view_ok v" and inv: "queue_inv own v g q" and quiet: "quiet g"
    and o: "send_open v q" and full: "length (entries g) = length (takers g) + capacity v"
  shows "run (reserve v) q = Returned (Err Full) q"
proof -
  have c: "0 < capacity v" using v by (simp add: view_ok_def)
  let ?H = "length (takers g)"
  have tail: "tail q = cursor v (?H + capacity v)" and head: "head q = cursor v ?H"
    using inv full by (simp_all add: queue_inv_def)
  have "idle_ok v (entries g) ?H (buf q ! (?H mod capacity v))"
    by (rule quiet_slot [OF inv quiet]) (simp add: in_window_def c)
  then have "slot_control (?H mod capacity v) q \<noteq> EMPTY"
    using full c by (auto simp: idle_ok_def split: option.splits)
  then show ?thesis
    using o v c by (simp add: reserve_def queue_state_def send_open_def Let_def tail head cursor_add_lap not_le)
qed

lemma run_reserve_ok:
  assumes v: "view_ok v" and own: "owners_ok own" "own 0 = owner v"
    and inv: "queue_inv own v g q" and quiet: "quiet g"
    and o: "send_open v q" and room: "length (entries g) < length (takers g) + capacity v"
  obtains q' where "run (reserve v) q = Returned (Ok (length (entries g) mod capacity v)) q'"
    "queue_inv own v (g\<lparr>entries := entries g @ [(0, None)],
        hold := (hold g)(length (entries g) mod capacity v := Some (0, Writing, length (entries g)))\<rparr>) q'"
    "lifecycle q' = lifecycle q"
proof -
  have c: "0 < capacity v" using v by (simp add: view_ok_def)
  let ?T = "length (entries g)"
  let ?k = "?T mod capacity v"
  let ?q1 = "set_control ?k (owned PRODUCER False (own 0)) q"
  have tail: "tail q = cursor v ?T" and len: "length (buf q) = capacity v"
    using inv by (simp_all add: queue_inv_def)
  have idle: "slot_control ?k q = EMPTY" "slot_turn ?k q = cursor v ?T"
    using quiet_slot [OF inv quiet, of ?T] room queue_inv_le [OF inv]
    by (auto simp: in_window_def idle_ok_def)
  obtain p where a1: "act own v 0 (g, q) (g\<lparr>hold := (hold g)(?k := Some (0, Reserving, p))\<rparr>, ?q1)"
    using act_reserve_slot [OF v own(1) inv _ idle(1)] c by (metis mod_less_divisor)
  have "act own v 0 (g\<lparr>hold := (hold g)(?k := Some (0, Reserving, p))\<rparr>, ?q1)
      (g\<lparr>hold := (hold g)(?k := Some (0, Checked, p))\<rparr>, ?q1)"
    using act_check [OF v act_inv [OF a1], of ?k 0 p] o by (simp add: send_open_def or_eq_0_iff)
  note a2 = act_commit_tail [OF v act_inv [OF this], of ?k 0 p]
  have p: "p = ?T" and "act own v 0 (g\<lparr>hold := (hold g)(?k := Some (0, Checked, p))\<rparr>, ?q1)
      (g\<lparr>hold := (hold g)(?k := Some (0, Checked, p)), entries := entries g @ [(0, None)],
         hold := (hold g)(?k := Some (0, Writing, p))\<rparr>, set_tail (cursor v (Suc ?T)) ?q1)"
    using a2 c len idle(2) tail by (simp_all add: ac_simps)
  then have "queue_inv own v (g\<lparr>entries := entries g @ [(0, None)],
      hold := (hold g)(?k := Some (0, Writing, ?T))\<rparr>) (set_tail (cursor v (Suc ?T)) ?q1)"
    by (auto dest!: act_inv simp: p)
  moreover have "run (reserve v) q = Returned (Ok ?k) (set_tail (cursor v (Suc ?T)) ?q1)"
    using o v c idle own(2) len by (simp add: reserve_def queue_state_def send_open_def Let_def tail not_le)
  ultimately show thesis
    using that by simp
qed

lemma run_stage_publish:
  assumes v: "view_ok v" and own: "owners_ok own" and inv: "queue_inv own v g q"
    and h: "hold g k = Some (i, Writing, p)"
  obtains q' where "run (bind (stage k x) (\<lambda>_. bind (publish k) (\<lambda>_. Ret y))) q = Returned y q'"
    "queue_inv own v (g\<lparr>hold := (hold g)(k := None), entries := (entries g)[p := (i, Some x)]\<rparr>) q'"
    "lifecycle q' = lifecycle q"
proof -
  have k: "k < capacity v" and len: "length (buf q) = capacity v"
    using hold_bound [OF inv h] queue_inv_length [OF inv] by auto
  have word: "held_word PRODUCER (own i) (slot_control k q)"
    using hold_slot [OF v inv h] by simp
  let ?q1 = "set_val k (Some x) q" and ?c = "owned PRODUCER True (own i)"
  have "act own v i (g, q) (g, ?q1)"
    unfolding set_val_def by (rule act_write [OF v inv h]) (use word in simp_all)
  note inv1 = act_inv [OF this]
  have "act own v i (g, ?q1) (g, set_control k ?c ?q1)"
    unfolding set_control_def by (rule act_write [OF v inv1 h]) (use own k len in simp_all)
  note inv2 = act_inv [OF this]
  have "queue_inv own v (g\<lparr>hold := (hold g)(k := None), entries := (entries g)[p := (i, Some x)]\<rparr>)
      (set_control k (AVAILABLE OR COMPLETE) (set_control k ?c ?q1))"
    by (rule act_inv [OF act_publish [OF v inv2 h]]) (use k len in simp)
  then show thesis
    using that k len owner_of_word [OF word] by (simp add: stage_def publish_def)
qed

lemma reserve_full:
  assumes "view_ok v" "represents v q l" "send_open v q" "length l = capacity v"
  shows "run (reserve v) q = Returned (Err Full) q"
proof -
  obtain g where g: "queue_inv (\<lambda>_. 0) v g q" "quiet g" "l = map snd (drop (length (takers g)) (entries g))"
    using representsE [OF assms(2)] .
  with assms(4) have "length (entries g) = length (takers g) + capacity v"
    using queue_inv_le [OF g(1)] by simp
  from run_reserve_full [OF assms(1) g(1,2) assms(3) this] show ?thesis .
qed

lemma reserve_room:
  assumes v: "view_ok v" and own: "owners_ok (\<lambda>_. owner v)"
    and r: "represents v q l" and o: "send_open v q" and room: "length l < capacity v"
  obtains g q' k where "quiet g" "l = map snd (drop (length (takers g)) (entries g))"
    "length (takers g) \<le> length (entries g)" "run (reserve v) q = Returned (Ok k) q'" "lifecycle q' = lifecycle q"
    "queue_inv (\<lambda>_. owner v) v (g\<lparr>entries := entries g @ [(0, None)],
       hold := (hold g)(k := Some (0, Writing, length (entries g)))\<rparr>) q'"
proof -
  obtain g where g: "queue_inv (\<lambda>_. owner v) v g q" "quiet g" "l = map snd (drop (length (takers g)) (entries g))"
    using representsE [OF r] .
  have le: "length (takers g) \<le> length (entries g)" using queue_inv_le [OF g(1)] .
  have "length (entries g) < length (takers g) + capacity v"
    using room g(3) le by simp
  from run_reserve_ok [OF v own refl g(1,2) o this] show thesis
    using that g(2,3) le by metis
qed

lemma owners_okI: "unat o' < PARTICIPANT_CAPACITY \<Longrightarrow> owners_ok (\<lambda>_. o')"
  by (simp add: owners_ok_def)

lemma send_room:
  assumes v: "view_ok v" and own: "unat (owner v) < PARTICIPANT_CAPACITY"
    and r: "represents v q l" and o: "send_open v q" and room: "length l < capacity v"
  obtains q' where "run (send_value v x) q = Returned (Ok ()) q'" "represents v q' (l @ [Some x])"
    "lifecycle q' = lifecycle q"
proof -
  obtain g q1 k where g: "quiet g" "l = map snd (drop (length (takers g)) (entries g))"
      "length (takers g) \<le> length (entries g)" and q1: "run (reserve v) q = Returned (Ok k) q1" "lifecycle q1 = lifecycle q"
      "queue_inv (\<lambda>_. owner v) v (g\<lparr>entries := entries g @ [(0, None)],
         hold := (hold g)(k := Some (0, Writing, length (entries g)))\<rparr>) q1"
    using reserve_room [OF v owners_okI [OF own] r o room] .
  let ?g = "g\<lparr>entries := entries g @ [(0, None)], hold := (hold g)(k := Some (0, Writing, length (entries g)))\<rparr>"
  obtain q2 where q2: "run (bind (stage k x) (\<lambda>_. bind (publish k) (\<lambda>_. Ret (Ok ())))) q1
        = Returned (Ok () :: (unit, reserve_error) result) q2"
      "queue_inv (\<lambda>_. owner v) v (?g\<lparr>hold := (hold ?g)(k := None),
         entries := (entries ?g)[length (entries g) := (0, Some x)]\<rparr>) q2"
      "lifecycle q2 = lifecycle q1"
    using run_stage_publish [OF v owners_okI [OF own] q1(3), of k 0 "length (entries g)" x "Ok ()"] by auto
  have "represents v q2 (l @ [Some x])"
    by (rule representsI [OF q2(2)]) (use g in \<open>auto simp: quiet_def list_update_append\<close>)
  with q1 q2 show thesis
    using that by (simp add: send_value_def)
qed

lemma skip_room:
  assumes v: "view_ok v" and own: "unat (owner v) < PARTICIPANT_CAPACITY"
    and r: "represents v q l" and o: "send_open v q" and room: "length l < capacity v"
  obtains q' where "run (skip_value v) q = Returned (Ok ()) q'" "represents v q' (l @ [None])"
    "lifecycle q' = lifecycle q"
proof -
  obtain g q1 k where g: "quiet g" "l = map snd (drop (length (takers g)) (entries g))"
      "length (takers g) \<le> length (entries g)" and q1: "run (reserve v) q = Returned (Ok k) q1" "lifecycle q1 = lifecycle q"
      "queue_inv (\<lambda>_. owner v) v (g\<lparr>entries := entries g @ [(0, None)],
         hold := (hold g)(k := Some (0, Writing, length (entries g)))\<rparr>) q1"
    using reserve_room [OF v owners_okI [OF own] r o room] .
  note inv = act_inv [OF act_skip [OF v q1(3), of k 0 "length (entries g)"]]
  have "represents v (set_control k AVAILABLE q1) (l @ [None])"
    by (rule representsI [OF inv]) (use g in \<open>auto simp: quiet_def\<close>)
  with q1 show thesis
    using that by (simp add: skip_value_def drop_reserved_def skip_def)
qed

section \<open>Claiming\<close>

lemma recv_closed_exact: "\<not> recv_open v q \<Longrightarrow> run (recv_value v) q = Returned (Err Claim_Closed) q"
  by (simp add: recv_value_def claim_def recv_open_def)

lemma recv_empty:
  assumes v: "view_ok v" and r: "represents v q []" and o: "recv_open v q"
  shows "run (recv_value v) q = Returned (Err Empty) q"
proof -
  obtain g where g: "queue_inv (\<lambda>_. 0) v g q" "quiet g" "[] = map snd (drop (length (takers g)) (entries g))"
    using representsE [OF r] .
  have c: "0 < capacity v" using v by (simp add: view_ok_def)
  have le: "length (takers g) = length (entries g)"
    using queue_inv_le [OF g(1)] g(3) by simp
  then have cursors: "head q = cursor v (length (entries g))" "tail q = cursor v (length (entries g))"
    using g(1) by (simp_all add: queue_inv_def)
  have "idle_ok v (entries g) (length (entries g)) (buf q ! (length (entries g) mod capacity v))"
    by (rule quiet_slot [OF g(1,2)]) (simp add: in_window_def le c)
  then have "slot_control (length (entries g) mod capacity v) q = EMPTY"
    by (simp add: idle_ok_def)
  then show ?thesis
    using o v c cursors by (simp add: recv_value_def claim_def recv_open_def Let_def not_le)
qed

lemma recv_head:
  assumes v: "view_ok v" and own: "unat (owner v) < PARTICIPANT_CAPACITY"
    and r: "represents v q (x # l)" and o: "recv_open v q"
  obtains q' where "run (recv_value v) q = Returned (case x of Some y \<Rightarrow> Ok (Some y) | None \<Rightarrow> Err Claim_Busy) q'"
    "represents v q' l" "lifecycle q' = lifecycle q"
proof -
  let ?own = "\<lambda>_ :: nat. owner v"
  have own': "owners_ok ?own" using own by (simp add: owners_ok_def)
  obtain g where g: "queue_inv ?own v g q" "quiet g" "x # l = map snd (drop (length (takers g)) (entries g))"
    using representsE [OF r] .
  have c: "0 < capacity v" using v by (simp add: view_ok_def)
  let ?H = "length (takers g)"
  let ?k = "?H mod capacity v"
  have lt: "?H < length (entries g)"
    using g(3) by (metis drop_all list.distinct(1) list.simps(8) not_le)
  then have x: "snd (entries g ! ?H) = x" "l = map snd (drop (Suc ?H) (entries g))"
    using g(3) by (simp_all add: Cons_nth_drop_Suc [symmetric])
  have k: "?k < capacity v" and len: "length (buf q) = capacity v" and head: "head q = cursor v ?H"
    using c g(1) by (simp_all add: queue_inv_def)
  let ?a = "slot_control ?k q"
  have idle: "slot_turn ?k q = cursor v ?H" "?a = AVAILABLE OR (if x = None then 0 else COMPLETE)"
      "x \<noteq> None \<longrightarrow> slot_val ?k q = x"
    using quiet_slot [OF g(1,2), of ?H] lt c x(1) by (auto simp: in_window_def idle_ok_def split: option.splits)
  let ?q1 = "set_control ?k (owned CONSUMER (?a AND COMPLETE \<noteq> 0) (owner v)) q"
  obtain p where a1: "act ?own v 0 (g, q) (g\<lparr>hold := (hold g)(?k := Some (0, Claiming, p))\<rparr>, ?q1)"
    using act_claim_slot [OF v own' g(1) k refl, of 0] idle(2) by (auto split: if_splits)
  note a2 = act_commit_head [OF v act_inv [OF a1], of ?k 0 p]
  have p: "p = ?H" and "act ?own v 0 (g\<lparr>hold := (hold g)(?k := Some (0, Claiming, p))\<rparr>, ?q1)
      (g\<lparr>hold := (hold g)(?k := Some (0, Claiming, p)), takers := takers g @ [0],
         hold := (hold g)(?k := Some (0, Reading, p + capacity v))\<rparr>, set_head (cursor v (Suc ?H)) ?q1)"
    using a2 k len idle(1) head by (simp_all add: ac_simps)
  note inv2 = act_inv [OF this(2)]
  note inv3 = act_inv [OF act_recycle_turn [OF v inv2, of ?k 0 "p + capacity v"]]
  note inv4 = act_inv [OF act_recycle [OF v inv3, of ?k 0 "p + capacity v"]]
  let ?q' = "set_control ?k EMPTY (set_turn ?k (cursor v (?H + capacity v)) (set_head (cursor v (Suc ?H)) ?q1))"
  have "represents v ?q' l"
    by (rule representsI [where g = "g\<lparr>takers := takers g @ [0]\<rparr>" and own = ?own])
      (use inv4 x(2) g(2) in \<open>auto simp: p quiet_def fun_upd_idem\<close>)
  moreover have "run (recv_value v) q = Returned (case x of Some y \<Rightarrow> Ok (Some y) | None \<Rightarrow> Err Claim_Busy) ?q'"
    using o v c idle len
    by (auto simp: recv_value_def claim_def recv_open_def Let_def head not_le recycle_def take_claim_def
        cursor_add_lap split: option.splits)
  ultimately show thesis
    using that by simp
qed

lemma represents_bound: "represents v q l \<Longrightarrow> length l \<le> capacity v"
  by (auto simp: represents_def queue_inv_def)

section \<open>Exact results\<close>

text \<open>
  C6. A send without interference on a ring that holds \<open>l\<close> is refused as closed
  exactly when either side has begun to close, is refused as full exactly when \<open>l\<close> has reached the
  capacity (both refusals leave every byte as it was), and otherwise appends its value.
\<close>

theorem queue_send_exact:
  assumes "view_ok v" and "unat (owner v) < PARTICIPANT_CAPACITY" and "represents v q l"
  shows "(\<not> send_open v q \<longrightarrow> run (send_value v x) q = Returned (Err Reserve_Closed) q) \<and>
    (send_open v q \<and> length l = capacity v \<longrightarrow> run (send_value v x) q = Returned (Err Full) q) \<and>
    (send_open v q \<and> length l < capacity v \<longrightarrow>
      (\<exists>q'. run (send_value v x) q = Returned (Ok ()) q' \<and> represents v q' (l @ [Some x]) \<and>
        lifecycle q' = lifecycle q))"
proof (intro conjI impI)
  show "run (send_value v x) q = Returned (Err Reserve_Closed) q" if "\<not> send_open v q"
    using run_reserve_closed [OF that] by (simp add: send_value_def)
  show "run (send_value v x) q = Returned (Err Full) q" if "send_open v q \<and> length l = capacity v"
    using reserve_full [OF assms(1,3)] that by (simp add: send_value_def)
  show "\<exists>q'. run (send_value v x) q = Returned (Ok ()) q' \<and> represents v q' (l @ [Some x]) \<and> lifecycle q' = lifecycle q"
    if "send_open v q \<and> length l < capacity v"
    using send_room [OF assms] that by metis
qed

theorem queue_send_exact_witness:
  "\<exists>q'. run (send_value demo_view (5 :: nat)) (queue_new demo_view) = Returned (Ok ()) q' \<and>
     represents demo_view q' [Some 5]"
  using queue_send_exact [OF demo_ok(1) _ represents_new [OF demo_ok(1)], of "5 :: nat"]
  by (auto simp: demo_view_def send_open_def field_state_def queue_new_def)

text \<open>
  C7. A receive without interference is refused as closed exactly when the receiving
  side has begun to close, as empty exactly when nothing is held; otherwise it consumes the oldest
  position, returning its value, or \<open>Busy\<close> when that position was skipped.
\<close>

theorem queue_recv_exact:
  assumes "view_ok v" and "unat (owner v) < PARTICIPANT_CAPACITY" and "represents v q l"
  shows "(\<not> recv_open v q \<longrightarrow> run (recv_value v) q = Returned (Err Claim_Closed) q) \<and>
    (recv_open v q \<and> l = [] \<longrightarrow> run (recv_value v) q = Returned (Err Empty) q) \<and>
    (\<forall>x l'. recv_open v q \<and> l = x # l' \<longrightarrow>
      (\<exists>q'. run (recv_value v) q = Returned (case x of Some y \<Rightarrow> Ok (Some y) | None \<Rightarrow> Err Claim_Busy) q' \<and>
        represents v q' l' \<and> lifecycle q' = lifecycle q))"
  using recv_empty [OF assms(1)] recv_head [OF assms(1,2)] recv_closed_exact [of v q] assms(3) by metis

theorem queue_recv_exact_witness:
  "run (recv_value demo_view) (queue_new demo_view :: nat queue) = Returned (Err Empty) (queue_new demo_view)"
  using queue_recv_exact [OF demo_ok(1) _ represents_new [OF demo_ok(1)], where 'a = nat]
  by (simp add: demo_view_def recv_open_def field_state_def queue_new_def)

section \<open>The interface of a bounded queue\<close>

datatype 'a call = Put 'a | Hole | Get

text \<open>A sequence of calls, with the values accepted and the values delivered.\<close>

fun replay ::
    "('a \<Rightarrow> 's \<Rightarrow> ('s, (unit, reserve_error) result) outcome) \<Rightarrow> ('s \<Rightarrow> ('s, (unit, reserve_error) result) outcome) \<Rightarrow>
     ('s \<Rightarrow> ('s, ('a option, claim_error) result) outcome) \<Rightarrow> 'a call list \<Rightarrow> 's \<Rightarrow> 's \<times> 'a list \<times> 'a list" where
  "replay send hole recv [] s = (s, [], [])"
| "replay send hole recv (Put x # cs) s = (case send x s of
     Returned r s' \<Rightarrow> (case replay send hole recv cs s' of (s'', snt, got) \<Rightarrow>
       (s'', if is_ok r then x # snt else snt, got))
   | _ \<Rightarrow> (s, [], []))"
| "replay send hole recv (Hole # cs) s = (case hole s of
     Returned r s' \<Rightarrow> replay send hole recv cs s' | _ \<Rightarrow> (s, [], []))"
| "replay send hole recv (Get # cs) s = (case recv s of
     Returned r s' \<Rightarrow> (case replay send hole recv cs s' of (s'', snt, got) \<Rightarrow>
       (s'', snt, case r of Ok (Some x) \<Rightarrow> x # got | _ \<Rightarrow> got))
   | _ \<Rightarrow> (s, [], []))"

abbreviation filled :: "'a option list \<Rightarrow> 'a list" where
  "filled \<equiv> List.map_filter id"

locale bounded_fifo =
  fixes rep :: "'s \<Rightarrow> 'a option list \<Rightarrow> bool" and bound :: nat
    and send :: "'a \<Rightarrow> 's \<Rightarrow> ('s, (unit, reserve_error) result) outcome"
    and hole :: "'s \<Rightarrow> ('s, (unit, reserve_error) result) outcome"
    and recv :: "'s \<Rightarrow> ('s, ('a option, claim_error) result) outcome"
  assumes put_full: "rep s l \<Longrightarrow> length l = bound \<Longrightarrow> send x s = Returned (Err Full) s"
    and put_room: "rep s l \<Longrightarrow> length l < bound \<Longrightarrow> \<exists>s'. send x s = Returned (Ok ()) s' \<and> rep s' (l @ [Some x])"
    and hole_full: "rep s l \<Longrightarrow> length l = bound \<Longrightarrow> hole s = Returned (Err Full) s"
    and hole_room: "rep s l \<Longrightarrow> length l < bound \<Longrightarrow> \<exists>s'. hole s = Returned (Ok ()) s' \<and> rep s' (l @ [None])"
    and get_empty: "rep s [] \<Longrightarrow> recv s = Returned (Err Empty) s"
    and get_head: "rep s (y # l) \<Longrightarrow>
      \<exists>s'. recv s = Returned (case y of Some x \<Rightarrow> Ok (Some x) | None \<Rightarrow> Err Claim_Busy) s' \<and> rep s' l"
    and rep_bound: "rep s l \<Longrightarrow> length l \<le> bound"
begin

lemma replay_fifo:
  "rep s l \<Longrightarrow> \<exists>s' snt got l'. replay send hole recv cs s = (s', snt, got) \<and> rep s' l' \<and>
     filled l @ snt = got @ filled l'"
proof (induction cs arbitrary: s l)
  case (Cons c cs)
  note rep = Cons.prems and IH = Cons.IH
  have room: "length l < bound" if "length l \<noteq> bound"
    using rep_bound [OF rep] that by simp
  show ?case
  proof (cases c)
    case (Put x)
    show ?thesis
    proof (cases "length l = bound")
      case True
      from IH [OF rep] put_full [OF rep True, of x] Put show ?thesis by auto
    next
      case False
      obtain s' where s': "send x s = Returned (Ok ()) s'" "rep s' (l @ [Some x])"
        using put_room [OF rep room [OF False]] by blast
      from IH [OF s'(2)] s'(1) Put show ?thesis
        by (auto simp: List.map_filter_simps)
    qed
  next
    case Hole
    show ?thesis
    proof (cases "length l = bound")
      case True
      from IH [OF rep] hole_full [OF rep True] Hole show ?thesis by auto
    next
      case False
      obtain s' where s': "hole s = Returned (Ok ()) s'" "rep s' (l @ [None])"
        using hole_room [OF rep room [OF False]] by blast
      from IH [OF s'(2)] s'(1) Hole show ?thesis
        by (auto simp: List.map_filter_simps)
    qed
  next
    case Get
    show ?thesis
    proof (cases l)
      case Nil
      with IH [OF rep] get_empty [of s] rep Get show ?thesis by auto
    next
      case l: (Cons y l')
      obtain s' where s': "rep s' l'"
        "recv s = Returned (case y of Some x \<Rightarrow> Ok (Some x) | None \<Rightarrow> Err Claim_Busy) s'"
        using get_head rep l by blast
      from IH [OF s'(1)] s'(2) Get l show ?thesis
        by (cases y) (auto simp: List.map_filter_simps)
    qed
  qed
qed auto

end

definition open_ring :: "view \<Rightarrow> u8 \<Rightarrow> u8 \<Rightarrow> 'a queue \<Rightarrow> 'a option list \<Rightarrow> bool" where
  "open_ring v tx rx q l \<longleftrightarrow> view_ok v \<and> unat tx < PARTICIPANT_CAPACITY \<and> unat rx < PARTICIPANT_CAPACITY \<and>
     send_open v q \<and> represents v q l"

lemma send_open_cong: "lifecycle q' = lifecycle q \<Longrightarrow> send_open v q' = send_open v q"
  by (simp add: send_open_def field_state_def)

lemma open_ring_simps:
  "open_ring v tx rx q l \<Longrightarrow> view_ok v" "open_ring v tx rx q l \<Longrightarrow> represents v q l"
  "open_ring v tx rx q l \<Longrightarrow> send_open v q" "open_ring v tx rx q l \<Longrightarrow> recv_open v q"
  "open_ring v tx rx q l \<Longrightarrow> unat tx < PARTICIPANT_CAPACITY" "open_ring v tx rx q l \<Longrightarrow> unat rx < PARTICIPANT_CAPACITY"
  by (simp_all add: open_ring_def send_open_def recv_open_def or_eq_0_iff)

lemma open_owner [simp]: "send_open (v\<lparr>owner := o'\<rparr>) q = send_open v q" "recv_open (v\<lparr>owner := o'\<rparr>) q = recv_open v q"
  by (simp_all add: send_open_def recv_open_def)

lemma open_ringI:
  "open_ring v tx rx q l \<Longrightarrow> represents v q' l' \<Longrightarrow> lifecycle q' = lifecycle q \<Longrightarrow> open_ring v tx rx q' l'"
  using send_open_cong [of q' q v] by (simp add: open_ring_def)

interpretation ring: bounded_fifo "open_ring v tx rx" "capacity v"
    "\<lambda>x. run (send_value (v\<lparr>owner := tx\<rparr>) x)" "run (skip_value (v\<lparr>owner := tx\<rparr>))"
    "run (recv_value (v\<lparr>owner := rx\<rparr>))" for v tx rx
proof (unfold_locales, goal_cases)
  case (1 q l x)
  then show ?case
    using reserve_full [of "v\<lparr>owner := tx\<rparr>" q l] open_ring_simps [OF 1(1)] by (simp add: send_value_def)
next
  case (2 q l x)
  obtain q' where "run (send_value (v\<lparr>owner := tx\<rparr>) x) q = Returned (Ok ()) q'"
      "represents (v\<lparr>owner := tx\<rparr>) q' (l @ [Some x])" "lifecycle q' = lifecycle q"
    by (rule send_room [of "v\<lparr>owner := tx\<rparr>" q l x]) (use open_ring_simps [OF 2(1)] 2(2) in simp_all)
  then show ?case
    using open_ringI [OF 2(1)] by auto
next
  case (3 q l)
  then show ?case
    using reserve_full [of "v\<lparr>owner := tx\<rparr>" q l] open_ring_simps [OF 3(1)] by (simp add: skip_value_def)
next
  case (4 q l)
  obtain q' where "run (skip_value (v\<lparr>owner := tx\<rparr>)) q = Returned (Ok ()) q'"
      "represents (v\<lparr>owner := tx\<rparr>) q' (l @ [None])" "lifecycle q' = lifecycle q"
    by (rule skip_room [of "v\<lparr>owner := tx\<rparr>" q l]) (use open_ring_simps [OF 4(1)] 4(2) in simp_all)
  then show ?case
    using open_ringI [OF 4(1)] by auto
next
  case (5 q)
  then show ?case using recv_empty [of "v\<lparr>owner := rx\<rparr>" q] open_ring_simps [OF 5] by simp
next
  case (6 q y l)
  obtain q' where "run (recv_value (v\<lparr>owner := rx\<rparr>)) q =
        Returned (case y of Some x \<Rightarrow> Ok (Some x) | None \<Rightarrow> Err Claim_Busy) q'"
      "represents (v\<lparr>owner := rx\<rparr>) q' l" "lifecycle q' = lifecycle q"
    by (rule recv_head [of "v\<lparr>owner := rx\<rparr>" q y l]) (use open_ring_simps [OF 6] in simp_all)
  then show ?case
    using open_ringI [OF 6] by auto
next
  case (7 q l)
  then show ?case using represents_bound open_ring_simps(2) by blast
qed

text \<open>
  C3. From a fresh ring, any sequence of sends by one side, skipped reservations and
  receives by the other delivers exactly the accepted values, in order and without gaps: the values
  delivered followed by the values still held are the values accepted.
\<close>

theorem queue_fifo_order:
  assumes "view_ok v" and "unat tx < PARTICIPANT_CAPACITY" and "unat rx < PARTICIPANT_CAPACITY"
    and "replay (\<lambda>x. run (send_value (v\<lparr>owner := tx\<rparr>) x)) (run (skip_value (v\<lparr>owner := tx\<rparr>)))
      (run (recv_value (v\<lparr>owner := rx\<rparr>))) calls (queue_new v) = (q, snt, got)"
  shows "snt = got @ filled (contents v q) \<and> length (contents v q) \<le> capacity v"
proof -
  have "open_ring v tx rx (queue_new v) []"
    using assms(1-3) represents_new [OF assms(1)] by (simp add: open_ring_def send_open_def field_state_def queue_new_def)
  from ring.replay_fifo [OF this, of calls] assms(4) obtain l where
    l: "open_ring v tx rx q l" "snt = got @ filled l"
    by (auto simp: List.map_filter_simps)
  then show ?thesis
    using represents_contents [OF assms(1), of q l] represents_bound [of v q l] open_ring_simps(2) [OF l(1)]
    by simp
qed

theorem queue_fifo_order_witness:
  "\<exists>q. replay (\<lambda>x. run (send_value (demo_view\<lparr>owner := 3\<rparr>) x)) (run (skip_value (demo_view\<lparr>owner := 3\<rparr>)))
      (run (recv_value (demo_view\<lparr>owner := 4\<rparr>))) [Put 1, Put 2, Get, Hole, Get, Put (3 :: nat)] (queue_new demo_view)
      = (q, [1, 3], [1]) \<and> [1, 3] = [1] @ filled (contents demo_view q)"
proof -
  let ?r = "replay (\<lambda>x. run (send_value (demo_view\<lparr>owner := 3\<rparr>) x)) (run (skip_value (demo_view\<lparr>owner := 3\<rparr>)))
      (run (recv_value (demo_view\<lparr>owner := 4\<rparr>))) [Put 1, Put 2, Get, Hole, Get, Put (3 :: nat)] (queue_new demo_view)"
  have "snd ?r = ([1, 3], [1])"
    by code_simp
  then have "?r = (fst ?r, [1, 3], [1])"
    by (metis prod.collapse)
  with queue_fifo_order [OF demo_ok(1) _ _ this] show ?thesis
    by auto
qed

end
