(* ===== verification/Header.thy ===== *)
theory Header
  imports Atomic Schema
begin

text \<open>
  Admission of a shared layout, after \<open>src/header.rs\<close>: the recorded identity of a layout and the
  word of its members. A layout in shared memory is an \<open>RcHeader<T>\<close>;
  what \<open>T\<close> contributes (the trait \<open>Layout\<close>) is a record of its operations.
\<close>

section \<open>Records\<close>

record abi_profile =
  word_bytes :: u8
  atomic_bytes :: u8
  little_endian :: bool

definition native_profile :: abi_profile where
  "native_profile = \<lparr>word_bytes = 8, atomic_bytes = 8, little_endian = True\<rparr>"

abbreviation RECORD_FORMAT :: u8 where "RECORD_FORMAT \<equiv> 1"
abbreviation RECORD_SIZE :: nat where "RECORD_SIZE \<equiv> 35"

record shared_record =
  rcd_status :: u8
  rec_format :: u8
  rec_profile :: "u8 \<times> u8 \<times> u8"
  rec_magic :: "byte list"
  rec_revision :: "byte list"
  rec_schema :: "byte list"
  rec_extent :: "byte list"
  rec_extent_align :: "byte list"

definition record_profile :: "shared_record \<Rightarrow> abi_profile" where
  "record_profile r = (case rec_profile r of (w, a, e) \<Rightarrow>
     \<lparr>word_bytes = w, atomic_bytes = a, little_endian = (e \<noteq> 0)\<rparr>)"

record recorded_layout =
  rl_schema :: schema_key
  rl_profile :: abi_profile
  rl_magic :: u16
  rl_extent :: nat
  rl_extent_align :: nat

datatype status = Uninitialized | Initializing | Initialized | Status_Corrupted

definition status_from_u8 :: "u8 \<Rightarrow> status" where
  "status_from_u8 v =
     (if v = 0 then Uninitialized else if v = 1 then Initializing
      else if v = 2 then Initialized else Status_Corrupted)"

fun status_u8 :: "status \<Rightarrow> u8" where
  "status_u8 Uninitialized = 0"
| "status_u8 Initializing = 1"
| "status_u8 Initialized = 2"
| "status_u8 Status_Corrupted = 3"

datatype layout_field =
  State | Format | Profile | Magic | Revision | Schema_Field | Region | Offset | HeaderSize | HeaderAlign |
  Extent | ExtentAlign | InfoSchema | InfoRevision | InfoSize | InfoAlign | Size | Align | Info

datatype admit_error = Contention | Closed | DuplicateMember | InvalidHeader | Mismatch layout_field

datatype close_error = Close_Contention | MissingMember | Already_Closed

section \<open>Headers and the trait of a layout\<close>

record ('i, 'b) rc_header =
  hd_record :: shared_record
  hd_members :: usize
  hd_region :: region_id
  hd_offset :: u64
  hd_header_size :: u64
  hd_header_align :: u64
  hd_info_schema :: u64
  hd_info_revision :: u32
  hd_info_size :: u64
  hd_info_align :: u64
  hd_body_size :: u64
  hd_body_align :: u64
  hd_info :: 'i
  hd_inner :: 'b

text \<open>
  The constants and functions that an implementation of \<open>Layout\<close> supplies. \<open>lt_init\<close> is the body that
  \<open>init\<close> leaves at its destination, with everything behind it, and the status it reports.
\<close>

record ('c, 'i, 'b) layout_trait =
  lt_magic :: u16
  lt_schema :: schema_key
  lt_info_schema :: schema_key
  lt_info_layout :: layout
  lt_body_layout :: layout
  lt_storage :: "'c \<Rightarrow> layout option"
  lt_info :: "'c \<Rightarrow> layout_context \<Rightarrow> 'i"
  lt_init :: "'c \<Rightarrow> 'b \<times> status"
  lt_attach :: "'b \<Rightarrow> 'c \<Rightarrow> status"

text \<open>The layout of \<open>#[repr(C)] RcHeader<T>\<close>, field by field.\<close>

definition rc_header_layout :: "layout \<Rightarrow> layout \<Rightarrow> layout" where
  "rc_header_layout info body = repr_c
     [bytes_layout RECORD_SIZE, int_layout 8, \<lparr>size = 16, align = 8\<rparr>, int_layout 8, int_layout 8,
      int_layout 8, int_layout 8, int_layout 4, int_layout 8, int_layout 8, int_layout 8, int_layout 8,
      info, body]"

definition lt_header_layout :: "('c, 'i, 'b) layout_trait \<Rightarrow> layout" where
  "lt_header_layout t = rc_header_layout (lt_info_layout t) (lt_body_layout t)"

definition layout_u64 :: "nat \<Rightarrow> u64" where
  "layout_u64 n = of_nat n"

text \<open>The writes of \<open>Record::initialize\<close>, in order.\<close>

definition record_writes :: "('c, 'i, 'b) layout_trait \<Rightarrow> layout \<Rightarrow> (shared_record \<Rightarrow> shared_record) list" where
  "record_writes t l =
     [\<lambda>r. r\<lparr>rec_format := RECORD_FORMAT\<rparr>,
      \<lambda>r. r\<lparr>rec_profile := (word_bytes native_profile, atomic_bytes native_profile,
        if little_endian native_profile then 1 else 0)\<rparr>,
      \<lambda>r. r\<lparr>rec_magic := to_le_bytes (lt_magic t)\<rparr>,
      \<lambda>r. r\<lparr>rec_revision := to_le_bytes (revision (lt_schema t))\<rparr>,
      \<lambda>r. r\<lparr>rec_schema := to_le_bytes (key_id (lt_schema t))\<rparr>,
      \<lambda>r. r\<lparr>rec_extent := to_le_bytes (layout_u64 (size l))\<rparr>,
      \<lambda>r. r\<lparr>rec_extent_align := to_le_bytes (layout_u64 (align l))\<rparr>]"

section \<open>Reading a recorded layout\<close>

definition rl_mismatch :: "('c, 'i, 'b) layout_trait \<Rightarrow> recorded_layout \<Rightarrow> layout_field option" where
  "rl_mismatch t r =
     (if rl_magic r \<noteq> lt_magic t then Some Magic
      else if key_id (rl_schema r) \<noteq> key_id (lt_schema t) then Some Schema_Field
      else if revision (rl_schema r) \<noteq> revision (lt_schema t) then Some Revision
      else None)"

definition recorded_of :: "nat \<Rightarrow> shared_record \<Rightarrow> (recorded_layout, admit_error) result" where
  "recorded_of addr r =
     (if rec_format r \<noteq> RECORD_FORMAT then Err (Mismatch Format)
      else if record_profile r \<noteq> native_profile then Err (Mismatch Profile)
      else
        let extent = unat (from_le_bytes (rec_extent r) :: u64);
            extent_align = unat (from_le_bytes (rec_extent_align r) :: u64) in
        if extent < RECORD_SIZE then Err (Mismatch Extent)
        else if \<not> is_power_of_two extent_align \<or> addr mod extent_align \<noteq> 0
        then Err (Mismatch ExtentAlign)
        else Ok \<lparr>rl_schema = schema_key_new (from_le_bytes (rec_schema r)) (from_le_bytes (rec_revision r)),
                 rl_profile = record_profile r, rl_magic = from_le_bytes (rec_magic r),
                 rl_extent = extent, rl_extent_align = extent_align\<rparr>)"

definition recorded_at ::
    "nat \<Rightarrow> (('i, 'b) rc_header, (recorded_layout, admit_error) result) prog" where
  "recorded_at addr =
     load (rcd_status \<circ> hd_record) (\<lambda>s.
     if status_from_u8 s \<noteq> Initialized then Ret (Err (Mismatch State))
     else load hd_record (\<lambda>r. Ret (recorded_of addr r)))"

definition header_fields ::
    "('c, 'i, 'b) layout_trait \<Rightarrow> layout_context \<Rightarrow> ('i, 'b) rc_header \<Rightarrow> layout_field option" where
  "header_fields t ctx h =
     (if hd_region h \<noteq> ctx_region ctx then Some Region
      else if hd_offset h \<noteq> ctx_offset ctx then Some Offset
      else if hd_header_size h \<noteq> layout_u64 (size (lt_header_layout t)) then Some HeaderSize
      else if hd_header_align h \<noteq> layout_u64 (align (lt_header_layout t)) then Some HeaderAlign
      else if hd_info_schema h \<noteq> key_id (lt_info_schema t) then Some InfoSchema
      else if hd_info_revision h \<noteq> revision (lt_info_schema t) then Some InfoRevision
      else if hd_info_size h \<noteq> layout_u64 (size (lt_info_layout t)) then Some InfoSize
      else if hd_info_align h \<noteq> layout_u64 (align (lt_info_layout t)) then Some InfoAlign
      else if hd_body_size h \<noteq> layout_u64 (size (lt_body_layout t)) then Some Size
      else if hd_body_align h \<noteq> layout_u64 (align (lt_body_layout t)) then Some Align
      else None)"

definition inspect_at ::
    "('c, 'i, 'b) layout_trait \<Rightarrow> nat \<Rightarrow> layout_context \<Rightarrow>
     (('i, 'b) rc_header, ('i, admit_error) result) prog" where
  "inspect_at t addr ctx =
     bind (recorded_at addr) (\<lambda>r. case r of
       Err e \<Rightarrow> Ret (Err e)
     | Ok recorded \<Rightarrow> (case rl_mismatch t recorded of
         Some f \<Rightarrow> Ret (Err (Mismatch f))
       | None \<Rightarrow> load (\<lambda>h. h) (\<lambda>h. case header_fields t ctx h of
           Some f \<Rightarrow> Ret (Err (Mismatch f))
         | None \<Rightarrow> Ret (Ok (hd_info h)))))"

definition mismatch_at ::
    "('c, 'i, 'b) layout_trait \<Rightarrow> nat \<Rightarrow> 'c \<Rightarrow> layout_context \<Rightarrow>
     (('i, 'b) rc_header, layout_field option) prog" where
  "mismatch_at t addr conf ctx =
     bind (inspect_at t addr ctx) (\<lambda>r. case r of
       Err (Mismatch f) \<Rightarrow> Ret (Some f)
     | Err _ \<Rightarrow> Ret (Some State)
     | Ok info \<Rightarrow> (case lt_storage t conf of
         None \<Rightarrow> Ret (Some Extent)
       | Some l \<Rightarrow> load hd_record (\<lambda>r.
           if rec_extent r \<noteq> to_le_bytes (layout_u64 (size l)) then Ret (Some Extent)
           else if rec_extent_align r \<noteq> to_le_bytes (layout_u64 (align l)) then Ret (Some ExtentAlign)
           else if info \<noteq> lt_info t conf ctx then Ret (Some Info)
           else Ret None)))"

section \<open>Members\<close>

abbreviation CLOSED :: usize where "CLOSED \<equiv> 0x8000000000000000"

definition member_bit :: "u8 \<Rightarrow> usize" where
  "member_bit slot = push_bit (unat slot mod 64) 1"

definition set_members :: "usize \<Rightarrow> ('i, 'b) rc_header \<Rightarrow> ('i, 'b) rc_header" where
  "set_members m h = h\<lparr>hd_members := m\<rparr>"

definition close_unique :: "u8 \<Rightarrow> (('i, 'b) rc_header, (unit, close_error) result) prog" where
  "close_unique slot =
     compare_exchange hd_members set_members (member_bit slot) CLOSED (\<lambda>r. case r of
       Ok _ \<Rightarrow> Ret (Ok ())
     | Err observed \<Rightarrow> Ret (Err (
         if observed AND CLOSED \<noteq> 0 then Already_Closed
         else if observed AND member_bit slot = 0 then MissingMember
         else Close_Contention)))"

definition recover_member :: "u8 \<Rightarrow> (('i, 'b) rc_header, bool) prog" where
  "recover_member slot =
     fetch_update hd_members set_members (\<lambda>m. m AND NOT (member_bit slot)) (\<lambda>old.
       Ret (old AND member_bit slot \<noteq> 0))"

definition has_member :: "u8 \<Rightarrow> (('i, 'b) rc_header, bool) prog" where
  "has_member slot = load hd_members (\<lambda>m. Ret (m AND member_bit slot \<noteq> 0))"

definition closed_at :: "(('i, 'b) rc_header, bool) prog" where
  "closed_at = load hd_members (\<lambda>m. Ret (m AND CLOSED \<noteq> 0))"

definition published_region_at :: "nat \<Rightarrow> (('i, 'b) rc_header, region_id option) prog" where
  "published_region_at addr = bind (recorded_at addr) (\<lambda>r. case r of
     Ok _ \<Rightarrow> load hd_region (\<lambda>g. Ret (Some g)) | Err _ \<Rightarrow> Ret None)"

definition header_leave :: "u8 \<Rightarrow> (('i, 'b) rc_header, unit) prog" where
  "header_leave slot =
     fetch_update hd_members set_members (\<lambda>m. m AND NOT (member_bit slot)) (\<lambda>_. Ret ())"

text \<open>The bit that a \<open>Membership\<close> clears when it is dropped armed; \<open>claim_member\<close> returns it.\<close>

definition claim_member :: "u8 option \<Rightarrow> (('i, 'b) rc_header, (usize, admit_error) result) prog" where
  "claim_member slot = (case slot of
     None \<Rightarrow> Ret (Ok 0)
   | Some s \<Rightarrow> load hd_members (\<lambda>observed.
       if observed AND CLOSED \<noteq> 0 then Ret (Err Closed)
       else if observed AND member_bit s \<noteq> 0 then Ret (Err DuplicateMember)
       else compare_exchange hd_members set_members observed (observed OR member_bit s) (\<lambda>r. case r of
         Ok _ \<Rightarrow> Ret (Ok (member_bit s)) | Err _ \<Rightarrow> Ret (Err Contention))))"

definition drop_membership :: "usize \<Rightarrow> (('i, 'b) rc_header, unit) prog" where
  "drop_membership b =
     (if b \<noteq> 0 then fetch_update hd_members set_members (\<lambda>m. m AND NOT b) (\<lambda>_. Ret ()) else Ret ())"

section \<open>Admission\<close>

definition set_status :: "u8 \<Rightarrow> ('i, 'b) rc_header \<Rightarrow> ('i, 'b) rc_header" where
  "set_status s h = h\<lparr>hd_record := (hd_record h)\<lparr>rcd_status := s\<rparr>\<rparr>"

text \<open>The writes of an admission to a layout it initializes, in order.\<close>

definition header_writes ::
    "('c, 'i, 'b) layout_trait \<Rightarrow> layout \<Rightarrow> 'c \<Rightarrow> layout_context \<Rightarrow> usize \<Rightarrow>
     (('i, 'b) rc_header \<Rightarrow> ('i, 'b) rc_header) list" where
  "header_writes t l conf ctx b =
     map (\<lambda>w h. h\<lparr>hd_record := w (hd_record h)\<rparr>) (record_writes t l) @
     [\<lambda>h. h\<lparr>hd_members := b\<rparr>,
      \<lambda>h. h\<lparr>hd_region := ctx_region ctx\<rparr>,
      \<lambda>h. h\<lparr>hd_offset := ctx_offset ctx\<rparr>,
      \<lambda>h. h\<lparr>hd_header_size := layout_u64 (size (lt_header_layout t))\<rparr>,
      \<lambda>h. h\<lparr>hd_header_align := layout_u64 (align (lt_header_layout t))\<rparr>,
      \<lambda>h. h\<lparr>hd_info_schema := key_id (lt_info_schema t)\<rparr>,
      \<lambda>h. h\<lparr>hd_info_revision := revision (lt_info_schema t)\<rparr>,
      \<lambda>h. h\<lparr>hd_info_size := layout_u64 (size (lt_info_layout t))\<rparr>,
      \<lambda>h. h\<lparr>hd_info_align := layout_u64 (align (lt_info_layout t))\<rparr>,
      \<lambda>h. h\<lparr>hd_body_size := layout_u64 (size (lt_body_layout t))\<rparr>,
      \<lambda>h. h\<lparr>hd_body_align := layout_u64 (align (lt_body_layout t))\<rparr>,
      \<lambda>h. h\<lparr>hd_info := lt_info t conf ctx\<rparr>,
      \<lambda>h. h\<lparr>hd_inner := fst (lt_init t conf)\<rparr>]"

definition admit_init ::
    "('c, 'i, 'b) layout_trait \<Rightarrow> layout \<Rightarrow> 'c \<Rightarrow> layout_context \<Rightarrow> u8 option \<Rightarrow>
     (('i, 'b) rc_header, (unit, admit_error) result) prog" where
  "admit_init t l conf ctx slot =
     (let b = (case slot of None \<Rightarrow> 0 | Some s \<Rightarrow> member_bit s) in
      foldr store (header_writes t l conf ctx b)
       (if snd (lt_init t conf) \<noteq> Initialized then
          bind (drop_membership b) (\<lambda>_.
          store (set_status (status_u8 Status_Corrupted)) (Ret (Err InvalidHeader)))
        else store (set_status (status_u8 Initialized)) (Ret (Ok ()))))"

definition admit_attach ::
    "('c, 'i, 'b) layout_trait \<Rightarrow> nat \<Rightarrow> 'c \<Rightarrow> layout_context \<Rightarrow> u8 option \<Rightarrow>
     (('i, 'b) rc_header, (unit, admit_error) result) prog" where
  "admit_attach t addr conf ctx slot =
     bind (mismatch_at t addr conf ctx) (\<lambda>m. case m of
       Some f \<Rightarrow> Ret (Err (Mismatch f))
     | None \<Rightarrow> bind (claim_member slot) (\<lambda>c. case c of
         Err e \<Rightarrow> Ret (Err e)
       | Ok b \<Rightarrow> load hd_inner (\<lambda>inner. case lt_attach t inner conf of
           Initialized \<Rightarrow> Ret (Ok ())
         | Initializing \<Rightarrow> bind (drop_membership b) (\<lambda>_. Ret (Err Contention))
         | _ \<Rightarrow> bind (drop_membership b) (\<lambda>_. Ret (Err InvalidHeader)))))"

primrec admit_loop ::
    "nat \<Rightarrow> ('c, 'i, 'b) layout_trait \<Rightarrow> nat \<Rightarrow> layout \<Rightarrow> 'c \<Rightarrow> layout_context \<Rightarrow> u8 option \<Rightarrow>
     (('i, 'b) rc_header, (unit, admit_error) result) prog" where
  "admit_loop 0 t addr l conf ctx slot = Spin"
| "admit_loop (Suc fuel) t addr l conf ctx slot =
     load (rcd_status \<circ> hd_record) (\<lambda>s. case status_from_u8 s of
       Uninitialized \<Rightarrow>
         if \<not> allow_init ctx then Ret (Err (Mismatch State))
         else compare_exchange (rcd_status \<circ> hd_record) set_status
           (status_u8 Uninitialized) (status_u8 Initializing) (\<lambda>r. case r of
             Err _ \<Rightarrow> admit_loop fuel t addr l conf ctx slot
           | Ok _ \<Rightarrow> admit_init t l conf ctx slot)
     | Initializing \<Rightarrow> Ret (Err Contention)
     | Status_Corrupted \<Rightarrow> Ret (Err InvalidHeader)
     | Initialized \<Rightarrow> admit_attach t addr conf ctx slot)"

definition admit ::
    "nat \<Rightarrow> ('c, 'i, 'b) layout_trait \<Rightarrow> nat \<Rightarrow> 'c \<Rightarrow> layout_context \<Rightarrow> u8 option \<Rightarrow>
     (('i, 'b) rc_header, (unit, admit_error) result) prog" where
  "admit fuel t addr conf ctx slot = (case lt_storage t conf of
     None \<Rightarrow> Ret (Err InvalidHeader)
   | Some l \<Rightarrow> admit_loop fuel t addr l conf ctx slot)"

end
