(* ===== verification/Pool_Geometry.thy ===== *)
theory Pool_Geometry
  imports Header
begin

text \<open>
  The geometry of a pool, after \<open>src/pool.rs\<close>: size classes of blocks with doubling sizes, laid out behind the
  header of the pool, each with an array of control words and an array of payload blocks.
\<close>

abbreviation MIN_BLOCK :: nat where "MIN_BLOCK \<equiv> 64"
abbreviation DEFAULT_MAX :: nat where "DEFAULT_MAX \<equiv> 65536"

record block_range =
  range_min :: nat
  range_max :: nat

definition block_range_new :: "nat \<Rightarrow> nat \<Rightarrow> block_range option" where
  "block_range_new mn mx =
     (case checked_next_power_of_two (max mn MIN_BLOCK) of None \<Rightarrow> None
      | Some mn' \<Rightarrow> (case checked_next_power_of_two (max mx MIN_BLOCK) of None \<Rightarrow> None
        | Some mx' \<Rightarrow> if mn' \<le> mx' then Some \<lparr>range_min = mn', range_max = mx'\<rparr> else None))"

datatype pool_create_error = InvalidExtent | RequiredExtent nat nat | Storage

record pool_info =
  info_min :: u64
  info_base :: u64
  info_classes :: u64

record pool_config =
  conf_info :: pool_info
  conf_layout :: layout

record class_layout =
  cls_bytes :: nat
  cls_slots :: nat
  cls_controls :: nat
  cls_payload :: nat

definition control_offset :: "class_layout \<Rightarrow> nat \<Rightarrow> nat" where
  "control_offset c slot = cls_controls c + 4 * slot"

definition payload_offset :: "class_layout \<Rightarrow> nat \<Rightarrow> nat" where
  "payload_offset c slot = cls_payload c + slot * cls_bytes c"

record pool_geometry =
  geo_layout :: layout
  geo_classes :: "class_layout list"

text \<open>\<open>Info\<close> is three \<open>u64\<close>, and \<open>Storage\<close> is a unit struct.\<close>

definition pool_header_layout :: layout where
  "pool_header_layout = rc_header_layout \<lparr>size = 24, align = 8\<rparr> \<lparr>size = 0, align = 1\<rparr>"

definition build_class :: "nat \<Rightarrow> nat \<Rightarrow> nat \<Rightarrow> layout \<Rightarrow> (layout \<times> class_layout) option" where
  "build_class mn base index l =
     (case checked_shl_usize mn index of None \<Rightarrow> None | Some bytes \<Rightarrow>
      let slots = base div 2 ^ (index div 2) in
      case array_layout (int_layout 4) slots of None \<Rightarrow> None | Some cl \<Rightarrow>
      case layout_extend l cl of None \<Rightarrow> None | Some (next, controls) \<Rightarrow>
      case checked_mul_usize bytes slots of None \<Rightarrow> None | Some bytes_total \<Rightarrow>
      case from_size_align bytes_total bytes of None \<Rightarrow> None | Some pl \<Rightarrow>
      case layout_extend next pl of None \<Rightarrow> None | Some (next', payload) \<Rightarrow>
      Some (next', \<lparr>cls_bytes = bytes, cls_slots = slots, cls_controls = controls, cls_payload = payload\<rparr>))"

primrec build_from :: "nat \<Rightarrow> nat \<Rightarrow> nat list \<Rightarrow> layout \<Rightarrow> (layout \<times> class_layout list) option" where
  "build_from mn base [] l = Some (l, [])"
| "build_from mn base (index # rest) l = (case build_class mn base index l of None \<Rightarrow> None
     | Some (l', c) \<Rightarrow> map_option (\<lambda>(l'', cs). (l'', c # cs)) (build_from mn base rest l'))"

definition build :: "nat \<Rightarrow> nat \<Rightarrow> nat \<Rightarrow> (pool_geometry, pool_create_error) result" where
  "build mn count base = (case build_from mn base [0..<count] pool_header_layout of
     None \<Rightarrow> Err InvalidExtent
   | Some (l, cs) \<Rightarrow> Ok \<lparr>geo_layout = pad_to_align l, geo_classes = cs\<rparr>)"

text \<open>The largest base that still fits, by bisection.\<close>

definition fits :: "nat \<Rightarrow> nat \<Rightarrow> nat \<Rightarrow> nat \<Rightarrow> bool" where
  "fits mn count bound base =
     (case build mn count base of Ok g \<Rightarrow> size (geo_layout g) \<le> bound | Err _ \<Rightarrow> False)"

function bisect :: "(nat \<Rightarrow> bool) \<Rightarrow> nat \<Rightarrow> nat \<Rightarrow> nat" where
  "bisect ok lo hi =
     (if lo + 1 < hi then
        let middle = lo + (hi - lo) div 2 in
        if ok middle then bisect ok middle hi else bisect ok lo middle
      else lo)"
  by pat_completeness auto

termination
  by (relation "measure (\<lambda>(_, lo, hi). hi - lo)") auto

declare bisect.simps [simp del]

fun create_loop :: "nat \<Rightarrow> bool \<Rightarrow> nat \<Rightarrow> nat \<Rightarrow> (pool_geometry, pool_create_error) result" where
  "create_loop bound exact mn 0 = Err InvalidExtent"
| "create_loop bound exact mn (Suc count) =
     (case checked_shl_usize 64 (count div 2) of None \<Rightarrow> Err InvalidExtent | Some minimum \<Rightarrow>
      case build mn (Suc count) minimum of Err e \<Rightarrow> Err e | Ok required \<Rightarrow>
      if size (geo_layout required) \<le> bound then
        build mn (Suc count) (bisect (fits mn (Suc count) bound) minimum (bound div (MIN_BLOCK + 1) + 1))
      else if exact \<or> count = 0 then Err (RequiredExtent (size (geo_layout required)) bound)
      else create_loop bound exact mn count)"

definition geometry_create :: "nat \<Rightarrow> block_range option \<Rightarrow> (pool_geometry, pool_create_error) result" where
  "geometry_create bound limits =
     (let r = (case limits of Some r \<Rightarrow> r | None \<Rightarrow> \<lparr>range_min = MIN_BLOCK, range_max = DEFAULT_MAX\<rparr>) in
      create_loop bound (limits \<noteq> None) (range_min r) (ilog2 (range_max r) - ilog2 (range_min r) + 1))"

text \<open>\<open>None\<close> is the panic of indexing the first of no classes.\<close>

definition geometry_info :: "pool_geometry \<Rightarrow> pool_info option" where
  "geometry_info g = (case geo_classes g of [] \<Rightarrow> None
     | c # cs \<Rightarrow> Some \<lparr>info_min = of_nat (cls_bytes c), info_base = of_nat (cls_slots c),
         info_classes = of_nat (Suc (length cs))\<rparr>)"

definition recorded :: "pool_info \<Rightarrow> nat \<Rightarrow> pool_geometry option option" where
  "recorded info extent =
     (if 2 ^ 32 \<le> unat (info_classes info) then Some None
      else case build (unat (info_min info)) (unat (info_classes info)) (unat (info_base info)) of
        Err _ \<Rightarrow> Some None
      | Ok g \<Rightarrow>
          if size (geo_layout g) \<noteq> extent then Some None
          else map_option (\<lambda>i. if i = info then Some g else None) (geometry_info g))"

definition geometry_config :: "pool_geometry \<Rightarrow> pool_config option" where
  "geometry_config g = map_option (\<lambda>i. \<lparr>conf_info = i, conf_layout = geo_layout g\<rparr>) (geometry_info g)"

section \<open>Placement\<close>

lemma build_class_Some:
  assumes "build_class mn base index l = Some (l', c)"
  shows "index < 64" "cls_bytes c = mn * 2 ^ index mod USIZE" "cls_slots c = base div 2 ^ (index div 2)"
    and "size l \<le> cls_controls c" "4 dvd cls_controls c"
    and "cls_controls c + 4 * cls_slots c \<le> cls_payload c" "cls_bytes c dvd cls_payload c"
    and "cls_payload c + cls_slots c * cls_bytes c = size l'" "is_power_of_two (cls_bytes c)"
    and "align l' = max (max (align l) 4) (cls_bytes c)" "layout_ok l'"
    and "cls_controls c = align_up (size l) 4"
    and "cls_payload c = align_up (cls_controls c + 4 * cls_slots c) (cls_bytes c)"
proof -
  let ?slots = "base div 2 ^ (index div 2)"
  obtain bytes where bytes: "checked_shl_usize mn index = Some bytes"
    using assms unfolding build_class_def by (cases "checked_shl_usize mn index") auto
  with assms obtain cl nx ctl pl pay where
    cl: "array_layout (int_layout 4) ?slots = Some cl" and e1: "layout_extend l cl = Some (nx, ctl)"
    and pl: "from_size_align (bytes * ?slots) bytes = Some pl" and e2: "layout_extend nx pl = Some (l', pay)"
    and c: "c = \<lparr>cls_bytes = bytes, cls_slots = ?slots, cls_controls = ctl, cls_payload = pay\<rparr>"
    unfolding build_class_def Let_def by (auto simp: checked_mul_usize_def split: option.splits if_splits)
  show "index < 64" "cls_bytes c = mn * 2 ^ index mod USIZE" "cls_slots c = ?slots"
    using bytes c unfolding checked_shl_usize_def by (auto split: if_splits)
  have cl': "align cl = 4" "size cl = 4 * ?slots" and pl': "align pl = bytes" "size pl = bytes * ?slots" "layout_ok pl"
    using cl pl by (auto simp: array_layout_Some from_size_align_Some int_layout_def)
  have "0 < align pl" "0 < align cl"
    using layout_ok_align_pos [OF pl'(3)] cl' by auto
  note e1' = layout_extend_Some [OF e1 this(2)] and e2' = layout_extend_Some [OF e2 this(1)]
  show "size l \<le> cls_controls c" "4 dvd cls_controls c" "cls_controls c = align_up (size l) 4"
    using e1' cl' by (simp_all add: c)
  show "is_power_of_two (cls_bytes c)"
    using pl' by (simp add: c layout_ok_def)
  show "cls_controls c + 4 * cls_slots c \<le> cls_payload c" "cls_bytes c dvd cls_payload c"
    "cls_payload c + cls_slots c * cls_bytes c = size l'"
    "align l' = max (max (align l) 4) (cls_bytes c)" "layout_ok l'"
    "cls_payload c = align_up (cls_controls c + 4 * cls_slots c) (cls_bytes c)"
    using e1' e2' cl' pl' by (simp_all add: c mult.commute)
qed

text \<open>Classes in ascending order between two offsets, nothing overlapping.\<close>

primrec placed :: "nat \<Rightarrow> class_layout list \<Rightarrow> nat \<Rightarrow> bool" where
  "placed a [] b \<longleftrightarrow> a \<le> b"
| "placed a (c # cs) b \<longleftrightarrow> a \<le> cls_controls c \<and> 4 dvd cls_controls c \<and>
     cls_controls c + 4 * cls_slots c \<le> cls_payload c \<and> cls_bytes c dvd cls_payload c \<and>
     is_power_of_two (cls_bytes c) \<and> placed (cls_payload c + cls_slots c * cls_bytes c) cs b"

lemma build_from_Cons:
  assumes "build_from mn base (i # is) l = Some (l', cs)"
  obtains m c cs' where "build_class mn base i l = Some (m, c)" "build_from mn base is m = Some (l', cs')" "cs = c # cs'"
  using assms by (auto split: option.splits)

lemma build_from_placed:
  assumes "build_from mn base is l = Some (l', cs)"
  shows "placed (size l) cs (size l') \<and> length cs = length is \<and> align l \<le> align l' \<and>
    (\<forall>c\<in>set cs. cls_bytes c \<le> align l') \<and> (layout_ok l \<longrightarrow> layout_ok l')"
  using assms
proof (induction "is" arbitrary: l cs)
  case (Cons i "is")
  from Cons.prems obtain m c cs' where m: "build_class mn base i l = Some (m, c)"
      "build_from mn base is m = Some (l', cs')" "cs = c # cs'"
    by (rule build_from_Cons)
  note c = build_class_Some [OF m(1)]
  from Cons.IH [OF m(2)] show ?case
    using c by (auto simp: m(3))
qed simp

lemma placed_mono: "placed a cs b \<Longrightarrow> a' \<le> a \<Longrightarrow> b \<le> b' \<Longrightarrow> placed a' cs b'"
  by (induction cs arbitrary: a a') auto

lemma placed_bounds: "placed a cs b \<Longrightarrow> a \<le> b"
proof (induction cs arbitrary: a)
  case (Cons c cs)
  then have "cls_payload c + cls_slots c * cls_bytes c \<le> b"
    by simp
  with Cons.prems show ?case by simp
qed simp

lemma placed_nth:
  assumes "placed a cs b" "i < length cs"
  shows "a \<le> cls_controls (cs ! i)" "4 dvd cls_controls (cs ! i)"
    "cls_controls (cs ! i) + 4 * cls_slots (cs ! i) \<le> cls_payload (cs ! i)"
    "cls_bytes (cs ! i) dvd cls_payload (cs ! i)" "is_power_of_two (cls_bytes (cs ! i))"
    "placed (cls_payload (cs ! i) + cls_slots (cs ! i) * cls_bytes (cs ! i)) (drop (Suc i) cs) b"
proof -
  have "a \<le> cls_controls (cs ! i) \<and> 4 dvd cls_controls (cs ! i) \<and>
    cls_controls (cs ! i) + 4 * cls_slots (cs ! i) \<le> cls_payload (cs ! i) \<and>
    cls_bytes (cs ! i) dvd cls_payload (cs ! i) \<and> is_power_of_two (cls_bytes (cs ! i)) \<and>
    placed (cls_payload (cs ! i) + cls_slots (cs ! i) * cls_bytes (cs ! i)) (drop (Suc i) cs) b"
    using assms
  proof (induction cs arbitrary: a i)
    case (Cons c cs)
    then show ?case
    proof (cases i)
      case (Suc j)
      with Cons.IH [of "cls_payload c + cls_slots c * cls_bytes c" j] Cons.prems show ?thesis
        by (auto intro: order_trans)
    qed auto
  qed simp
  then show "a \<le> cls_controls (cs ! i)" "4 dvd cls_controls (cs ! i)"
    "cls_controls (cs ! i) + 4 * cls_slots (cs ! i) \<le> cls_payload (cs ! i)"
    "cls_bytes (cs ! i) dvd cls_payload (cs ! i)" "is_power_of_two (cls_bytes (cs ! i))"
    "placed (cls_payload (cs ! i) + cls_slots (cs ! i) * cls_bytes (cs ! i)) (drop (Suc i) cs) b"
    by blast+
qed

lemma placed_order:
  assumes "placed a cs b" "i < j" "j < length cs"
  shows "cls_payload (cs ! i) + cls_slots (cs ! i) * cls_bytes (cs ! i) \<le> cls_controls (cs ! j)"
  using placed_nth(1) [OF placed_nth(6) [OF assms(1), of i], of "j - Suc i"] assms(2,3) by simp

definition slot_ok :: "pool_geometry \<Rightarrow> nat \<Rightarrow> nat \<Rightarrow> bool" where
  "slot_ok g c s \<longleftrightarrow> c < length (geo_classes g) \<and> s < cls_slots (geo_classes g ! c)"

definition control_bytes :: "pool_geometry \<Rightarrow> nat \<Rightarrow> nat \<Rightarrow> nat set" where
  "control_bytes g c s = {control_offset (geo_classes g ! c) s ..< control_offset (geo_classes g ! c) s + 4}"

definition block_bytes :: "pool_geometry \<Rightarrow> nat \<Rightarrow> nat \<Rightarrow> nat set" where
  "block_bytes g c s =
     {payload_offset (geo_classes g ! c) s ..< payload_offset (geo_classes g ! c) s + cls_bytes (geo_classes g ! c)}"

lemma array_slot_range:
  assumes "s < n"
  shows "{b + s * k ..< b + s * k + k} \<subseteq> {b ..< b + n * k :: nat}"
proof -
  have "Suc s * k \<le> n * k"
    using assms by (intro mult_le_mono1) simp
  then show ?thesis by auto
qed

lemma array_slots_disjoint:
  assumes "s \<noteq> s'"
  shows "{b + s * k ..< b + s * k + k} \<inter> {b + s' * k ..< b + s' * k + k :: nat} = {}"
proof -
  have "Suc s * k \<le> s' * k \<or> Suc s' * k \<le> s * k"
    using assms by (metis Suc_leI linorder_neq_iff mult_le_mono1)
  then show ?thesis by auto
qed

lemma geometry_ranges:
  assumes "placed a (geo_classes g) b" "slot_ok g c s"
  shows "control_bytes g c s \<subseteq> {cls_controls (geo_classes g ! c) ..< cls_payload (geo_classes g ! c)}"
    and "block_bytes g c s \<subseteq> {cls_payload (geo_classes g ! c) ..<
      cls_payload (geo_classes g ! c) + cls_slots (geo_classes g ! c) * cls_bytes (geo_classes g ! c)}"
  using placed_nth [OF assms(1), of c] assms(2)
    array_slot_range [of s "cls_slots (geo_classes g ! c)" "cls_controls (geo_classes g ! c)" 4]
    array_slot_range [of s "cls_slots (geo_classes g ! c)" "cls_payload (geo_classes g ! c)" "cls_bytes (geo_classes g ! c)"]
  by (auto simp: slot_ok_def control_bytes_def block_bytes_def control_offset_def payload_offset_def mult.commute)

lemma pool_header_value: "pool_header_layout = \<lparr>size = 160, align = 8\<rparr>"
  by code_simp

lemma pool_header_ok: "layout_ok pool_header_layout"
  unfolding pool_header_value layout_ok_def is_power_of_two_iff by (simp add: exI [of _ 3])

lemma build_placed:
  assumes "build mn count base = Ok g"
  shows "placed (size pool_header_layout) (geo_classes g) (size (geo_layout g))" "length (geo_classes g) = count"
    "c \<in> set (geo_classes g) \<Longrightarrow> cls_bytes c dvd align (geo_layout g)"
    "is_power_of_two (align (geo_layout g))" "align (geo_layout g) dvd size (geo_layout g)"
proof -
  obtain l cs where l: "build_from mn base [0..<count] pool_header_layout = Some (l, cs)"
    and g: "g = \<lparr>geo_layout = pad_to_align l, geo_classes = cs\<rparr>"
    using assms by (auto simp: build_def split: option.splits)
  note hd = pool_header_ok
  note b = build_from_placed [OF l]
  from b hd have ok: "is_power_of_two (align l)"
    by (simp add: layout_ok_def)
  then have pos: "0 < align l"
    by (simp add: is_power_of_two_def)
  from b show "placed (size pool_header_layout) (geo_classes g) (size (geo_layout g))"
    using pad_to_align_ge [OF pos] by (auto simp: g intro: placed_mono)
  from b show "length (geo_classes g) = count"
    by (simp add: g)
  from ok show "is_power_of_two (align (geo_layout g))" "align (geo_layout g) dvd size (geo_layout g)"
    using pad_to_align_simps(2) [of l] by (simp_all add: g)
  assume c: "c \<in> set (geo_classes g)"
  then have "is_power_of_two (cls_bytes c)"
    using b placed_nth(5) by (fastforce simp: g in_set_conv_nth)
  with ok b c show "cls_bytes c dvd align (geo_layout g)"
    by (auto simp: g intro: power_of_two_dvd)
qed

lemma placed_disjoint:
  assumes "placed a (geo_classes g) b" "slot_ok g c s" "slot_ok g c' s'"
  shows "block_bytes g c s \<inter> control_bytes g c' s' = {}"
    and "(c, s) \<noteq> (c', s') \<Longrightarrow> block_bytes g c s \<inter> block_bytes g c' s' = {}"
    and "(c, s) \<noteq> (c', s') \<Longrightarrow> control_bytes g c s \<inter> control_bytes g c' s' = {}"
proof -
  let ?cs = "geo_classes g"
  note p = assms(1)
  have len: "c < length ?cs" "c' < length ?cs"
    using assms(2,3) by (simp_all add: slot_ok_def)
  note n = placed_nth [OF p len(1)] and n' = placed_nth [OF p len(2)]
  note r = geometry_ranges [OF p assms(2)] and r' = geometry_ranges [OF p assms(3)]
  have order: "cls_payload (?cs ! c) + cls_slots (?cs ! c) * cls_bytes (?cs ! c) \<le> cls_controls (?cs ! c')" if "c < c'"
    using placed_order [OF p that len(2)] .
  have order': "cls_payload (?cs ! c') + cls_slots (?cs ! c') * cls_bytes (?cs ! c') \<le> cls_controls (?cs ! c)" if "c' < c"
    using placed_order [OF p that len(1)] .
  show "block_bytes g c s \<inter> control_bytes g c' s' = {}"
    using r r' n(3) n'(3) order order' by (cases c c' rule: linorder_cases) fastforce+
  assume ne: "(c, s) \<noteq> (c', s')"
  show "block_bytes g c s \<inter> block_bytes g c' s' = {}"
  proof (cases "c = c'")
    case True
    with ne array_slots_disjoint [of s s'] show ?thesis
      by (simp add: block_bytes_def payload_offset_def)
  next
    case False
    then show ?thesis
      using r r' n(3) n'(3) order order' by (cases c c' rule: linorder_cases) fastforce+
  qed
  show "control_bytes g c s \<inter> control_bytes g c' s' = {}"
  proof (cases "c = c'")
    case True
    with ne array_slots_disjoint [of s s' "cls_controls (?cs ! c)" 4] show ?thesis
      by (simp add: control_bytes_def control_offset_def mult.commute)
  next
    case False
    then show ?thesis
      using r r' n(3) n'(3) order order' by (cases c c' rule: linorder_cases) fastforce+
  qed
qed

text \<open>
  C19. In every geometry that is built, the control words and the payload blocks of all
  slots of all classes are pairwise disjoint, lie between the header and the end of the layout, and are
  aligned: a block to its own size, which the alignment of the whole layout is a multiple of.
\<close>

theorem pool_geometry_disjoint:
  assumes "build mn count base = Ok g" and "slot_ok g c s" and "slot_ok g c' s'"
  shows "block_bytes g c s \<inter> control_bytes g c' s' = {} \<and>
    ((c, s) \<noteq> (c', s') \<longrightarrow> block_bytes g c s \<inter> block_bytes g c' s' = {} \<and>
      control_bytes g c s \<inter> control_bytes g c' s' = {}) \<and>
    control_bytes g c s \<union> block_bytes g c s \<subseteq> {size pool_header_layout ..< size (geo_layout g)} \<and>
    4 dvd control_offset (geo_classes g ! c) s \<and>
    cls_bytes (geo_classes g ! c) dvd payload_offset (geo_classes g ! c) s \<and>
    cls_bytes (geo_classes g ! c) dvd align (geo_layout g)"
proof -
  let ?cs = "geo_classes g"
  note p = build_placed(1) [OF assms(1)]
  have len: "c < length ?cs"
    using assms(2) by (simp add: slot_ok_def)
  note n = placed_nth [OF p len]
  have "control_bytes g c s \<union> block_bytes g c s \<subseteq> {size pool_header_layout ..< size (geo_layout g)}"
    using geometry_ranges [OF p assms(2)] n(1,3) placed_bounds [OF n(6)] by fastforce
  then show ?thesis
    using placed_disjoint [OF p assms(2,3)] n(2,4) build_placed(3) [OF assms(1) nth_mem [OF len]]
    by (auto simp: control_offset_def payload_offset_def)
qed

section \<open>The largest geometry that fits\<close>

lemma build_class_less:
  assumes "build_class mn base i l = Some (m, c)" "base' \<le> base" "size l' \<le> size l" "align l' = align l"
  obtains m' c' where "build_class mn base' i l' = Some (m', c')" "size m' \<le> size m" "align m' = align m"
proof -
  let ?slots = "base div 2 ^ (i div 2)" and ?slots' = "base' div 2 ^ (i div 2)"
  have slots: "?slots' \<le> ?slots"
    using assms(2) by (rule div_le_mono)
  obtain bytes where bytes: "checked_shl_usize mn i = Some bytes"
    using assms(1) unfolding build_class_def by (cases "checked_shl_usize mn i") auto
  with assms(1) obtain cl nx ctl pl pay where
    cl: "array_layout (int_layout 4) ?slots = Some cl" and e1: "layout_extend l cl = Some (nx, ctl)"
    and small: "bytes * ?slots < USIZE"
    and pl: "from_size_align (bytes * ?slots) bytes = Some pl" and e2: "layout_extend nx pl = Some (m, pay)"
    unfolding build_class_def Let_def by (auto simp: checked_mul_usize_def split: option.splits if_splits)
  have less: "bytes * ?slots' \<le> bytes * ?slots"
    using slots by (rule mult_le_mono2)
  note cl' = array_layout_less [OF cl slots] and pl' = from_size_align_less [OF pl less]
  let ?cl = "\<lparr>size = size (int_layout 4) * ?slots', align = align (int_layout 4)\<rparr>"
    and ?pl = "\<lparr>size = bytes * ?slots', align = bytes\<rparr>"
  have "size ?cl \<le> size cl" "align ?cl = align cl" "size ?pl \<le> size pl" "align ?pl = align pl"
    using cl pl slots less by (auto simp: array_layout_Some from_size_align_Some)
  note smaller = this
  obtain nx' ctl' where e1': "layout_extend l' ?cl = Some (nx', ctl')" and nx: "size nx' \<le> size nx" "align nx' = align nx"
    by (rule layout_extend_less [OF e1 assms(3,4) smaller(1,2)])
  obtain m' pay' where "layout_extend nx' ?pl = Some (m', pay')" "size m' \<le> size m" "align m' = align m"
    by (rule layout_extend_less [OF e2 nx smaller(3,4)])
  moreover have "\<not> USIZE \<le> bytes * ?slots'"
    using small less by linarith
  ultimately show thesis
    using that cl' pl' e1' bytes unfolding build_class_def Let_def by (simp add: checked_mul_usize_def)
qed

lemma build_from_less:
  assumes "build_from mn base is l = Some (m, cs)" "base' \<le> base" "size l' \<le> size l" "align l' = align l"
  shows "\<exists>m' cs'. build_from mn base' is l' = Some (m', cs') \<and> size m' \<le> size m \<and> align m' = align m"
  using assms
proof (induction "is" arbitrary: l l' cs)
  case (Cons i "is")
  from Cons.prems(1) obtain n c cs1 where n: "build_class mn base i l = Some (n, c)"
      "build_from mn base is n = Some (m, cs1)"
    by (rule build_from_Cons)
  obtain n' c' where n': "build_class mn base' i l' = Some (n', c')" "size n' \<le> size n" "align n' = align n"
    by (rule build_class_less [OF n(1) Cons.prems(2-4)])
  from Cons.IH [OF n(2) Cons.prems(2) n'(2,3)] n'(1) show ?case
    by auto
qed simp

lemma fits_less:
  assumes "fits mn count bound base" "base' \<le> base"
  shows "fits mn count bound base'"
proof -
  from assms(1) obtain m cs where m: "build_from mn base [0..<count] pool_header_layout = Some (m, cs)"
      "size (pad_to_align m) \<le> bound"
    by (auto simp: fits_def build_def split: result.splits option.splits)
  from build_from_less [OF m(1) assms(2) order_refl refl] obtain m' cs' where
      m': "build_from mn base' [0..<count] pool_header_layout = Some (m', cs')" "size m' \<le> size m" "align m' = align m"
    by blast
  have "size (pad_to_align m') \<le> size (pad_to_align m)"
    using m'(2,3) by (auto simp: pad_to_align_def align_up_def intro!: mult_le_mono1 div_le_mono)
  with m m'(1) show ?thesis
    by (simp add: fits_def build_def)
qed

lemma fits_bounded:
  assumes "fits mn (Suc count) bound base" "MIN_BLOCK \<le> mn" "mn < USIZE"
  shows "base < bound div (MIN_BLOCK + 1) + 1"
proof -
  from assms(1) obtain g where g: "build mn (Suc count) base = Ok g" "size (geo_layout g) \<le> bound"
    by (auto simp: fits_def split: result.splits)
  then obtain c cs m where c: "geo_classes g = c # cs" "build_class mn base 0 pool_header_layout = Some (m, c)"
    by (auto simp: build_def upt_conv_Cons simp del: upt_Suc split: option.splits)
  have "cls_bytes c = mn" "cls_slots c = base"
    using build_class_Some(2,3) [OF c(2)] assms(3) by simp_all
  with build_placed(1) [OF g(1)] have "placed (cls_payload c + base * mn) cs (size (geo_layout g))"
    by (simp add: c(1))
  then have "base * mn \<le> bound" "cls_payload c + base * mn \<le> bound"
    using placed_bounds g(2) by fastforce+
  moreover have "4 * base \<le> cls_payload c"
    using build_class_Some(6) [OF c(2)] \<open>cls_slots c = base\<close> by simp
  moreover have "base * MIN_BLOCK \<le> base * mn"
    using assms(2) by (rule mult_le_mono2)
  moreover have "base * (MIN_BLOCK + 1) = base * MIN_BLOCK + base"
    by (simp only: distrib_left mult_1_right)
  ultimately have "base * (MIN_BLOCK + 1) \<le> bound"
    by linarith
  then have "base \<le> bound div (MIN_BLOCK + 1)"
    by (simp add: less_eq_div_iff_mult_less_eq)
  then show ?thesis by simp
qed

lemma bisect_max:
  assumes "\<And>x y. ok y \<Longrightarrow> x \<le> y \<Longrightarrow> ok x" "ok lo" "\<not> ok hi" "lo < hi"
  shows "ok (bisect ok lo hi) \<and> \<not> ok (Suc (bisect ok lo hi)) \<and> lo \<le> bisect ok lo hi"
  using assms(2-4)
proof (induction ok lo hi rule: bisect.induct)
  case (1 ok lo hi)
  let ?m = "lo + (hi - lo) div 2"
  show ?case
  proof (cases "lo + 1 < hi")
    case True
    then have "lo \<le> ?m" "lo < ?m" "?m < hi"
      by auto
    then show ?thesis
      using 1 True by (subst (1 2 3) bisect.simps) (auto simp: Let_def)
  next
    case False
    with 1(5) have "hi = Suc lo" by simp
    with 1(3,4) False show ?thesis
      by (subst (1 2 3) bisect.simps) simp
  qed
qed

definition create_minimum :: "nat \<Rightarrow> nat" where
  "create_minimum count = MIN_BLOCK * 2 ^ ((count - 1) div 2) mod USIZE"

lemma create_loop_Ok:
  assumes "create_loop bound exact mn wanted = Ok g" "MIN_BLOCK \<le> mn" "mn < USIZE"
  shows "\<exists>count base. 0 < count \<and> count \<le> wanted \<and> (exact \<longrightarrow> count = wanted) \<and> build mn count base = Ok g \<and>
    create_minimum count \<le> base \<and> fits mn count bound base \<and> (\<forall>base' > base. \<not> fits mn count bound base') \<and>
    (\<forall>k. count < k \<and> k \<le> wanted \<longrightarrow> \<not> fits mn k bound (create_minimum k))"
  using assms(1)
proof (induction wanted)
  case (Suc count)
  let ?min = "create_minimum (Suc count)" and ?hi = "bound div (MIN_BLOCK + 1) + 1"
    and ?fits = "fits mn (Suc count) bound"
  have min: "checked_shl_usize MIN_BLOCK (count div 2) = Some ?min"
    using Suc.prems by (auto simp: checked_shl_usize_def create_minimum_def split: option.splits if_splits)
  show ?case
  proof (cases "?fits ?min")
    case True
    then have "?min < ?hi" "\<not> ?fits ?hi"
      using fits_bounded [OF _ assms(2,3)] by blast+
    then have b: "?fits (bisect ?fits ?min ?hi) \<and> \<not> ?fits (Suc (bisect ?fits ?min ?hi)) \<and> ?min \<le> bisect ?fits ?min ?hi"
      using True fits_less by (intro bisect_max) auto
    have "build mn (Suc count) (bisect ?fits ?min ?hi) = Ok g"
      using Suc.prems True min by (auto simp: fits_def split: result.splits)
    moreover have "\<not> ?fits base'" if "bisect ?fits ?min ?hi < base'" for base'
      using b fits_less [of mn "Suc count" bound base' "Suc (bisect ?fits ?min ?hi)"] that by auto
    ultimately show ?thesis
      using b by (intro exI [of _ "bisect ?fits ?min ?hi", THEN exI [of _ "Suc count"]]) auto
  next
    case False
    with Suc.prems min have "create_loop bound exact mn count = Ok g" "\<not> exact"
      by (auto simp: fits_def split: result.splits if_splits)
    from Suc.IH [OF this(1)] obtain n base where
      n: "0 < n" "n \<le> count" "build mn n base = Ok g" "create_minimum n \<le> base" "fits mn n bound base"
        "\<forall>base' > base. \<not> fits mn n bound base'" "\<forall>k. n < k \<and> k \<le> count \<longrightarrow> \<not> fits mn k bound (create_minimum k)"
      by blast
    have "\<forall>k. n < k \<and> k \<le> Suc count \<longrightarrow> \<not> fits mn k bound (create_minimum k)"
      using n(7) False le_Suc_eq by blast
    with n \<open>\<not> exact\<close> show ?thesis
      by (intro exI [of _ n] exI [of _ base]) simp
  qed
qed simp

text \<open>
  C20. A geometry that \<open>create\<close> returns fits the bound, and it is the largest one: it has
  as many classes as the range asks for, or, when the range is the default, as many as can hold their minimal
  number of slots; and no larger base with these classes fits. The bisection that finds it terminates.
\<close>

theorem geometry_create_maximal:
  assumes "geometry_create bound limits = Ok g"
    and "limits = None \<or> limits = Some r \<and> MIN_BLOCK \<le> range_min r \<and> range_min r < USIZE"
  shows "\<exists>mn wanted count base.
    (mn, wanted) = (case limits of None \<Rightarrow> (MIN_BLOCK, 11)
       | Some r \<Rightarrow> (range_min r, ilog2 (range_max r) - ilog2 (range_min r) + 1)) \<and>
    build mn count base = Ok g \<and> 0 < count \<and> count \<le> wanted \<and> (limits \<noteq> None \<longrightarrow> count = wanted) \<and>
    size (geo_layout g) \<le> bound \<and> (\<forall>base' > base. \<not> fits mn count bound base') \<and>
    (\<forall>k. count < k \<and> k \<le> wanted \<longrightarrow> \<not> fits mn k bound (create_minimum k))"
proof -
  have logs: "ilog2 DEFAULT_MAX = 16" "ilog2 MIN_BLOCK = 6"
    using ilog2_power [of 16] ilog2_power [of 6] by simp_all
  obtain mn wanted where mt: "(mn, wanted) = (case limits of None \<Rightarrow> (MIN_BLOCK, 11)
       | Some r \<Rightarrow> (range_min r, ilog2 (range_max r) - ilog2 (range_min r) + 1))"
    by (cases limits) auto
  then have "create_loop bound (limits \<noteq> None) mn wanted = Ok g" "MIN_BLOCK \<le> mn" "mn < USIZE"
    using assms logs by (auto simp: geometry_create_def Let_def simp del: create_loop.simps split: option.splits)
  from create_loop_Ok [OF this] obtain count base where
    c: "0 < count" "count \<le> wanted" "limits \<noteq> None \<longrightarrow> count = wanted" "build mn count base = Ok g"
      "fits mn count bound base" "\<forall>base' > base. \<not> fits mn count bound base'"
      "\<forall>k. count < k \<and> k \<le> wanted \<longrightarrow> \<not> fits mn k bound (create_minimum k)"
    by blast
  moreover have "size (geo_layout g) \<le> bound"
    using c(4,5) by (simp add: fits_def)
  ultimately show ?thesis
    using mt by blast
qed

text \<open>
  C21. The information that a pool records in its header, with the extent of its layout, gives
  back exactly the geometry it was built with.
\<close>

theorem recorded_roundtrip:
  assumes "build mn count base = Ok g" and "0 < count" and "count < 2 ^ 32" and "mn < USIZE" and "base < USIZE"
  shows "\<exists>info. geometry_info g = Some info \<and> recorded info (size (geo_layout g)) = Some (Some g)"
proof -
  obtain l cs where l: "build_from mn base [0..<count] pool_header_layout = Some (l, cs)" "geo_classes g = cs"
    using assms(1) by (auto simp: build_def split: option.splits)
  have "build_from mn base (0 # [1..<count]) pool_header_layout = Some (l, cs)"
    using l(1) assms(2) by (simp add: upt_conv_Cons)
  then obtain m c cs' where c: "cs = c # cs'" "build_class mn base 0 pool_header_layout = Some (m, c)"
    by (rule build_from_Cons)
  have "cls_bytes c = mn" "cls_slots c = base"
    using build_class_Some(2,3) [OF c(2)] assms(4) by simp_all
  moreover have "Suc (length cs') = count"
    using build_placed(2) [OF assms(1)] l(2) c(1) by simp
  ultimately have "geometry_info g = Some \<lparr>info_min = of_nat mn, info_base = of_nat base, info_classes = of_nat count\<rparr>"
    using l(2) c(1) by (auto simp: geometry_info_def simp flip: of_nat_Suc)
  moreover have "unat (of_nat mn :: u64) = mn" "unat (of_nat base :: u64) = base" "unat (of_nat count :: u64) = count"
    using assms(3-5) by (simp_all add: unat_of_nat)
  ultimately show ?thesis
    using assms(1,3) by (simp add: recorded_def)
qed

definition demo_geometry :: pool_geometry where
  "demo_geometry = \<lparr>geo_layout = \<lparr>size = 640, align = 128\<rparr>, geo_classes =
     [\<lparr>cls_bytes = 64, cls_slots = 2, cls_controls = 160, cls_payload = 192\<rparr>,
      \<lparr>cls_bytes = 128, cls_slots = 2, cls_controls = 320, cls_payload = 384\<rparr>]\<rparr>"

lemma demo_geometry_built: "build 64 2 2 = Ok demo_geometry"
  by code_simp

theorem pool_geometry_disjoint_witness:
  "block_bytes demo_geometry 0 1 \<inter> block_bytes demo_geometry 1 0 = {} \<and>
   block_bytes demo_geometry 0 1 \<inter> control_bytes demo_geometry 1 0 = {}"
  using pool_geometry_disjoint [OF demo_geometry_built, of 0 1 1 0]
  by (simp add: slot_ok_def demo_geometry_def)

theorem recorded_roundtrip_witness:
  "\<exists>info. geometry_info demo_geometry = Some info \<and>
     recorded info (size (geo_layout demo_geometry)) = Some (Some demo_geometry)"
  using recorded_roundtrip [OF demo_geometry_built] by simp

definition small_pool :: pool_geometry where
  "small_pool = \<lparr>geo_layout = \<lparr>size = 4608, align = 64\<rparr>, geo_classes =
     [\<lparr>cls_bytes = 64, cls_slots = 65, cls_controls = 160, cls_payload = 448\<rparr>]\<rparr>"

lemma power_of_two_numerals: "is_power_of_two 4" "is_power_of_two 8" "is_power_of_two 64"
  unfolding is_power_of_two_iff by (rule exI [of _ 2] exI [of _ 3] exI [of _ 6], simp)+

lemma align_up_fixed:
  assumes "0 < a" "a dvd n"
  shows "align_up n a = n"
proof -
  have "a dvd align_up n a - n"
    using assms(2) by (intro dvd_diff_nat) simp_all
  moreover have "align_up n a - n < a"
    using align_up_less [OF assms(1), of n] align_up_ge [OF assms(1), of n] by linarith
  ultimately show ?thesis
    using align_up_ge [OF assms(1), of n] nat_dvd_not_less [of "align_up n a - n" a] by linarith
qed

lemma build_small_pool:
  assumes "n \<le> 100"
  shows "build 64 1 n = Ok \<lparr>geo_layout = \<lparr>size = align_up (160 + 4 * n) 64 + 64 * n, align = 64\<rparr>,
    geo_classes = [\<lparr>cls_bytes = 64, cls_slots = n, cls_controls = 160, cls_payload = align_up (160 + 4 * n) 64\<rparr>]\<rparr>"
proof -
  have "align_up (160 + 4 * n) 64 < 1000"
    using align_up_less [of 64 "160 + 4 * n"] assms by simp
  moreover have "align_up (align_up (160 + 4 * n) 64 + 64 * n) 64 = align_up (160 + 4 * n) 64 + 64 * n"
    by (intro align_up_fixed dvd_add) simp_all
  ultimately show ?thesis
    using assms
    by (simp add: build_def build_class_def checked_shl_usize_def checked_mul_usize_def array_layout_def int_layout_def
        from_size_align_def power_of_two_numerals layout_extend_def pool_header_value pad_to_align_def align_up_def [of 160] Let_def)
qed

lemma create_small_pool: "geometry_create 4620 (Some \<lparr>range_min = 64, range_max = 64\<rparr>) = Ok small_pool"
  using build_small_pool
  by (simp add: geometry_create_def Let_def checked_shl_usize_def bisect.simps fits_def small_pool_def align_up_def)

theorem geometry_create_maximal_witness:
  "geometry_create 4620 (Some \<lparr>range_min = 64, range_max = 64\<rparr>) = Ok small_pool \<and>
   (\<exists>base. build 64 1 base = Ok small_pool \<and> (\<forall>base' > base. \<not> fits 64 1 4620 base'))"
proof -
  from geometry_create_maximal [OF create_small_pool, of "\<lparr>range_min = 64, range_max = 64\<rparr>"] create_small_pool show ?thesis
    by auto
qed

end
