(* ===== verification/Pool.thy ===== *)
theory Pool
  imports Pool_Geometry Atomic
begin

text \<open>
  The block pool of \<open>src/pool.rs\<close>: the authority word of a slot, and every operation on it as a program over the
  control words of a pool. A control word names the generation of its slot and who may use and free it:
  nobody, one participant, or whoever holds the token of a detached block.
\<close>

section \<open>Authority words\<close>

abbreviation OWNER_MASK :: u32 where "OWNER_MASK \<equiv> 63"
abbreviation ALLOCATED :: u32 where "ALLOCATED \<equiv> 64"
abbreviation GENERATION_SHIFT :: nat where "GENERATION_SHIFT \<equiv> 7"
abbreviation MAX_GENERATION :: u32 where "MAX_GENERATION \<equiv> 0x1ffffff"

definition state_free :: "u32 \<Rightarrow> u32" where
  "state_free g = push_bit GENERATION_SHIFT g"

definition state_local :: "u32 \<Rightarrow> u8 \<Rightarrow> u32 option" where
  "state_local g own =
     (if MAX_GENERATION < g \<or> PARTICIPANT_CAPACITY \<le> unat own then None
      else Some (push_bit GENERATION_SHIFT g OR ALLOCATED OR (ucast own + 1)))"

definition state_detached :: "u32 \<Rightarrow> u32" where
  "state_detached g = push_bit GENERATION_SHIFT g OR ALLOCATED"

definition state_generation :: "u32 \<Rightarrow> u32" where
  "state_generation w = drop_bit GENERATION_SHIFT w"

definition state_owner :: "u32 \<Rightarrow> u8 option" where
  "state_owner w = (let own = w AND OWNER_MASK in if own = 0 then None else Some (ucast (own - 1)))"

definition state_allocated :: "u32 \<Rightarrow> bool" where
  "state_allocated w \<longleftrightarrow> w AND ALLOCATED \<noteq> 0"

definition state_canonical :: "u32 \<Rightarrow> bool" where
  "state_canonical w \<longleftrightarrow> state_allocated w \<or> state_owner w = None"

section \<open>The shared part of a pool\<close>

text \<open>
  The control words by class and slot, and what the payload blocks hold. A block holds the list of values that
  was written to it, one value for a sized type; \<open>None\<close> is uninitialised memory.
\<close>

record 'v pool_store =
  controls :: "u32 list list"
  blocks :: "nat \<Rightarrow> nat \<Rightarrow> 'v list option"

definition ctl :: "nat \<Rightarrow> nat \<Rightarrow> 'v pool_store \<Rightarrow> u32" where
  "ctl c s st = controls st ! c ! s"

definition set_ctl :: "nat \<Rightarrow> nat \<Rightarrow> u32 \<Rightarrow> 'v pool_store \<Rightarrow> 'v pool_store" where
  "set_ctl c s w st = st\<lparr>controls := (controls st)[c := (controls st ! c)[s := w]]\<rparr>"

definition set_block :: "nat \<Rightarrow> nat \<Rightarrow> 'v list \<Rightarrow> 'v pool_store \<Rightarrow> 'v pool_store" where
  "set_block c s vs st = st\<lparr>blocks := (blocks st)(c := (blocks st c)(s := Some vs))\<rparr>"

definition store_new :: "pool_geometry \<Rightarrow> 'v pool_store" where
  "store_new g = \<lparr>controls = map (\<lambda>c. replicate (cls_slots c) (state_free 0)) (geo_classes g), blocks = (\<lambda>_ _. None)\<rparr>"

record pool_ref =
  ref_geometry :: pool_geometry
  ref_id :: layout_id
  ref_owner :: u8

record allocation =
  al_class :: nat
  al_slot :: nat
  al_generation :: u32
  al_live :: bool

definition allocation_empty :: allocation where
  "allocation_empty = \<lparr>al_class = 0, al_slot = 0, al_generation = 0, al_live = False\<rparr>"

datatype 'a pool_reserve_error = BlockTooLarge 'a | Unavailable 'a

datatype adopt_error = Adopt_Pool | Adopt_Span | Adopt_Type | Adopt_Owned

text \<open>Where a block's pointer points: its alignment for an empty block, or an offset from the pool.\<close>

datatype pointer = Dangling nat | Offset_Of nat

section \<open>Reserving\<close>

primrec claim_probes :: "pool_ref \<Rightarrow> nat \<Rightarrow> nat list \<Rightarrow> ('v pool_store, allocation option) prog" where
  "claim_probes r index [] = Ret None"
| "claim_probes r index (slot # slots) =
     load (ctl index slot) (\<lambda>free.
     let generation = saturating_add (state_generation free) 1 in
     case state_local generation (ref_owner r) of
       None \<Rightarrow> claim_probes r index slots
     | Some own \<Rightarrow>
         if state_canonical free \<and> \<not> state_allocated free \<and> state_generation free < MAX_GENERATION then
           compare_exchange (ctl index slot) (set_ctl index slot) free own (\<lambda>res. case res of
             Ok _ \<Rightarrow> Ret (Some \<lparr>al_class = index, al_slot = slot, al_generation = generation, al_live = True\<rparr>)
           | Err _ \<Rightarrow> claim_probes r index slots)
         else claim_probes r index slots)"

definition probe_order :: "nat \<Rightarrow> nat \<Rightarrow> nat list" where
  "probe_order index slots =
     (let start = (index * 0x9e37 mod USIZE) mod slots in map (\<lambda>probe. (start + probe) mod slots) [0..<slots])"

lemma probe_order_code [code]:
  "probe_order index slots =
     (let start = nat (int index * 0x9e37 mod 18446744073709551616 mod int slots) in
      map (\<lambda>probe. (start + probe) mod slots) [0..<slots])"
proof -
  have "int (index * 0x9e37 mod USIZE mod slots) = int index * 0x9e37 mod 18446744073709551616 mod int slots"
    by (simp add: zmod_int)
  then show ?thesis
    unfolding probe_order_def Let_def by (metis nat_int)
qed

primrec claim_classes :: "pool_ref \<Rightarrow> nat list \<Rightarrow> ('v pool_store, allocation option) prog" where
  "claim_classes r [] = Ret None"
| "claim_classes r (index # rest) =
     (let slots = cls_slots (geo_classes (ref_geometry r) ! index) in
      if slots = 0 then Panic
      else bind (claim_probes r index (probe_order index slots)) (\<lambda>a. case a of
        Some a \<Rightarrow> Ret (Some a) | None \<Rightarrow> claim_classes r rest))"

definition pool_claim ::
    "pool_ref \<Rightarrow> layout \<Rightarrow> ('v pool_store, (allocation \<times> pointer, unit pool_reserve_error) result) prog" where
  "pool_claim r l =
     (if size l = 0 then Ret (Ok (allocation_empty, Dangling (align l)))
      else case checked_next_power_of_two (max (size l) (align l)) of
        None \<Rightarrow> Ret (Err (BlockTooLarge ()))
      | Some needed \<Rightarrow> (case geo_classes (ref_geometry r) of
          [] \<Rightarrow> Panic
        | c # _ \<Rightarrow>
            let preferred = ilog2 (max needed (cls_bytes c)) - ilog2 (cls_bytes c);
                count = length (geo_classes (ref_geometry r)) in
            if count \<le> preferred then Ret (Err (BlockTooLarge ()))
            else bind (claim_classes r [preferred..<count]) (\<lambda>a. case a of
              None \<Rightarrow> Ret (Err (Unavailable ()))
            | Some a \<Rightarrow> Ret (Ok (a, Offset_Of
                (payload_offset (geo_classes (ref_geometry r) ! al_class a) (al_slot a)))))))"

text \<open>\<open>Vacant::write\<close>: a block without storage has nothing to write.\<close>

definition write_block :: "allocation \<Rightarrow> 'v list \<Rightarrow> ('v pool_store, 'a) prog \<Rightarrow> ('v pool_store, 'a) prog" where
  "write_block a vs k = (if al_live a then store (set_block (al_class a) (al_slot a) vs) k else k)"

definition pool_put ::
    "pool_ref \<Rightarrow> layout \<Rightarrow> 'v \<Rightarrow> ('v pool_store, (allocation \<times> pointer, 'v pool_reserve_error) result) prog" where
  "pool_put r l v = bind (pool_claim r l) (\<lambda>res. case res of
     Ok (a, p) \<Rightarrow> write_block a [v] (Ret (Ok (a, p)))
   | Err (BlockTooLarge _) \<Rightarrow> Ret (Err (BlockTooLarge v))
   | Err (Unavailable _) \<Rightarrow> Ret (Err (Unavailable v)))"

definition reserve_slice ::
    "pool_ref \<Rightarrow> layout \<Rightarrow> nat \<Rightarrow> ('v pool_store, (allocation \<times> pointer, unit pool_reserve_error) result) prog" where
  "reserve_slice r elem len = (case array_layout elem len of
     None \<Rightarrow> Ret (Err (BlockTooLarge ())) | Some l \<Rightarrow> pool_claim r l)"

definition pool_init ::
    "pool_ref \<Rightarrow> layout \<Rightarrow> nat \<Rightarrow> (nat \<Rightarrow> 'v) \<Rightarrow>
     ('v pool_store, (allocation \<times> pointer, unit pool_reserve_error) result) prog" where
  "pool_init r elem len gen = bind (reserve_slice r elem len) (\<lambda>res. case res of
     Ok (a, p) \<Rightarrow> write_block a (map gen [0..<len]) (Ret (Ok (a, p))) | Err e \<Rightarrow> Ret (Err e))"

definition pool_copy ::
    "pool_ref \<Rightarrow> layout \<Rightarrow> 'v list \<Rightarrow> ('v pool_store, (allocation \<times> pointer, unit pool_reserve_error) result) prog" where
  "pool_copy r elem vs = pool_init r elem (length vs) (\<lambda>i. vs ! i)"

section \<open>Releasing and handing over\<close>

text \<open>The outcome of the exchange is only looked at by a debug assertion.\<close>

definition pool_release :: "pool_ref \<Rightarrow> nat \<Rightarrow> nat \<Rightarrow> u32 \<Rightarrow> ('v pool_store, unit) prog" where
  "pool_release r c s g =
     (if length (geo_classes (ref_geometry r)) \<le> c then Panic
      else case state_local g (ref_owner r) of None \<Rightarrow> Panic
      | Some own \<Rightarrow> compare_exchange (ctl c s) (set_ctl c s) own (state_free g) (\<lambda>_. Ret ()))"

definition drop_allocation :: "pool_ref \<Rightarrow> allocation \<Rightarrow> ('v pool_store, unit) prog" where
  "drop_allocation r a = (if al_live a then pool_release r (al_class a) (al_slot a) (al_generation a) else Ret ())"

definition detach ::
    "pool_ref \<Rightarrow> allocation \<Rightarrow> ('v pool_store, (unit, adopt_error) result \<times> allocation) prog" where
  "detach r a =
     (if \<not> al_live a then Ret (Ok (), a)
      else if length (geo_classes (ref_geometry r)) \<le> al_class a then Panic
      else case state_local (al_generation a) (ref_owner r) of None \<Rightarrow> Panic
      | Some own \<Rightarrow> compare_exchange (ctl (al_class a) (al_slot a)) (set_ctl (al_class a) (al_slot a))
          own (state_detached (al_generation a)) (\<lambda>res. case res of
            Ok _ \<Rightarrow> Ret (Ok (), a\<lparr>al_live := False\<rparr>)
          | Err _ \<Rightarrow> Ret (Err Adopt_Owned, a)))"

definition takeover :: "pool_ref \<Rightarrow> pool_token \<Rightarrow> ('v pool_store, (allocation, adopt_error) result) prog" where
  "takeover r t =
     (if tok_generation t = 0 then
        (if tok_pool t \<noteq> ref_id r then Ret (Err Adopt_Pool) else Ret (Ok allocation_empty))
      else if MAX_GENERATION < tok_generation t then Ret (Err Adopt_Owned)
      else if tok_pool t \<noteq> ref_id r then Ret (Err Adopt_Pool)
      else
        let c = unat (span_class (tok_span t)); s = unat (span_slot (tok_span t)) in
        if length (geo_classes (ref_geometry r)) \<le> c then Ret (Err Adopt_Span)
        else if cls_slots (geo_classes (ref_geometry r) ! c) \<le> s then Ret (Err Adopt_Span)
        else case state_local (tok_generation t) (ref_owner r) of None \<Rightarrow> Panic
        | Some own \<Rightarrow> compare_exchange (ctl c s) (set_ctl c s) (state_detached (tok_generation t)) own (\<lambda>res.
            case res of
              Ok _ \<Rightarrow> Ret (Ok \<lparr>al_class = c, al_slot = s, al_generation = tok_generation t, al_live = True\<rparr>)
            | Err _ \<Rightarrow> Ret (Err Adopt_Owned)))"

definition adopt_id ::
    "pool_ref \<Rightarrow> pool_token \<Rightarrow> type_id \<Rightarrow> shape \<Rightarrow>
     ('v pool_store, (allocation \<times> pointer \<times> metadata, adopt_error) result) prog" where
  "adopt_id r t expected shape =
     (if tok_id t \<noteq> expected then Ret (Err Adopt_Type)
      else case token_metadata t of None \<Rightarrow> Ret (Err Adopt_Type)
      | Some m \<Rightarrow> (case shape_layout shape m of Err _ \<Rightarrow> Ret (Err Adopt_Type)
        | Ok l \<Rightarrow>
            if size l = 0 then
              bind (takeover r t) (\<lambda>res. case res of
                Err e \<Rightarrow> Ret (Err e) | Ok a \<Rightarrow> Ret (Ok (a, Dangling (align l), m)))
            else
              let c = unat (span_class (tok_span t)); s = unat (span_slot (tok_span t)) in
              if length (geo_classes (ref_geometry r)) \<le> c then Ret (Err Adopt_Span)
              else
                let cls = geo_classes (ref_geometry r) ! c in
                if tok_generation t = 0 \<or> cls_slots cls \<le> s \<or> cls_bytes cls < size l \<or> cls_bytes cls < align l
                then Ret (Err Adopt_Span)
                else bind (takeover r t) (\<lambda>res. case res of
                  Err e \<Rightarrow> Ret (Err e) | Ok a \<Rightarrow> Ret (Ok (a, Offset_Of (payload_offset cls s), m)))))"

text \<open>The token of a block, in the order of the fields of \<open>Block::transfer_with\<close>.\<close>

definition transfer_with :: "pool_ref \<Rightarrow> allocation \<Rightarrow> 'h \<Rightarrow> type_id \<Rightarrow> metadata \<Rightarrow> 'h token" where
  "transfer_with r a header i m =
     \<lparr>tok = pool_token_new (ref_id r) \<lparr>span_class = of_nat (al_class a), span_slot = of_nat (al_slot a)\<rparr>
        (al_generation a) m i,
      tok_header = header\<rparr>"

section \<open>Recovery\<close>

text \<open>One slot of \<open>Storage::recover\<close>; the list holds the spurious failures of the weak exchange.\<close>

primrec recover_slot :: "bool list \<Rightarrow> nat \<Rightarrow> nat \<Rightarrow> u8 \<Rightarrow> u32 \<Rightarrow> ('v pool_store, bool) prog" where
  "recover_slot [] c s dead raw = Spin"
| "recover_slot (b # bs) c s dead raw =
     (if \<not> state_canonical raw then Ret False
      else if \<not> state_allocated raw \<or> state_owner raw \<noteq> Some dead then Ret True
      else compare_exchange_weak b (ctl c s) (set_ctl c s) raw (state_free (state_generation raw)) (\<lambda>res.
        case res of Ok _ \<Rightarrow> Ret True | Err observed \<Rightarrow> recover_slot bs c s dead observed))"

primrec recover_slots :: "bool list \<Rightarrow> (nat \<times> nat) list \<Rightarrow> u8 \<Rightarrow> ('v pool_store, bool) prog" where
  "recover_slots bs [] dead = Ret True"
| "recover_slots bs (cs # rest) dead =
     load (ctl (fst cs) (snd cs)) (\<lambda>raw. bind (recover_slot bs (fst cs) (snd cs) dead raw) (\<lambda>ok.
       if ok then recover_slots bs rest dead else Ret False))"

definition all_slots :: "pool_geometry \<Rightarrow> (nat \<times> nat) list" where
  "all_slots g = concat (map (\<lambda>c. map (Pair c) [0..<cls_slots (geo_classes g ! c)]) [0..<length (geo_classes g)])"

definition pool_recover :: "bool list \<Rightarrow> pool_info \<Rightarrow> nat \<Rightarrow> u8 \<Rightarrow> ('v pool_store, bool) prog" where
  "pool_recover bs info extent dead = (case recorded info extent of
     None \<Rightarrow> Panic | Some None \<Rightarrow> Ret False | Some (Some g) \<Rightarrow> recover_slots bs (all_slots g) dead)"

text \<open>
  \<open>release_token\<close> runs on a region in which \<open>inspect\<close> finds the layout that a token names, with the recorded
  information and extent of a pool, and \<open>get\<close> and \<open>put\<close> reach its shared part.
\<close>

primrec release_loop :: "bool list \<Rightarrow> nat \<Rightarrow> nat \<Rightarrow> u32 \<Rightarrow> u8 option \<Rightarrow> u32 \<Rightarrow> ('v pool_store, bool) prog" where
  "release_loop [] c s g own raw = Spin"
| "release_loop (b # bs) c s g own raw =
     (if \<not> state_canonical raw \<or> state_generation raw < g then Ret False
      else if g < state_generation raw \<or> \<not> state_allocated raw then Ret True
      else if (case state_owner raw of None \<Rightarrow> False | Some actual \<Rightarrow> Some actual \<noteq> own) then Ret False
      else compare_exchange_weak b (ctl c s) (set_ctl c s) raw (state_free g) (\<lambda>res.
        case res of Ok _ \<Rightarrow> Ret True | Err observed \<Rightarrow> release_loop bs c s g own observed))"

definition release_in :: "bool list \<Rightarrow> pool_info \<Rightarrow> nat \<Rightarrow> pool_token \<Rightarrow> u8 option \<Rightarrow> ('v pool_store, bool) prog" where
  "release_in bs info extent t own = (case recorded info extent of
     None \<Rightarrow> Panic | Some None \<Rightarrow> Ret False
   | Some (Some g) \<Rightarrow>
       let c = unat (span_class (tok_span t)); s = unat (span_slot (tok_span t)) in
       if length (geo_classes g) \<le> c then Ret False
       else if cls_slots (geo_classes g ! c) \<le> s then Ret False
       else load (ctl c s) (\<lambda>raw. release_loop bs c s (tok_generation t) own raw))"

definition release_token ::
    "bool list \<Rightarrow> (layout_id \<Rightarrow> ('w, (pool_info \<times> nat) option) prog) \<Rightarrow> (layout_id \<Rightarrow> 'w \<Rightarrow> 'v pool_store) \<Rightarrow>
     (layout_id \<Rightarrow> 'v pool_store \<Rightarrow> 'w \<Rightarrow> 'w) \<Rightarrow> pool_token \<Rightarrow> u8 option \<Rightarrow> ('w, bool) prog" where
  "release_token bs inspect get put t own =
     (if tok_generation t = 0 then bind (inspect (tok_pool t)) (\<lambda>found. Ret (found \<noteq> None))
      else if MAX_GENERATION < tok_generation t \<or> token_metadata t = None then Ret False
      else bind (inspect (tok_pool t)) (\<lambda>found. case found of
        None \<Rightarrow> Ret False
      | Some (info, extent) \<Rightarrow>
          within (get (tok_pool t)) (put (tok_pool t)) (release_in bs info extent t own)))"

section \<open>The pool as a layout\<close>

text \<open>
  A configuration whose information records no class makes \<open>recorded\<close> panic; the header is then left as it is when
  the check fails, because the claims of an admission are undone by unwinding as well.
\<close>

definition pool_trait :: "(pool_config, pool_info, 'v pool_store) layout_trait" where
  "pool_trait =
     \<lparr>lt_magic = 0xB100, lt_schema = schema_key_new (schema_id ''evering.pool'') 1,
      lt_info_schema = schema_key_new (schema_id ''evering.pool.info'') 1,
      lt_info_layout = \<lparr>size = 24, align = 8\<rparr>, lt_body_layout = \<lparr>size = 0, align = 1\<rparr>,
      lt_storage = (\<lambda>conf. Some (conf_layout conf)),
      lt_info = (\<lambda>conf _. conf_info conf),
      lt_init = (\<lambda>conf. case recorded (conf_info conf) (size (conf_layout conf)) of
         Some (Some g) \<Rightarrow> (store_new g, Initialized)
       | _ \<Rightarrow> (\<lparr>controls = [], blocks = (\<lambda>_ _. None)\<rparr>, Status_Corrupted)),
      lt_attach = (\<lambda>_ conf. case recorded (conf_info conf) (size (conf_layout conf)) of
         Some (Some g) \<Rightarrow> Initialized | _ \<Rightarrow> Status_Corrupted)\<rparr>"

section \<open>Reading an authority word\<close>

lemma and_127: "(x :: u32) AND 127 = take_bit 7 x"
  by (simp add: take_bit_eq_mask mask_numeral)

lemma low_bits:
  assumes "take_bit 7 x = (x :: u32)"
  shows "drop_bit 7 (push_bit 7 g OR x) = take_bit 25 g" "take_bit 7 (push_bit 7 g OR x) = x"
proof -
  have x: "\<not> bit x n" if "7 \<le> n" for n
    using assms that by (metis bit_take_bit_iff not_less)
  show "drop_bit 7 (push_bit 7 g OR x) = take_bit 25 g"
    by (rule bit_word_eqI) (auto simp: bit_simps x)
  show "take_bit 7 (push_bit 7 g OR x) = x"
    by (subst assms [symmetric], rule bit_word_eqI) (auto simp: bit_simps)
qed

lemma state_eqI: "drop_bit 7 v = drop_bit 7 w \<Longrightarrow> take_bit 7 v = take_bit 7 w \<Longrightarrow> v = (w :: u32)"
  by (metis bits_ident)

lemma generation_fits_25: "g \<le> MAX_GENERATION \<Longrightarrow> take_bit 25 g = (g :: u32)"
proof -
  assume "g \<le> MAX_GENERATION"
  then have "unat g \<le> 0x1ffffff"
    by (simp add: word_le_nat_alt)
  then have "unat g < 2 ^ 25"
    by simp
  then show ?thesis
    by (metis take_bit_nat_eq_self unsigned_take_bit_eq word_unat_eq_iff)
qed

lemma generation_bound: "state_generation w \<le> MAX_GENERATION"
proof -
  have "take_bit 25 (state_generation w) = state_generation w"
    unfolding state_generation_def by (rule bit_word_eqI) (auto simp: bit_simps dest: bit_imp_le_length)
  then have "unat (state_generation w) < 2 ^ 25"
    using take_bit_nat_less_exp [of 25 "unat (state_generation w)"] by (metis unsigned_take_bit_eq)
  then show ?thesis
    by (simp add: word_le_nat_alt)
qed

text \<open>The seven low bits: allocated, and the owner plus one; there are 63 owners to check.\<close>

lemma owner_words:
  "list_all (\<lambda>n. let own = (of_nat n :: u8); x = ALLOCATED OR (ucast own + 1 :: u32) in
     take_bit 7 x = x \<and> x AND ALLOCATED \<noteq> 0 \<and> x AND OWNER_MASK \<noteq> 0 \<and> ucast ((x AND OWNER_MASK) - 1) = own)
     [0..<PARTICIPANT_CAPACITY]"
  by code_simp

lemma owner_word:
  fixes own :: u8
  defines "x \<equiv> ALLOCATED OR (ucast own + 1 :: u32)"
  assumes "unat own < PARTICIPANT_CAPACITY"
  shows "take_bit 7 x = x" "x AND ALLOCATED \<noteq> 0" "x AND OWNER_MASK \<noteq> 0" "ucast ((x AND OWNER_MASK) - 1) = own"
  using owner_words assms by (auto simp: list_all_iff Let_def dest: bspec [of _ _ "unat own"])

lemma low_words:
  "list_all (\<lambda>n. let x = (of_nat n :: u32); own = (ucast ((x AND OWNER_MASK) - 1) :: u8) in
     if x AND ALLOCATED \<noteq> 0 then
       if x AND OWNER_MASK \<noteq> 0 then own < 63 \<and> x = ALLOCATED OR (ucast own + 1) else x = ALLOCATED
     else if x AND OWNER_MASK = 0 then x = 0 else True) [0..<128]"
  by code_simp

lemma low_word:
  fixes x :: u32
  defines "own \<equiv> ucast ((x AND OWNER_MASK) - 1) :: u8"
  assumes "take_bit 7 x = x"
  shows "x AND ALLOCATED \<noteq> 0 \<Longrightarrow> x AND OWNER_MASK \<noteq> 0 \<Longrightarrow>
      unat own < PARTICIPANT_CAPACITY \<and> x = ALLOCATED OR (ucast own + 1)"
    and "x AND ALLOCATED \<noteq> 0 \<Longrightarrow> x AND OWNER_MASK = 0 \<Longrightarrow> x = ALLOCATED"
    and "x AND ALLOCATED = 0 \<Longrightarrow> x AND OWNER_MASK = 0 \<Longrightarrow> x = 0"
proof -
  have "unat x < 128"
    using take_bit_nat_less_exp [of 7 "unat x"] arg_cong [OF assms(2), of unat] by (simp add: unsigned_take_bit_eq)
  then have "let own = (ucast ((x AND OWNER_MASK) - 1) :: u8) in
     if x AND ALLOCATED \<noteq> 0 then
       if x AND OWNER_MASK \<noteq> 0 then own < 63 \<and> x = ALLOCATED OR (ucast own + 1) else x = ALLOCATED
     else if x AND OWNER_MASK = 0 then x = 0 else True"
    using low_words unfolding list_all_iff Let_def by (auto dest!: bspec [of _ _ "unat x"])
  then show "x AND ALLOCATED \<noteq> 0 \<Longrightarrow> x AND OWNER_MASK \<noteq> 0 \<Longrightarrow>
      unat own < PARTICIPANT_CAPACITY \<and> x = ALLOCATED OR (ucast own + 1)"
    and "x AND ALLOCATED \<noteq> 0 \<Longrightarrow> x AND OWNER_MASK = 0 \<Longrightarrow> x = ALLOCATED"
    and "x AND ALLOCATED = 0 \<Longrightarrow> x AND OWNER_MASK = 0 \<Longrightarrow> x = 0"
    unfolding own_def Let_def by (simp_all add: word_less_nat_alt)
qed

lemma and_low: "take_bit 7 m = m \<Longrightarrow> w AND m = take_bit 7 w AND (m :: u32)"
proof -
  assume m: "take_bit 7 m = m"
  then have "bit m n \<Longrightarrow> n < 7" for n
    by (metis bit_take_bit_iff)
  then show ?thesis
    by (intro bit_word_eqI) (auto simp: bit_simps)
qed

lemma and_flags: "w AND ALLOCATED = take_bit 7 w AND ALLOCATED" "w AND OWNER_MASK = take_bit 7 w AND OWNER_MASK"
  by (rule and_low; simp)+

lemma state_free [simp]:
  assumes "g \<le> MAX_GENERATION"
  shows "state_generation (state_free g) = g" "\<not> state_allocated (state_free g)" "state_owner (state_free g) = None"
    "state_canonical (state_free g)"
proof -
  have "drop_bit 7 (push_bit 7 g) = g" "take_bit 7 (push_bit 7 g) = 0"
    using low_bits [of 0 g] generation_fits_25 [OF assms] by simp_all
  then show "state_generation (state_free g) = g" "\<not> state_allocated (state_free g)" "state_owner (state_free g) = None"
      "state_canonical (state_free g)"
    using and_flags [of "push_bit 7 g"]
    by (simp_all add: state_generation_def state_allocated_def state_owner_def state_canonical_def state_free_def)
qed

lemma state_detached [simp]:
  assumes "g \<le> MAX_GENERATION"
  shows "state_generation (state_detached g) = g" "state_allocated (state_detached g)" "state_owner (state_detached g) = None"
    "state_canonical (state_detached g)"
proof -
  have "drop_bit 7 (push_bit 7 g OR ALLOCATED) = g" "take_bit 7 (push_bit 7 g OR ALLOCATED) = ALLOCATED"
    using low_bits [of 64 g] generation_fits_25 [OF assms] by simp_all
  then show "state_generation (state_detached g) = g" "state_allocated (state_detached g)" "state_owner (state_detached g) = None"
    "state_canonical (state_detached g)"
    using and_flags [of "push_bit 7 g OR ALLOCATED"]
    by (simp_all add: state_generation_def state_allocated_def state_owner_def state_canonical_def state_detached_def)
qed

lemma state_local_Some:
  assumes "state_local g own = Some w"
  shows "state_generation w = g" "state_allocated w" "state_owner w = Some own" "state_canonical w"
    "g \<le> MAX_GENERATION" "unat own < PARTICIPANT_CAPACITY"
proof -
  from assms show own: "g \<le> MAX_GENERATION" "unat own < PARTICIPANT_CAPACITY"
    by (auto simp: state_local_def split: if_splits)
  let ?x = "ALLOCATED OR (ucast own + 1 :: u32)"
  have "w = push_bit 7 g OR ?x"
    using assms own by (simp add: state_local_def or.assoc split: if_splits)
  then have "drop_bit 7 w = g" "take_bit 7 w = ?x"
    using low_bits [OF owner_word(1) [OF own(2)], of g] generation_fits_25 [OF own(1)] by simp_all
  then show "state_generation w = g" "state_allocated w" "state_owner w = Some own" "state_canonical w"
    using and_flags [of w] owner_word [OF own(2)]
    by (simp_all add: state_generation_def state_allocated_def state_owner_def state_canonical_def Let_def)
qed

lemma state_of_parts: "push_bit 7 (state_generation w) OR take_bit 7 w = w"
proof (rule state_eqI)
  have "take_bit 25 (state_generation w) = state_generation w"
    by (rule generation_fits_25 [OF generation_bound])
  then show "drop_bit 7 (push_bit 7 (state_generation w) OR take_bit 7 w) = drop_bit 7 w"
    using low_bits(1) [of "take_bit 7 w" "state_generation w"] by (simp add: state_generation_def)
  show "take_bit 7 (push_bit 7 (state_generation w) OR take_bit 7 w) = take_bit 7 w"
    by (rule low_bits(2)) simp
qed

lemma owner_None_iff: "state_owner w = None \<longleftrightarrow> take_bit 7 w AND OWNER_MASK = 0"
  unfolding state_owner_def Let_def and_flags(2) [of w] by simp

lemma allocated_iff: "state_allocated w \<longleftrightarrow> take_bit 7 w AND ALLOCATED \<noteq> 0"
  unfolding state_allocated_def and_flags(1) [of w] by (rule refl)

lemma free_word: "\<not> state_allocated w \<Longrightarrow> state_owner w = None \<Longrightarrow> w = state_free (state_generation w)"
  using low_word(3) [of "take_bit 7 w"] state_of_parts [of w]
  unfolding owner_None_iff allocated_iff state_free_def by simp

lemma detached_word: "state_allocated w \<Longrightarrow> state_owner w = None \<Longrightarrow> w = state_detached (state_generation w)"
  using low_word(2) [of "take_bit 7 w"] state_of_parts [of w]
  unfolding owner_None_iff allocated_iff state_detached_def by simp

lemma local_word:
  assumes "state_allocated w" "state_owner w = Some own"
  shows "state_local (state_generation w) own = Some w"
proof -
  let ?x = "take_bit 7 w"
  have "?x AND OWNER_MASK \<noteq> 0" and own: "own = ucast ((?x AND OWNER_MASK) - 1)"
    using assms(2) unfolding state_owner_def Let_def and_flags(2) [of w] by (simp_all split: if_splits)
  then have "unat own < PARTICIPANT_CAPACITY" "?x = ALLOCATED OR (ucast own + 1)"
    using low_word(1) [of ?x] assms(1) unfolding allocated_iff own by simp_all
  then show ?thesis
    using generation_bound [of w] state_of_parts [of w] unfolding state_local_def or.assoc by (simp add: not_less)
qed

text \<open>
  C22. An authority word is canonical exactly when it is one of the three that the constructors
  make for its generation: free, detached, or owned by one of the 63 participants; and the three are told apart by
  the flag and the owner that the word reads back.
\<close>

theorem authority_word_exact:
  "state_canonical w \<longleftrightarrow>
     w = state_free (state_generation w) \<and> \<not> state_allocated w \<and> state_owner w = None \<or>
     w = state_detached (state_generation w) \<and> state_allocated w \<and> state_owner w = None \<or>
     (\<exists>own. state_local (state_generation w) own = Some w \<and> state_allocated w \<and> state_owner w = Some own)"
  unfolding state_canonical_def using free_word [of w] detached_word [of w] local_word [of w]
  by (cases "state_owner w") auto

end
