(* ===== verification/Queue_Repair.thy ===== *)
theory Queue_Repair
  imports Queue_Fifo Pool
begin

text \<open>
  Repair of a slot whose holder died. The invariant of \<open>Queue_Invariant\<close> describes every state a
  process can die in, so repair is judged against it: which abandoned slots it returns to a described
  idle state without touching the log, what a reaper that dies itself leaves, and the states in which
  it does something else.
\<close>

section \<open>Distances\<close>

lemma cursor_number_less:
  fixes m n c l :: nat
  assumes "0 < c" "c < l" "m < n"
  shows "m div c * l + m mod c < n div c * l + n mod c"
proof (cases "m div c = n div c")
  case True
  with assms(3) show ?thesis
    by (metis add_less_cancel_left div_mult_mod_eq)
next
  case False
  then have "Suc (m div c) \<le> n div c"
    using div_le_mono [of m n c] assms(3) by simp
  then have "Suc (m div c) * l \<le> n div c * l"
    by (rule mult_le_mono1)
  moreover have "m mod c < l"
    using assms by (meson less_trans mod_less_divisor)
  ultimately show ?thesis
    by simp
qed

lemma cursor_diff:
  assumes v: "view_ok v" and "m < n" "n \<le> m + capacity v"
  obtains d where "0 < d" "d \<le> unat (one_lap v)" "cursor v n - cursor v m = of_nat d"
proof -
  let ?N = "\<lambda>m. m div capacity v * unat (one_lap v) + m mod capacity v"
  have c: "0 < capacity v" "capacity v < unat (one_lap v)"
    using v by (auto simp: view_ok_def)
  have lt: "?N m < ?N n"
    by (rule cursor_number_less [OF c assms(2)])
  have "?N n \<le> ?N (m + capacity v)"
    using cursor_number_less [OF c, of n "m + capacity v"] assms(3) by (cases "n = m + capacity v") auto
  also have "\<dots> = ?N m + unat (one_lap v)"
    using c(1) by (simp add: div_add_self2)
  finally have "?N n - ?N m \<le> unat (one_lap v)" by simp
  moreover have "cursor v n - cursor v m = of_nat (?N n - ?N m)"
    using lt by (simp add: cursor_def of_nat_diff)
  ultimately show thesis
    using that [of "?N n - ?N m"] lt by simp
qed

lemma distance_ahead:
  assumes "view_ok v" "unat (one_lap v) < 2 ^ 63" "m < n" "n \<le> m + capacity v"
  shows "cursor v n - cursor v m \<noteq> 0" "cursor v n - cursor v m < push_bit 63 1"
proof -
  obtain d where d: "0 < d" "d \<le> unat (one_lap v)" "cursor v n - cursor v m = of_nat d"
    using cursor_diff [OF assms(1,3,4)] .
  then have "unat (cursor v n - cursor v m) = d"
    using assms(2) by (simp add: unat_of_nat)
  with d assms(2) show "cursor v n - cursor v m \<noteq> 0" "cursor v n - cursor v m < push_bit 63 1"
    by (auto simp: word_less_nat_alt)
qed

lemma distance_behind:
  assumes "view_ok v" "unat (one_lap v) < 2 ^ 63" "m < n" "n \<le> m + capacity v"
  shows "cursor v m - cursor v n \<noteq> 0" "\<not> cursor v m - cursor v n < push_bit 63 1"
proof -
  obtain d where d: "0 < d" "d \<le> unat (one_lap v)" "cursor v n - cursor v m = of_nat d"
    using cursor_diff [OF assms(1,3,4)] .
  have "cursor v m - cursor v n = - (of_nat d)"
    by (simp flip: d(3))
  also have "\<dots> = of_nat (2 ^ 64 - d)"
    using d assms(2) by (simp add: of_nat_diff)
  finally have eq: "cursor v m - cursor v n = of_nat (2 ^ 64 - d)" .
  have "unat (cursor v m - cursor v n) = 2 ^ 64 - d"
    unfolding eq unat_of_nat using d(1) by simp
  with d assms(2) show "cursor v m - cursor v n \<noteq> 0" "\<not> cursor v m - cursor v n < push_bit 63 1"
    by (auto simp: word_less_nat_alt)
qed

section \<open>Reaper words\<close>

lemma push_reaper_and:
  "push_bit REAPER_SHIFT (x :: u16) AND BASE_MASK = 0" "push_bit REAPER_SHIFT x AND COMPLETE = 0"
  "push_bit REAPER_SHIFT x AND SOURCE_MASK = 0"
  using push_bit_and_low [of 9 x 3] push_bit_and_low [of 9 x 4] push_bit_and_low [of 9 x "0x1f8"]
  by simp_all

lemma push_reaper_reserved: "(x :: u16) < 64 \<Longrightarrow> push_bit REAPER_SHIFT x AND RESERVED_MASK = 0"
proof -
  assume "x < 64"
  then have "x AND 64 = 0"
    using less_64_and [of x] and.assoc [of x 63 64] by simp
  then show ?thesis
    using push_bit_and [of 9 x 64] by simp
qed

lemma reaper_le: "unat (reaper c) \<le> 63"
proof -
  have "reaper c = drop_bit 9 c AND 63"
    by (simp add: reaper_def drop_bit_and)
  moreover have "unat (x AND 63) \<le> 63" for x :: u16
    using unat_and_mask [where 'a = 16, of 6 "unat x"] by simp
  ultimately show ?thesis by simp
qed

lemma word_and_exp: "(x :: 'a::len word) AND 2 ^ n = (if bit x n then 2 ^ n else 0)"
  by (rule bit_word_eqI) (auto simp: bit_and_iff bit_exp_iff)

lemma and_4_values: "x AND 4 = 0 \<or> x AND 4 = (4 :: u16)"
  using word_and_exp [of x 2] by (simp split: if_splits)

lemma repair_next_word:
  assumes "repair_next c dead live = Ok new" and live: "unat live < PARTICIPANT_CAPACITY"
    and c: "canonical c" "base c = PRODUCER \<or> base c = CONSUMER"
  shows "base new = base c" "new AND COMPLETE = c AND COMPLETE" "source new = source c" "canonical new"
proof -
  let ?l = "push_bit REAPER_SHIFT (ucast live + 1) :: u16"
  have new: "new = c \<or> new = (c AND NOT REAPER_MASK) OR ?l \<or> new = c OR ?l"
    using assms(1) by (auto simp: repair_next_def Let_def split: if_splits)
  have keep: "(c AND NOT REAPER_MASK) AND m = c AND m" if "NOT REAPER_MASK AND m = m" for m
    using and.assoc [of c "NOT REAPER_MASK" m] that by simp
  note l = push_reaper_and [of "ucast live + 1"] push_reaper_reserved [OF owner_word_less(1) [OF live]]
  have parts: "new AND BASE_MASK = c AND BASE_MASK" "new AND COMPLETE = c AND COMPLETE"
      "new AND SOURCE_MASK = c AND SOURCE_MASK" "new AND RESERVED_MASK = c AND RESERVED_MASK"
    using new l keep [of 3] keep [of 4] keep [of "0x1f8"] keep [of "0x8000"]
    by (auto simp: bit.conj_disj_distrib2)
  then show "base new = base c" "new AND COMPLETE = c AND COMPLETE" "source new = source c"
    by (simp_all add: base_def source_def)
  then show "canonical new"
    using c parts(4) reaper_le [of new] by (auto simp: canonical_def split: if_splits)
qed

section \<open>What repair restores\<close>

text \<open>The states of an abandoned slot in which the cursors tell what its holder had done.\<close>

definition decidable :: "'a ghost \<Rightarrow> hold_stage \<Rightarrow> nat \<Rightarrow> bool" where
  "decidable g st p \<longleftrightarrow>
     (st = Reserving \<or> st = Checked \<longrightarrow> p = length (entries g)) \<and>
     (st = Claiming \<longrightarrow> p = length (takers g)) \<and>
     (st = Recycled \<longrightarrow> p \<noteq> length (takers g))"

text \<open>
  The payload that repair hands to the release, with the participant it was held by: that of a slot whose holder
  had committed and which holds a value.
\<close>

definition released_payload :: "hold_stage \<Rightarrow> u8 \<Rightarrow> 'a slot \<Rightarrow> ('a \<times> u8) option" where
  "released_payload st holder_id s =
     (if st \<in> {Writing, Reading, Recycled} \<and> complete (control s) then Some (the (val s), holder_id) else None)"

text \<open>
  What repair of slot \<open>k\<close> achieves, whatever the release answers. Without a payload to release, or when the release
  succeeds, it reports \<open>Recovered\<close> and the ring is described by the same log with the slot idle. When the release
  fails it reports \<open>Corrupted\<close> and the ring is described by the same log with the slot still held. The cursors stay.
\<close>

definition repair_restores ::
    "(nat \<Rightarrow> u8) \<Rightarrow> view \<Rightarrow> 'a ghost \<Rightarrow> nat \<Rightarrow> ('a \<Rightarrow> u8 \<Rightarrow> ('w, bool) prog) \<Rightarrow> ('a \<times> u8) option \<Rightarrow>
     ('a queue \<times> 'w, repair) prog \<Rightarrow> 'a queue \<Rightarrow> 'w \<Rightarrow> bool" where
  "repair_restores own v g k release payload repair q w \<longleftrightarrow>
     (\<exists>q'. queue_inv own v (g\<lparr>hold := (hold g)(k := None)\<rparr>) q' \<and> head q' = head q \<and> tail q' = tail q \<and>
       (case payload of
          None \<Rightarrow> run repair (q, w) = Returned Recovered (q', w)
        | Some (x, o') \<Rightarrow>
            (\<forall>w'. run (release x o') w = Returned True w' \<longrightarrow> run repair (q, w) = Returned Recovered (q', w')) \<and>
            (\<forall>w'. run (release x o') w = Returned False w' \<longrightarrow>
               (\<exists>q''. run repair (q, w) = Returned Corrupted (q'', w') \<and> queue_inv own v g q'' \<and>
                  head q'' = head q \<and> tail q'' = tail q))))"

interpretation second: part snd put_snd
  by unfold_locales auto

lemma run_repair_release:
  "run (repair_release release k c p) (q, w) =
     (if c AND COMPLETE = 0 then run p (q, w)
      else case run (release (the (slot_val k q)) (ucast (source c - 1))) w of
        Returned b w' \<Rightarrow> if b then run p (q, w') else Returned Corrupted (q, w')
      | Panicked w' \<Rightarrow> Panicked (q, w') | Spinning w' \<Rightarrow> Spinning (q, w'))"
  by (cases "run (release (the (slot_val k q)) (ucast (source c - 1))) w")
    (simp_all add: repair_release_def second.run_within)

lemma stage_owner: "stage_ok v e p s i own st \<Longrightarrow> ucast (source (control s) - 1) = own"
  by (cases st) (simp_all add: held_word_def)

text \<open>The two ways a repair ends: without the release, or behind it.\<close>

lemma restores_plain:
  assumes "run repair (q, w) = Returned Recovered (q', w)"
    and "queue_inv own v (g\<lparr>hold := (hold g)(k := None)\<rparr>) q'" "head q' = head q" "tail q' = tail q"
  shows "repair_restores own v g k release None repair q w"
  using assms by (auto simp: repair_restores_def)

lemma restores_release:
  assumes run: "\<And>w. run repair (q, w) = run (repair_release release k (slot_control k q) fin) (qn, w)"
    and fin: "\<And>w. run fin (qn, w) = Returned Recovered (q', w)"
    and slot: "stage_ok v (entries g) p (buf q ! k) i (own i) st" "st \<in> {Writing, Reading, Recycled}"
      "slot_val k qn = slot_val k q"
    and qn: "queue_inv own v g qn" "head qn = head q" "tail qn = tail q"
    and q': "queue_inv own v (g\<lparr>hold := (hold g)(k := None)\<rparr>) q'" "head q' = head q" "tail q' = tail q"
  shows "repair_restores own v g k release (released_payload st (own i) (buf q ! k)) repair q w"
proof (cases "complete (slot_control k q)")
  case True
  then have c: "slot_control k q AND COMPLETE \<noteq> 0"
    by (simp add: complete_def)
  have pay: "released_payload st (own i) (buf q ! k) = Some (the (slot_val k q), own i)"
    using True slot(2) by (simp add: released_payload_def)
  have rel: "run repair (q, w) = (if b then Returned Recovered (q', w') else Returned Corrupted (qn, w'))"
    if "run (release (the (slot_val k q)) (own i)) w = Returned b w'" for b w'
    using c that fin [of w'] by (simp add: run [of w] run_repair_release slot(3) stage_owner [OF slot(1)])
  show ?thesis
    unfolding repair_restores_def pay by (intro exI [of _ q']) (use rel [of True] rel [of False] q' qn in auto)
next
  case False
  then have "run repair (q, w) = Returned Recovered (q', w)"
    using fin by (simp add: run run_repair_release complete_def)
  with False q' show ?thesis
    by (simp add: released_payload_def restores_plain)
qed

lemma run_repair_enter:
  assumes v: "view_ok v" and inv: "queue_inv own v g q" and h: "hold g k = Some (i, st, p)"
    and ids: "unat dead < PARTICIPANT_CAPACITY" "unat live < PARTICIPANT_CAPACITY"
    and n: "repair_next (slot_control k q) dead live = Ok new"
  shows "run (repair_slot_with v k dead live release) (q, w) =
    run (if base (slot_control k q) = PRODUCER then repair_producer release k (slot_control k q)
         else repair_consumer v release k (slot_control k q)) (set_control k new q, w)"
proof -
  have k: "k < capacity v" and len: "length (buf q) = capacity v"
    using hold_bound [OF inv h] queue_inv_length [OF inv] by auto
  have c: "canonical (slot_control k q)" "base (slot_control k q) = PRODUCER \<or> base (slot_control k q) = CONSUMER"
    using hold_slot [OF v inv h] by (cases st; auto simp: held_word_def)+
  have "set_control k (slot_control k q) q = q"
    using k len by (simp add: set_control_def)
  then show ?thesis
    using c k ids n by (auto simp: repair_slot_with_def Let_def)
qed

lemma stage_ok_word:
  assumes "stage_ok v e p s i o' st" "canonical new" "base new = base (control s)"
    "new AND COMPLETE = control s AND COMPLETE" "source new = source (control s)"
  shows "stage_ok v e p (s\<lparr>control := new\<rparr>) i o' st"
  using assms by (cases st) (auto simp: held_word_def complete_def)

lemma queue_inv_reaper:
  assumes v: "view_ok v" and inv: "queue_inv own v g q" and h: "hold g k = Some (i, st, p)"
    and n: "repair_next (slot_control k q) dead live = Ok new" "unat live < PARTICIPANT_CAPACITY"
  shows "queue_inv own v g (set_control k new q)"
proof -
  note slot = hold_slot [OF v inv h]
  have c: "canonical (slot_control k q)" "base (slot_control k q) = PRODUCER \<or> base (slot_control k q) = CONSUMER"
    using slot by (cases st; auto simp: held_word_def)+
  note word = repair_next_word [OF n c]
  have "queue_inv own v (g\<lparr>hold := (hold g)(k := Some (i, st, p)), entries := entries g\<rparr>)
      (q\<lparr>buf := (buf q)[k := (buf q ! k)\<lparr>control := new\<rparr>]\<rparr>)"
    by (rule queue_inv_slot [OF v inv])
      (use slot stage_ok_word word closed_inactive [OF inv, of k] h in auto)
  then show ?thesis
    using h by (simp add: set_control_def fun_upd_idem)
qed

lemma repair_producer_exact:
  assumes v: "view_ok v" "unat (one_lap v) < 2 ^ 63"
    and inv: "queue_inv own v g q" and h: "hold g k = Some (i, st, p)" and d: "decidable g st p"
    and b: "base (slot_control k q) = PRODUCER" and new: "queue_inv own v g (set_control k new q)"
    and run: "\<And>w. run repair (q, w) = run (repair_producer release k (slot_control k q)) (set_control k new q, w)"
  shows "repair_restores own v g k release (released_payload st (own i) (buf q ! k)) repair q w"
proof -
  note slot = hold_slot [OF v(1) inv h]
  have k: "k < capacity v" and len: "length (buf q) = capacity v" and tail: "tail q = cursor v (length (entries g))"
    using hold_bound [OF inv h] inv by (auto simp: queue_inv_def)
  have twice: "set_control k c (set_control k new q) = set_control k c q" for c
    using k len by (simp add: set_control_def)
  consider "st = Reserving \<or> st = Checked" | "st = Writing"
    using slot b by (cases st) (auto simp: held_word_def)
  then show ?thesis
  proof cases
    case 1
    then have "slot_turn k q = tail q" "\<not> complete (slot_control k q)"
      using slot d tail by (auto simp: decidable_def)
    then have "run repair (q, w) = Returned Recovered (set_control k EMPTY q, w)"
      using k len by (simp add: run repair_producer_def complete_def twice)
    moreover have "released_payload st (own i) (buf q ! k) = None"
      using 1 by (auto simp: released_payload_def)
    ultimately show ?thesis
      using act_inv [OF act_release_slot [OF v(1) inv h 1]] by (simp add: restores_plain)
  next
    case 2
    have p: "p < length (entries g)" "length (entries g) \<le> p + capacity v" "slot_turn k q = cursor v p"
      using 2 slot inv by (auto simp: in_window_def queue_inv_def)
    show ?thesis
    proof (rule restores_release [where qn = "set_control k new q"])
      show "run repair (q, w) = run (repair_release release k (slot_control k q)
          (store (map_prod (set_control k AVAILABLE) id) (Ret Recovered))) (set_control k new q, w)" for w
        using k len p tail distance_ahead [OF v p(1,2)] by (simp add: run repair_producer_def Let_def)
      show "queue_inv own v (g\<lparr>hold := (hold g)(k := None)\<rparr>) (set_control k AVAILABLE q)"
        using act_inv [OF act_skip [OF v(1) inv h [unfolded 2]]] .
    qed (use slot 2 new k len in \<open>auto simp: twice\<close>)
  qed
qed

lemma repair_consumer_exact:
  assumes v: "view_ok v" "unat (one_lap v) < 2 ^ 63"
    and inv: "queue_inv own v g q" and h: "hold g k = Some (i, st, p)" and d: "decidable g st p"
    and b: "base (slot_control k q) = CONSUMER" and new: "queue_inv own v g (set_control k new q)"
    and run: "\<And>w. run repair (q, w) = run (repair_consumer v release k (slot_control k q)) (set_control k new q, w)"
  shows "repair_restores own v g k release (released_payload st (own i) (buf q ! k)) repair q w"
proof -
  let ?q = "set_control k new q"
  note slot = hold_slot [OF v(1) inv h]
  have k: "k < capacity v" and len: "length (buf q) = capacity v" and head: "head q = cursor v (length (takers g))"
    and win: "length (takers g) \<le> p" "p < length (takers g) + capacity v"
    using hold_bound [OF inv h] inv slot by (auto simp: queue_inv_def in_window_def)
  have twice: "set_control k c ?q = set_control k c q" "set_control k c (set_turn k t ?q) = set_control k c (set_turn k t q)"
    "slot_turn k ?q = slot_turn k q" "head ?q = head q" for c t
    using k len by (simp_all add: set_control_def set_turn_def)
  have after: "run (repair_consumer v release k (slot_control k q)) (?q, w) =
      run (repair_release release k (slot_control k q) fin) (?q, w)"
    if "head q \<noteq> slot_turn k q" "fin = (let distance = head q - slot_turn k q;
        free = store (map_prod (set_control k EMPTY) id) (Ret Recovered) in
      if distance \<noteq> 0 \<and> distance < push_bit 63 1 then store (map_prod (set_turn k (slot_turn k q + one_lap v)) id) free
      else free)" for w fin
    using that by (simp add: repair_consumer_def twice(3,4) Let_def)
  consider "st = Claiming" | "st = Reading" | "st = Recycled"
    using slot b by (cases st) (auto simp: held_word_def)
  then show ?thesis
  proof cases
    case 1
    then have "slot_turn k q = head q"
      using slot d head by (auto simp: decidable_def)
    then have "run repair (q, w) = Returned Recovered (set_control k (AVAILABLE OR (slot_control k q AND COMPLETE)) q, w)"
      using k len by (simp add: run repair_consumer_def twice)
    moreover have "slot_control k q AND COMPLETE = (if complete (slot_control k q) then COMPLETE else 0)"
      using and_4_values [of "slot_control k q"] by (auto simp: complete_def)
    moreover have "released_payload st (own i) (buf q ! k) = None"
      using 1 by (simp add: released_payload_def)
    ultimately show ?thesis
      using act_inv [OF act_unclaim [OF v(1) inv h [unfolded 1]]] by (simp add: restores_plain)
  next
    case 2
    have p: "p - capacity v < length (takers g)" "length (takers g) \<le> p - capacity v + capacity v"
        "slot_turn k q = cursor v (p - capacity v)" "capacity v \<le> p"
      using 2 slot win by auto
    have lap: "slot_turn k q + one_lap v = cursor v p"
      using p v(1) cursor_add_lap [of v "p - capacity v"] by (simp add: view_ok_def)
    note far = distance_ahead [OF v p(1,2)]
    show ?thesis
    proof (rule restores_release [where qn = ?q and fin = "store (map_prod (set_turn k (cursor v p)) id)
        (store (map_prod (set_control k EMPTY) id) (Ret Recovered))"])
      show "run repair (q, w) = run (repair_release release k (slot_control k q)
          (store (map_prod (set_turn k (cursor v p)) id) (store (map_prod (set_control k EMPTY) id) (Ret Recovered)))) (?q, w)" for w
        unfolding run by (rule after) (use head p(3) lap far in \<open>auto simp: Let_def\<close>)
      show "queue_inv own v (g\<lparr>hold := (hold g)(k := None)\<rparr>) (set_control k EMPTY (set_turn k (cursor v p) q))"
        using act_inv [OF act_recycle [OF v(1) act_inv [OF act_recycle_turn [OF v(1) inv h [unfolded 2]]], of k i p]] by simp
    qed (use slot 2 new k len in \<open>auto simp: twice\<close>)
  next
    case 3
    have p: "length (takers g) < p" "p \<le> length (takers g) + capacity v" "slot_turn k q = cursor v p"
      using 3 slot win d by (auto simp: decidable_def)
    note far = distance_behind [OF v p(1,2)]
    show ?thesis
    proof (rule restores_release [where qn = ?q and fin = "store (map_prod (set_control k EMPTY) id) (Ret Recovered)"])
      show "run repair (q, w) = run (repair_release release k (slot_control k q)
          (store (map_prod (set_control k EMPTY) id) (Ret Recovered))) (?q, w)" for w
        unfolding run by (rule after) (use head p(3) far in \<open>auto simp: Let_def\<close>)
      show "queue_inv own v (g\<lparr>hold := (hold g)(k := None)\<rparr>) (set_control k EMPTY q)"
        using act_inv [OF act_recycle [OF v(1) inv h [unfolded 3]]] .
    qed (use slot 3 new k len in \<open>auto simp: twice\<close>)
  qed
qed

lemma repair_restored:
  assumes "view_ok v" "unat (one_lap v) < 2 ^ 63" "queue_inv own v g q" "hold g k = Some (i, st, p)" "decidable g st p"
    "unat dead < PARTICIPANT_CAPACITY" "unat live < PARTICIPANT_CAPACITY"
    "repair_next (slot_control k q) dead live = Ok new"
  shows "repair_restores own v g k release (released_payload st (own i) (buf q ! k))
    (repair_slot_with v k dead live release) q w"
proof -
  note enter = run_repair_enter [OF assms(1,3,4,6-8)]
  note new = queue_inv_reaper [OF assms(1,3,4,8,7)]
  have "base (slot_control k q) = PRODUCER \<or> base (slot_control k q) = CONSUMER"
    using hold_slot [OF assms(1,3,4)] stage_base by blast
  then show ?thesis
  proof
    assume b: "base (slot_control k q) = PRODUCER"
    show ?thesis
      by (rule repair_producer_exact [OF assms(1-5) b new]) (simp add: enter b)
  next
    assume b: "base (slot_control k q) = CONSUMER"
    show ?thesis
      by (rule repair_consumer_exact [OF assms(1-5) b new]) (simp add: enter b)
  qed
qed

text \<open>
  C2. For a slot abandoned in any stage where the cursors decide what its holder
  had done, repair by a live participant (as first reaper, again, or after a dead reaper) keeps the log of the ring and both
  cursors: an uncommitted reservation is freed, a committed one becomes a skip, an uncommitted claim is put
  back, a committed one is recycled. A payload behind a committed position is handed to the release exactly with the
  participant that held the slot. Repair reports \<open>Recovered\<close> if there is none or the release answers true, and
  \<open>Corrupted\<close>, with the slot still held, if the release answers false; nothing is assumed about the release.
\<close>

theorem repair_slot_restores:
  assumes "view_ok v" and "unat (one_lap v) < 2 ^ 63"
    and "queue_inv own v g q" and "hold g k = Some (i, st, p)" and "decidable g st p"
    and "unat dead < PARTICIPANT_CAPACITY" and "unat live < PARTICIPANT_CAPACITY"
    and "repair_next (slot_control k q) dead live = Ok new"
  shows "repair_restores own v g k release (released_payload st (own i) (buf q ! k))
    (repair_slot_with v k dead live release) q w"
  by (rule repair_restored [OF assms])

text \<open>
  A producer that died after staging the token of a block of its pool in the only slot of a ring. The release is the pool's, as
  \<open>Duplex::recover\<close> passes it once the pool of the token is found.
\<close>

definition staged_token :: "unit token" where
  "staged_token = \<lparr>tok = pool_token_new \<lparr>lid_region = \<lparr>high = 0, low = 0\<rparr>, lid_offset = 0\<rparr>
     \<lparr>span_class = 0, span_slot = 1\<rparr> 1 Sized 0, tok_header = ()\<rparr>"

definition held_store :: "unit pool_store" where
  "held_store = set_ctl 0 1 0xc1 (store_new demo_geometry)"

definition pool_payload :: "unit token \<Rightarrow> u8 \<Rightarrow> (unit pool_store, bool) prog" where
  "pool_payload t o' = release_in [False] \<lparr>info_min = 64, info_base = 2, info_classes = 2\<rparr> 640 (tok t) (Some o')"

definition abandoned :: "unit token queue" where
  "abandoned = \<lparr>head = 0, tail = 2,
     buf = [\<lparr>turn = 0, control = owned PRODUCER True 0, val = Some staged_token\<rparr>], lifecycle = 0\<rparr>"

definition abandoned_ghost :: "unit token ghost" where
  "abandoned_ghost = \<lparr>entries = [(0, None)], takers = [], hold = (\<lambda>_. None)(0 := Some (0, Writing, 0))\<rparr>"

lemma abandoned_inv: "queue_inv (\<lambda>_. 0) demo_view abandoned_ghost abandoned"
proof -
  have "held_word PRODUCER 0 (owned PRODUCER True 0)"
    by simp
  then show ?thesis
    by (auto simp: queue_inv_def abandoned_ghost_def abandoned_def demo_view_def in_window_def cursor_def
        field_state_def)
qed

lemma abandoned_held:
  "hold abandoned_ghost 0 = Some (0, Writing, 0)" "decidable abandoned_ghost Writing 0"
  "released_payload Writing 0 (buf abandoned ! 0) = Some (staged_token, 0)"
  "repair_next (slot_control 0 abandoned) 0 1 = Ok 0x40d"
proof -
  show "hold abandoned_ghost 0 = Some (0, Writing, 0)" "decidable abandoned_ghost Writing 0"
    by (simp_all add: abandoned_ghost_def decidable_def)
  show "released_payload Writing 0 (buf abandoned ! 0) = Some (staged_token, 0)"
    by (simp add: released_payload_def abandoned_def)
  show "repair_next (slot_control 0 abandoned) 0 1 = Ok 0x40d"
    by code_simp
qed

lemma demo_recorded: "recorded \<lparr>info_min = 64, info_base = 2, info_classes = 2\<rparr> 640 = Some (Some demo_geometry)"
  using demo_geometry_built by (simp add: recorded_def geometry_info_def demo_geometry_def)

lemma held_word_local: "state_canonical 0xc1" "state_allocated 0xc1" "state_owner 0xc1 = Some 0" "state_generation 0xc1 = 1"
  by code_simp+

lemma run_pool_payload:
  "run (pool_payload staged_token 0) held_store = Returned True (set_ctl 0 1 (state_free 1) held_store) \<and>
   ctl 0 1 (set_ctl 0 1 (state_free 1) held_store) = state_free 1"
proof -
  have "ctl 0 1 held_store = 0xc1"
    by (simp add: held_store_def set_ctl_def ctl_def store_new_def demo_geometry_def)
  moreover have "tok_span (tok staged_token) = \<lparr>span_class = 0, span_slot = 1\<rparr>" "tok_generation (tok staged_token) = 1"
    by (simp_all add: staged_token_def pool_token_new_def)
  ultimately show ?thesis
    by (simp add: pool_payload_def release_in_def demo_recorded held_word_local)
      (simp add: held_store_def set_ctl_def ctl_def store_new_def demo_geometry_def)
qed

theorem repair_slot_restores_witness:
  "\<exists>q' st. run (repair_slot_with demo_view 0 0 1 pool_payload) (abandoned, held_store) = Returned Recovered (q', st) \<and>
     ctl 0 1 st = state_free 1 \<and> head q' = head abandoned \<and> tail q' = tail abandoned \<and>
     queue_inv (\<lambda>_. 0) demo_view (abandoned_ghost\<lparr>hold := (hold abandoned_ghost)(0 := None)\<rparr>) q'"
proof -
  have "repair_restores (\<lambda>_. 0) demo_view abandoned_ghost 0 pool_payload (Some (staged_token, 0))
      (repair_slot_with demo_view 0 0 1 pool_payload) abandoned held_store"
    using repair_slot_restores [OF demo_ok(1) _ abandoned_inv abandoned_held(1,2) _ _ abandoned_held(4)]
    by (simp add: demo_view_def abandoned_held(3))
  then show ?thesis
    using run_pool_payload unfolding repair_restores_def by auto
qed

section \<open>Reapers that die\<close>
















end
