(* ===== verification/Queue_Repair_Limits.thy ===== *)
theory Queue_Repair_Limits
  imports Queue_Repair
begin

text \<open>
  The states in which repair of an abandoned slot does something else than return it: a committed claim of the
  last message, a claim that succeeded on a later message than the one its thread had read the head for, and a reservation
  taken for a tail that has moved. Each is stated for every ring that the invariant describes.
\<close>

section \<open>States in which repair does something else\<close>




definition two_owners :: "nat \<Rightarrow> u8" where
  "two_owners i = (if i = 0 then 0 else 1)"


lemma consumer_word: "held_word CONSUMER 1 0x17" "complete 0x17"
  unfolding held_word_def complete_def by code_simp+



text \<open>
  C11. In every ring: a thread reads the head and pauses while its participant's other threads move on and
  the slot is filled again for a position \<open>p\<close> ahead of the head; its exchange succeeds on that message, and the participant
  dies before the claim is given back. Repair takes the slot, whose turn is not the head's, for a recycled one: it
  releases the payload of the message at \<open>p\<close>, which nobody has received, reports \<open>Recovered\<close> and frees the slot. When the head
  comes to \<open>p\<close>, every receiver is told \<open>Busy\<close> and changes nothing, although the ring is not empty.
\<close>

theorem repair_loses_message:
  assumes "view_ok v" and "unat (one_lap v) < 2 ^ 63" and "queue_inv own v g q"
    and "hold g k = Some (i, Claiming, p)" and "p \<noteq> length (takers g)" and "entries g ! p = (j, Some x)"
    and "run (release x (own i)) w = Returned True w'"
    and "unat dead < PARTICIPANT_CAPACITY" and "unat live < PARTICIPANT_CAPACITY"
    and "repair_next (slot_control k q) dead live = Ok new"
  shows "length (takers g) \<le> p \<and> p < length (entries g) \<and>
    (\<exists>q'. run (repair_slot_with v k dead live release) (q, w) = Returned Recovered (q', w') \<and>
      head q' = head q \<and> tail q' = tail q \<and> slot_control k q' = EMPTY \<and>
      (\<forall>q2. buf q2 ! k = buf q' ! k \<and> head q2 = cursor v p \<and> tail q2 \<noteq> head q2 \<and> field_state (recv_field v) q2 = 0 \<longrightarrow>
        run (claim (v\<lparr>owner := o'\<rparr>)) q2 = Returned (Err Claim_Busy) q2))"
proof -
  note slot = hold_slot [OF assms(1,3,4)]
  have k: "k < capacity v" "p mod capacity v = k" and len: "length (buf q) = capacity v"
    and c: "complete (slot_control k q)" "base (slot_control k q) = CONSUMER" "slot_val k q = Some x"
    and p: "length (takers g) < p" "p \<le> length (takers g) + capacity v" "p < length (entries g)"
    and turn: "slot_turn k q = cursor v p" and head: "head q = cursor v (length (takers g))"
    using slot assms(3,5,6) hold_bound [OF assms(3,4)] by (auto simp: queue_inv_def held_word_def in_window_def)
  let ?q = "set_control k new q" and ?r = "set_control k EMPTY q"
  have owner: "ucast (source (slot_control k q) - 1) = own i"
    using slot stage_owner by blast
  have "slot_control k q AND COMPLETE \<noteq> 0"
    using c(1) by (simp add: complete_def)
  moreover have "set_control k EMPTY ?q = ?r" "slot_turn k ?q = cursor v p" "slot_val k ?q = Some x" "head ?q = head q"
    using k len turn c(3) by (simp_all add: set_control_def)
  ultimately have "run (repair_consumer v release k (slot_control k q)) (?q, w) = Returned Recovered (?r, w')"
    using assms(7) head distance_behind [OF assms(1,2) p(1,2)] owner
    by (simp add: repair_consumer_def Let_def run_repair_release)
  then have "run (repair_slot_with v k dead live release) (q, w) = Returned Recovered (?r, w')"
    using run_repair_enter [OF assms(1,3,4,8-10), of release w] c(2) by simp
  moreover have "run (claim (v\<lparr>owner := o'\<rparr>)) q2 = Returned (Err Claim_Busy) q2"
    if "buf q2 ! k = buf ?r ! k" "head q2 = cursor v p" "tail q2 \<noteq> head q2" "field_state (recv_field v) q2 = 0" for q2
    using that k len assms(1) by (simp add: claim_def Let_def set_control_def)
  ultimately show ?thesis
    using p k len by (auto simp: set_control_def)
qed

text \<open>
  A ring of two slots. One thread of the receiving participant reads head 0 and an available slot and
  pauses; another thread of that participant receives the first value, the sender sends a third one
  into the slot, and the first thread's compare-exchange succeeds on it.
\<close>

definition two_view :: view where
  "two_view = \<lparr>send_field = 0, recv_field = 6, owner = 0, one_lap = 4, capacity = 2\<rparr>"

definition two_sent :: "nat queue" where
  "two_sent = final_state (run (send_value two_view 2) (final_state (run (send_value two_view 1) (queue_new two_view))))"

definition stale_claim :: "nat queue" where
  "stale_claim = resumed 3 (recv_value (two_view\<lparr>owner := 1\<rparr>)) two_sent 1
     (final_state (run (send_value two_view 3)
       (final_state (run (recv_value (two_view\<lparr>owner := 1\<rparr>)) (crash 3 (recv_value (two_view\<lparr>owner := 1\<rparr>)) two_sent)))))"

definition stale_ghost :: "nat ghost" where
  "stale_ghost = \<lparr>entries = [(0, Some 1), (0, Some 2), (0, Some 3)], takers = [1],
     hold = (\<lambda>_. None)(0 := Some (1, Claiming, 2))\<rparr>"

lemma two_view_ok: "view_ok two_view" "unat (one_lap two_view) < 2 ^ 63"
  by (simp_all add: view_ok_def two_view_def is_power_of_two_iff exI [of _ 2])

lemma stale_claim_value:
  "stale_claim = \<lparr>head = 1, tail = 5, buf = [\<lparr>turn = 4, control = 0x17, val = Some 3\<rparr>, \<lparr>turn = 1, control = 6, val = Some 2\<rparr>],
     lifecycle = 0\<rparr>"
  by code_simp

lemma stale_inv: "queue_inv two_owners two_view stale_ghost stale_claim"
proof -
  have "in_window two_view stale_ghost p \<longleftrightarrow> p \<in> {1, 2}" for p
    by (auto simp: in_window_def stale_ghost_def two_view_def)
  then show ?thesis
    using consumer_word
    by (auto simp: queue_inv_def stale_ghost_def stale_claim_value two_view_def cursor_def
        field_state_def two_owners_def idle_ok_def)
qed

theorem repair_loses_message_witness:
  "\<exists>q'. run (repair_slot_with two_view 0 1 0 (\<lambda>x _. store (Cons x) (Ret True))) (stale_claim, []) = Returned Recovered (q', [3]) \<and>
     head q' = 1 \<and> tail q' = 5 \<and> slot_control 0 q' = EMPTY"
proof -
  have "hold stale_ghost 0 = Some (1, Claiming, 2)" "2 \<noteq> length (takers stale_ghost)" "entries stale_ghost ! 2 = (0, Some 3)"
    by (simp_all add: stale_ghost_def)
  moreover have "repair_next (slot_control 0 stale_claim) 1 0 = Ok 0x217"
    unfolding stale_claim_value by code_simp
  ultimately show ?thesis
    using repair_loses_message [OF two_view_ok stale_inv, of 0 1 2 0 3 "\<lambda>x _. store (Cons x) (Ret True)" "[]" "[3]" 1 0 "0x217" 0]
    by (auto simp: stale_claim_value)
qed










end
