(* ===== verification/Participants.thy ===== *)
theory Participants
  imports Header
begin

text \<open>
  The root's table of participants, after \<open>Root\<close> in \<open>src/header.rs\<close>: one word per slot, holding a
  generation above two bits of state.
\<close>

section \<open>The root's table of participants\<close>

abbreviation MEMBER_STATE_BITS :: nat where "MEMBER_STATE_BITS \<equiv> 2"
abbreviation MEMBER_STATE_MASK :: usize where "MEMBER_STATE_MASK \<equiv> 3"
abbreviation MEMBER_FREE :: usize where "MEMBER_FREE \<equiv> 0"
abbreviation MEMBER_LIVE :: usize where "MEMBER_LIVE \<equiv> 1"
abbreviation MEMBER_DEAD :: usize where "MEMBER_DEAD \<equiv> 2"
abbreviation MEMBER_RETIRED :: usize where "MEMBER_RETIRED \<equiv> 3"
abbreviation MEMBER_GENERATION_MAX :: usize where "MEMBER_GENERATION_MAX \<equiv> 0x3fffffffffffffff"

record member =
  mem_slot :: u8
  mem_generation :: usize

type_synonym root = "usize list"

definition root_new :: root where
  "root_new = replicate PARTICIPANT_CAPACITY 0"

definition root_extent :: layout where
  "root_extent = rc_header_layout \<lparr>size = 0, align = 1\<rparr> \<lparr>size = 8 * PARTICIPANT_CAPACITY, align = 8\<rparr>"

definition root_trait :: "(unit, unit, root) layout_trait" where
  "root_trait =
     \<lparr>lt_magic = 0xABCD, lt_schema = schema_key_new (schema_id ''evering.root'') 1,
      lt_info_schema = unit_schema, lt_info_layout = \<lparr>size = 0, align = 1\<rparr>,
      lt_body_layout = \<lparr>size = 8 * PARTICIPANT_CAPACITY, align = 8\<rparr>,
      lt_storage = (\<lambda>_. Some root_extent),
      lt_info = (\<lambda>_ _. ()), lt_init = (\<lambda>_. (root_new, Initialized)), lt_attach = (\<lambda>_ _. Initialized)\<rparr>"

definition member_word :: "member \<Rightarrow> usize \<Rightarrow> usize" where
  "member_word m state = push_bit MEMBER_STATE_BITS (mem_generation m) OR state"

definition set_word :: "nat \<Rightarrow> usize \<Rightarrow> root \<Rightarrow> root" where
  "set_word i w r = r[i := w]"

primrec join_from :: "nat list \<Rightarrow> (root, member option) prog" where
  "join_from [] = Ret None"
| "join_from (slot # slots) =
     load (\<lambda>r. r ! slot) (\<lambda>observed.
     if observed AND MEMBER_STATE_MASK \<noteq> MEMBER_FREE then join_from slots else
     let prior = drop_bit MEMBER_STATE_BITS observed in
     if prior = MEMBER_GENERATION_MAX then
       compare_exchange (\<lambda>r. r ! slot) (set_word slot) observed
         (member_word \<lparr>mem_slot = of_nat slot, mem_generation = prior\<rparr> MEMBER_RETIRED)
         (\<lambda>_. join_from slots)
     else
       let generation = prior + 1; live = push_bit MEMBER_STATE_BITS generation OR MEMBER_LIVE in
       compare_exchange (\<lambda>r. r ! slot) (set_word slot) observed live (\<lambda>r. case r of
         Ok _ \<Rightarrow> Ret (Some \<lparr>mem_slot = of_nat slot, mem_generation = generation\<rparr>)
       | Err _ \<Rightarrow> join_from slots))"

definition join :: "(root, member option) prog" where
  "join = join_from [0..<PARTICIPANT_CAPACITY]"

definition member_cas :: "member \<Rightarrow> usize \<Rightarrow> usize \<Rightarrow> (root, bool) prog" where
  "member_cas m old new =
     (if PARTICIPANT_CAPACITY \<le> unat (mem_slot m) then Ret False
      else compare_exchange (\<lambda>r. r ! unat (mem_slot m)) (set_word (unat (mem_slot m)))
        (member_word m old) (member_word m new)
        (\<lambda>r. case r of Ok _ \<Rightarrow> Ret True | Err _ \<Rightarrow> Ret False))"

definition root_leave :: "member \<Rightarrow> (root, bool) prog" where
  "root_leave m = member_cas m MEMBER_LIVE MEMBER_FREE"

definition mark_dead :: "member \<Rightarrow> (root, bool) prog" where
  "mark_dead m = member_cas m MEMBER_LIVE MEMBER_DEAD"

definition is_dead :: "member \<Rightarrow> (root, bool) prog" where
  "is_dead m =
     (if PARTICIPANT_CAPACITY \<le> unat (mem_slot m) then Ret False
      else load (\<lambda>r. r ! unat (mem_slot m)) (\<lambda>w. Ret (w = member_word m MEMBER_DEAD)))"

definition release_dead :: "member \<Rightarrow> (root, bool) prog" where
  "release_dead m = member_cas m MEMBER_DEAD
     (if mem_generation m = MEMBER_GENERATION_MAX then MEMBER_RETIRED else MEMBER_FREE)"

section \<open>Words of the table\<close>

abbreviation generation_of :: "usize \<Rightarrow> usize" where
  "generation_of w \<equiv> drop_bit MEMBER_STATE_BITS w"

abbreviation state_of :: "usize \<Rightarrow> usize" where
  "state_of w \<equiv> w AND MEMBER_STATE_MASK"

lemma and_mask_2: "(x :: usize) AND MEMBER_STATE_MASK = take_bit 2 x"
  by (simp add: take_bit_eq_mask mask_numeral)

lemma small_state: "s \<in> {0, 1, 2, 3} \<Longrightarrow> take_bit 2 s = (s :: usize)"
  by auto

lemma word_of_parts:
  assumes "s \<in> {0, 1, 2, 3 :: usize}"
  shows "generation_of (push_bit 2 g OR s) = take_bit 62 g" "state_of (push_bit 2 g OR s) = s"
proof -
  have s: "\<not> bit s n" if "2 \<le> n" for n
    using small_state [OF assms] that by (metis bit_take_bit_iff not_less)
  show "generation_of (push_bit 2 g OR s) = take_bit 62 g"
    by (rule bit_word_eqI) (auto simp: bit_simps s)
  show "state_of (push_bit 2 g OR s) = s"
    unfolding and_mask_2 by (subst small_state [OF assms, symmetric], rule bit_word_eqI) (auto simp: bit_simps)
qed

lemma parts_eq: "generation_of v = generation_of w \<Longrightarrow> state_of v = state_of w \<Longrightarrow> v = (w :: usize)"
  unfolding and_mask_2 by (metis bits_ident)

lemma generation_small: "take_bit 62 (generation_of w) = generation_of w"
  by (rule bit_word_eqI) (auto simp: bit_simps dest: bit_imp_le_length)

lemma generation_Suc:
  assumes "generation_of w \<noteq> MEMBER_GENERATION_MAX"
  shows "take_bit 62 (generation_of w + 1) = generation_of w + 1" "generation_of w < generation_of w + 1"
proof -
  have "unat (generation_of w) < 2 ^ 62"
    using take_bit_nat_less_exp [of 62 "unat (generation_of w)"] generation_small [of w]
    by (metis unsigned_take_bit_eq)
  moreover have "unat (generation_of w) \<noteq> 0x3fffffffffffffff"
    using assms by (simp add: word_unat_eq_iff)
  ultimately have small: "unat (generation_of w) + 1 < 2 ^ 62"
    by simp
  then have up: "unat (generation_of w + 1) = unat (generation_of w) + 1"
    by (simp add: unat_word_ariths)
  with small show "take_bit 62 (generation_of w + 1) = generation_of w + 1"
    by (simp add: word_unat_eq_iff unsigned_take_bit_eq take_bit_nat_eq_self)
  from up show "generation_of w < generation_of w + 1"
    by (simp add: word_less_nat_alt)
qed

section \<open>The life of a slot\<close>

lemma generation_fits: "g \<le> MEMBER_GENERATION_MAX \<Longrightarrow> take_bit 62 g = g"
proof -
  assume "g \<le> MEMBER_GENERATION_MAX"
  then have "unat g \<le> 0x3fffffffffffffff"
    by (simp add: word_le_nat_alt)
  then have "unat g < 2 ^ 62"
    by simp
  then show ?thesis
    by (metis take_bit_nat_eq_self unsigned_take_bit_eq word_unat_eq_iff)
qed

lemma word_is:
  assumes "s \<in> {0, 1, 2, 3}" "mem_generation m \<le> MEMBER_GENERATION_MAX"
  shows "generation_of (member_word m s) = mem_generation m" "state_of (member_word m s) = s"
    "w = member_word m s \<longleftrightarrow> generation_of w = mem_generation m \<and> state_of w = s"
proof -
  show "generation_of (member_word m s) = mem_generation m" "state_of (member_word m s) = s"
    using word_of_parts [OF assms(1)] generation_fits [OF assms(2)] by (simp_all add: member_word_def)
  then show "w = member_word m s \<longleftrightarrow> generation_of w = mem_generation m \<and> state_of w = s"
    using parts_eq by metis
qed

definition slot_is :: "root \<Rightarrow> member \<Rightarrow> usize \<Rightarrow> bool" where
  "slot_is r m state \<longleftrightarrow> unat (mem_slot m) < PARTICIPANT_CAPACITY \<and>
     generation_of (r ! unat (mem_slot m)) = mem_generation m \<and> state_of (r ! unat (mem_slot m)) = state"

definition moves :: "(root, bool) outcome \<Rightarrow> root \<Rightarrow> member \<Rightarrow> usize \<Rightarrow> usize \<Rightarrow> bool" where
  "moves out r m old new \<longleftrightarrow> (if slot_is r m old
     then (\<exists>r'. out = Returned True r' \<and> slot_is r' m new \<and> length r' = length r \<and>
       (\<forall>k. k \<noteq> unat (mem_slot m) \<longrightarrow> r' ! k = r ! k))
     else out = Returned False r)"

lemma member_cas_moves:
  assumes "length r = PARTICIPANT_CAPACITY" "mem_generation m \<le> MEMBER_GENERATION_MAX"
    "old \<in> {0, 1, 2, 3}" "new \<in> {0, 1, 2, 3}"
  shows "moves (run (member_cas m old new) r) r m old new"
proof (cases "unat (mem_slot m) < PARTICIPANT_CAPACITY")
  case True
  have "run (member_cas m old new) r = (if slot_is r m old
      then Returned True (r[unat (mem_slot m) := member_word m new]) else Returned False r)"
    using True unfolding member_cas_def word_is(3) [OF assms(3,2)]
    by (simp add: set_word_def slot_is_def word_is(3) [OF assms(3,2)])
  moreover have "slot_is (r[unat (mem_slot m) := member_word m new]) m new"
    using True assms(1) word_is(1,2) [OF assms(4,2)] by (simp add: slot_is_def)
  ultimately show ?thesis
    by (simp add: moves_def)
next
  case False
  then show ?thesis
    by (simp add: moves_def slot_is_def member_cas_def)
qed

text \<open>
  C17. Each operation on a member is one transition of its slot, taken exactly when the slot
  has that member's generation and the state the operation expects, and no effect otherwise: a handle
  that is stale, that has left, or that is already marked is refused. The last generation is retired.
\<close>

theorem root_transitions:
  assumes "length r = PARTICIPANT_CAPACITY" and "mem_generation m \<le> MEMBER_GENERATION_MAX"
  shows "moves (run (root_leave m) r) r m MEMBER_LIVE MEMBER_FREE \<and>
    moves (run (mark_dead m) r) r m MEMBER_LIVE MEMBER_DEAD \<and>
    moves (run (release_dead m) r) r m MEMBER_DEAD
      (if mem_generation m = MEMBER_GENERATION_MAX then MEMBER_RETIRED else MEMBER_FREE) \<and>
    run (is_dead m) r = Returned (slot_is r m MEMBER_DEAD) r"
proof -
  have "run (is_dead m) r = Returned (slot_is r m MEMBER_DEAD) r"
  proof (cases "unat (mem_slot m) < PARTICIPANT_CAPACITY")
    case True
    then show ?thesis
      using word_is(3) [OF _ assms(2), of 2 "r ! unat (mem_slot m)"] by (simp add: is_dead_def slot_is_def)
  qed (simp add: is_dead_def slot_is_def)
  then show ?thesis
    using assms by (auto simp: root_leave_def mark_dead_def release_dead_def intro: member_cas_moves)
qed

theorem root_transitions_witness:
  "moves (run (mark_dead \<lparr>mem_slot = 2, mem_generation = 1\<rparr>) (root_new[2 := 5])) (root_new[2 := 5])
     \<lparr>mem_slot = 2, mem_generation = 1\<rparr> MEMBER_LIVE MEMBER_DEAD"
  using root_transitions [of "root_new[2 := 5]" "\<lparr>mem_slot = 2, mem_generation = 1\<rparr>"] by (simp add: root_new_def)

section \<open>Joins that interleave\<close>

text \<open>Processes that join, and leave, mark or release members whose handles they have from anywhere.\<close>

datatype root_op = Join | Leave_Member member | Mark_Dead member | Release_Dead member | Ask_Dead member

primrec root_client :: "root_op list \<Rightarrow> (root, member list) prog" where
  "root_client [] = Ret []"
| "root_client (x # xs) = (case x of
     Join \<Rightarrow> bind join (\<lambda>m. bind (root_client xs) (\<lambda>ms. Ret (case m of None \<Rightarrow> ms | Some m \<Rightarrow> m # ms)))
   | Leave_Member m \<Rightarrow> bind (root_leave m) (\<lambda>_. root_client xs)
   | Mark_Dead m \<Rightarrow> bind (mark_dead m) (\<lambda>_. root_client xs)
   | Release_Dead m \<Rightarrow> bind (release_dead m) (\<lambda>_. root_client xs)
   | Ask_Dead m \<Rightarrow> bind (is_dead m) (\<lambda>_. root_client xs))"

type_synonym grants = "nat \<Rightarrow> member set"

definition grants_inv :: "grants \<times> root \<Rightarrow> bool" where
  "grants_inv w \<longleftrightarrow> length (snd w) = PARTICIPANT_CAPACITY \<and>
     (\<forall>i j. i \<noteq> j \<longrightarrow> fst w i \<inter> fst w j = {}) \<and>
     (\<forall>i. \<forall>m\<in>fst w i. unat (mem_slot m) < PARTICIPANT_CAPACITY \<and>
        mem_generation m \<le> generation_of (snd w ! unat (mem_slot m)))"

definition grant_step :: "nat \<Rightarrow> grants \<times> root \<Rightarrow> grants \<times> root \<Rightarrow> bool" where
  "grant_step i w w' \<longleftrightarrow> grants_inv w' \<and> (\<forall>j. j \<noteq> i \<longrightarrow> fst w' j = fst w j)"

definition grant_env :: "nat \<Rightarrow> grants \<times> root \<Rightarrow> grants \<times> root \<Rightarrow> bool" where
  "grant_env i w w' \<longleftrightarrow> (\<exists>j. j \<noteq> i \<and> grant_step j w w')"

definition has_grants :: "nat \<Rightarrow> member set \<Rightarrow> grants \<times> root \<Rightarrow> bool" where
  "has_grants i M w \<longleftrightarrow> grants_inv w \<and> fst w i = M"

lemma stable_has_grants [simp]: "stable_under (grant_env i) (has_grants i M)"
  by (auto simp: stable_under_def grant_env_def grant_step_def has_grants_def)

lemma grant_same: "has_grants i M w \<Longrightarrow> grant_step i w w"
  by (simp add: has_grants_def grant_step_def)

lemma grants_bound:
  assumes "grants_inv (g, r)" "m \<in> g i"
  shows "unat (mem_slot m) < PARTICIPANT_CAPACITY" "mem_generation m \<le> generation_of (r ! unat (mem_slot m))"
  using assms by (auto simp: grants_inv_def)

lemma grants_update:
  assumes "has_grants i M (g, r)" "k < PARTICIPANT_CAPACITY" "generation_of (r ! k) \<le> generation_of w"
  shows "grant_step i (g, r) (g, set_word k w r)" "has_grants i M (g, set_word k w r)"
proof -
  have "generation_of (r ! j) \<le> generation_of (set_word k w r ! j)" if "j < PARTICIPANT_CAPACITY" for j
    using assms that by (auto simp: set_word_def nth_list_update has_grants_def grants_inv_def)
  then have "mem_generation m \<le> generation_of (set_word k w r ! unat (mem_slot m))" if "m \<in> g j" for m j
    using grants_bound [of g r m j] that assms(1) order_trans unfolding has_grants_def by blast
  then have "grants_inv (g, set_word k w r)"
    using assms(1) by (auto simp: has_grants_def grants_inv_def) (simp add: set_word_def)
  with assms(1) show "grant_step i (g, r) (g, set_word k w r)" "has_grants i M (g, set_word k w r)"
    by (auto simp: grant_step_def has_grants_def)
qed

lemma grants_insert:
  assumes "has_grants i M (g, r)" "unat (mem_slot m) < PARTICIPANT_CAPACITY"
    "generation_of (r ! unat (mem_slot m)) < mem_generation m" "generation_of w = mem_generation m"
  shows "grant_step i (g, r) (g(i := insert m M), set_word (unat (mem_slot m)) w r)"
    "has_grants i (insert m M) (g(i := insert m M), set_word (unat (mem_slot m)) w r)" "m \<notin> M"
proof -
  have new: "m \<notin> g j" for j
    using assms(1,3) grants_bound(2) [of g r m j] by (auto simp: has_grants_def)
  with assms(1) show "m \<notin> M"
    by (auto simp: has_grants_def)
  have le: "generation_of (r ! unat (mem_slot m)) \<le> generation_of w"
    using assms(3,4) by simp
  have M: "g i = M" and disj: "\<And>j k. j \<noteq> k \<Longrightarrow> g j \<inter> g k = {}"
    and small: "\<And>j n. n \<in> g j \<Longrightarrow> unat (mem_slot n) < PARTICIPANT_CAPACITY"
    using assms(1) by (auto simp: has_grants_def grants_inv_def)
  have inv: "grants_inv (g, set_word (unat (mem_slot m)) w r)" and len: "length r = PARTICIPANT_CAPACITY"
    using grants_update(2) [OF assms(1,2) le] assms(1) by (simp_all add: has_grants_def grants_inv_def)
  have own: "generation_of (set_word (unat (mem_slot m)) w r ! unat (mem_slot m)) = mem_generation m"
    using assms(2,4) len by (simp add: set_word_def)
  have "grants_inv (g(i := insert m M), set_word (unat (mem_slot m)) w r)"
    unfolding grants_inv_def
  proof (intro conjI allI impI ballI)
    fix j k n
    show "j \<noteq> k \<Longrightarrow> fst (g(i := insert m M), set_word (unat (mem_slot m)) w r) j \<inter>
        fst (g(i := insert m M), set_word (unat (mem_slot m)) w r) k = {}"
      using disj [of j k] new M by auto
    assume "n \<in> fst (g(i := insert m M), set_word (unat (mem_slot m)) w r) j"
    then have "n = m \<or> n \<in> g j"
      using M by (auto split: if_splits)
    then show "unat (mem_slot n) < PARTICIPANT_CAPACITY"
      and "mem_generation n \<le> generation_of (snd (g(i := insert m M), set_word (unat (mem_slot m)) w r) ! unat (mem_slot n))"
      using grants_bound [OF inv, of n j] assms(2) own by auto
  qed (simp add: len set_word_def)
  then show "grant_step i (g, r) (g(i := insert m M), set_word (unat (mem_slot m)) w r)"
    "has_grants i (insert m M) (g(i := insert m M), set_word (unat (mem_slot m)) w r)"
    by (auto simp: grant_step_def has_grants_def)
qed

lemma cas_word_sat:
  assumes "has_grants i M w" "k < PARTICIPANT_CAPACITY" "generation_of old \<le> generation_of new"
    and "\<And>r w. has_grants i M w \<Longrightarrow> sat (grant_env i) (grant_step i) Q (c r) w"
  shows "sat (grant_env i) (grant_step i) Q (compare_exchange (\<lambda>r. r ! k) (set_word k) old new c) w"
proof (rule sat_cas [OF stable_has_grants assms(1)])
  fix g r
  assume "has_grants i M (g, r)" "r ! k = old"
  with assms(2,3) have "grant_step i (g, r) (g, set_word k new r)" "has_grants i M (g, set_word k new r)"
    using grants_update [of i M g r k new] by simp_all
  with assms(4) show "\<exists>g'. grant_step i (g, r) (g', set_word k new r) \<and>
      sat (grant_env i) (grant_step i) Q (c (Ok old)) (g', set_word k new r)"
    by blast
qed (use assms(4) grant_same in blast)

lemma cas_join_sat:
  assumes "has_grants i M w" "k < PARTICIPANT_CAPACITY" "unat (mem_slot m) = k"
    "generation_of old < mem_generation m" "generation_of new = mem_generation m"
    and "\<And>r w. has_grants i M w \<Longrightarrow> sat (grant_env i) (grant_step i) Q (c (Err r)) w"
    and "\<And>w. has_grants i (insert m M) w \<Longrightarrow> m \<notin> M \<Longrightarrow> sat (grant_env i) (grant_step i) Q (c (Ok old)) w"
  shows "sat (grant_env i) (grant_step i) Q (compare_exchange (\<lambda>r. r ! k) (set_word k) old new c) w"
proof (rule sat_cas [OF stable_has_grants assms(1)])
  fix g r
  assume "has_grants i M (g, r)" "r ! k = old"
  with assms(2-5) have "grant_step i (g, r) (g(i := insert m M), set_word k new r)"
      "has_grants i (insert m M) (g(i := insert m M), set_word k new r)" "m \<notin> M"
    using grants_insert [of i M g r m new] by simp_all
  with assms(7) show "\<exists>g'. grant_step i (g, r) (g', set_word k new r) \<and>
      sat (grant_env i) (grant_step i) Q (c (Ok old)) (g', set_word k new r)"
    by blast
qed (use assms(6) grant_same in blast)

lemma member_cas_sat:
  assumes "has_grants i M w" "old \<in> {0, 1, 2, 3}" "new \<in> {0, 1, 2, 3}"
  shows "sat (grant_env i) (grant_step i) (\<lambda>_. has_grants i M) (member_cas m old new) w"
proof -
  have "generation_of (member_word m old) \<le> generation_of (member_word m new)"
    unfolding member_word_def using word_of_parts(1) [OF assms(2)] word_of_parts(1) [OF assms(3)] by simp
  then show ?thesis
    using assms(1)
    by (auto simp: member_cas_def intro!: cas_word_sat sat_Ret_if [OF stable_has_grants] split: result.splits)
qed

abbreviation joined_as :: "nat \<Rightarrow> member set \<Rightarrow> member option \<Rightarrow> grants \<times> root \<Rightarrow> bool" where
  "joined_as i M r w \<equiv> (case r of None \<Rightarrow> has_grants i M w | Some m \<Rightarrow> m \<notin> M \<and> has_grants i (insert m M) w)"

lemma join_from_sat:
  assumes "has_grants i M w" "set slots \<subseteq> {..<PARTICIPANT_CAPACITY}"
  shows "sat (grant_env i) (grant_step i) (joined_as i M) (join_from slots) w"
  using assms
proof (induction slots arbitrary: w)
  case Nil
  then show ?case
    by (auto intro: sat_Ret_if [OF stable_has_grants])
next
  case (Cons k slots)
  let ?sat = "sat (grant_env i) (grant_step i) (joined_as i M)"
  have k: "k < PARTICIPANT_CAPACITY" "unat (of_nat k :: u8) = k"
    using Cons.prems(2) by (simp_all add: unat_of_nat)
  have rest: "?sat (join_from slots) w" if "has_grants i M w" for w
    using Cons.IH [OF that] Cons.prems(2) by simp
  have won: "?sat (Ret (Some m)) w" if "has_grants i (insert m M) w" "m \<notin> M" for m w
    using that by (auto intro: sat_Ret_if [OF stable_has_grants])
  show ?case
    unfolding join_from.simps Let_def
  proof (rule sat_load [OF stable_has_grants Cons.prems(1)], intro conjI)
    fix g r
    assume h: "has_grants i M (g, r)"
    then show "grant_step i (g, r) (g, r)" by (rule grant_same)
    let ?o = "r ! k"
    have "generation_of ?o \<le> generation_of (member_word \<lparr>mem_slot = of_nat k, mem_generation = generation_of ?o\<rparr> MEMBER_RETIRED)"
      using word_of_parts(1) [of 3 "generation_of ?o"] generation_small [of ?o] by (simp add: member_word_def)
    note retire = cas_word_sat [OF h k(1) this, where Q = "joined_as i M" and c = "\<lambda>_. join_from slots", OF rest]
    have take: "?sat (compare_exchange (\<lambda>r. r ! k) (set_word k) ?o
        (push_bit MEMBER_STATE_BITS (generation_of ?o + 1) OR MEMBER_LIVE) (\<lambda>r. case r of
           Ok _ \<Rightarrow> Ret (Some \<lparr>mem_slot = of_nat k, mem_generation = generation_of ?o + 1\<rparr>)
         | Err _ \<Rightarrow> join_from slots)) (g, r)"
      if "generation_of ?o \<noteq> MEMBER_GENERATION_MAX"
      by (rule cas_join_sat [OF h k(1), where m = "\<lparr>mem_slot = of_nat k, mem_generation = generation_of ?o + 1\<rparr>"])
        (use word_of_parts(1) [of 1 "generation_of ?o + 1"] generation_Suc [OF that] k rest won in simp_all)
    show "?sat (if ?o AND MEMBER_STATE_MASK \<noteq> MEMBER_FREE then join_from slots else
       if generation_of ?o = MEMBER_GENERATION_MAX then
         compare_exchange (\<lambda>r. r ! k) (set_word k) ?o
           (member_word \<lparr>mem_slot = of_nat k, mem_generation = generation_of ?o\<rparr> MEMBER_RETIRED) (\<lambda>_. join_from slots)
       else compare_exchange (\<lambda>r. r ! k) (set_word k) ?o
           (push_bit MEMBER_STATE_BITS (generation_of ?o + 1) OR MEMBER_LIVE) (\<lambda>r. case r of
           Ok _ \<Rightarrow> Ret (Some \<lparr>mem_slot = of_nat k, mem_generation = generation_of ?o + 1\<rparr>)
         | Err _ \<Rightarrow> join_from slots)) (g, r)"
      using retire take rest [OF h] by (cases "generation_of ?o = MEMBER_GENERATION_MAX") simp_all
  qed
qed

lemma root_client_sat:
  assumes "has_grants i M w"
  shows "sat (grant_env i) (grant_step i) (\<lambda>ms w. distinct ms \<and> set ms \<inter> M = {} \<and> has_grants i (M \<union> set ms) w)
    (root_client xs) w"
  using assms
proof (induction xs arbitrary: M w)
  case Nil
  then show ?case
    by (auto intro: sat_Ret_if [OF stable_has_grants])
next
  case (Cons x xs)
  let ?Q = "\<lambda>ms w. distinct ms \<and> set ms \<inter> M = {} \<and> has_grants i (M \<union> set ms) w"
  have other: "sat (grant_env i) (grant_step i) ?Q (bind (member_cas m old new) (\<lambda>_. root_client xs)) w"
    if "old \<in> {0, 1, 2, 3}" "new \<in> {0, 1, 2, 3}" for m old new
    by (rule sat_bind [OF member_cas_sat [OF Cons.prems that]]) (rule Cons.IH)
  have ask: "sat (grant_env i) (grant_step i) ?Q (bind (is_dead m) (\<lambda>_. root_client xs)) w" for m
    unfolding is_dead_def using Cons.prems Cons.IH grant_same
    by (auto intro!: sat_load [OF stable_has_grants])
  have join: "sat (grant_env i) (grant_step i) ?Q
      (bind join (\<lambda>m. bind (root_client xs) (\<lambda>ms. Ret (case m of None \<Rightarrow> ms | Some m \<Rightarrow> m # ms)))) w"
    unfolding join_def
  proof (rule sat_bind [OF join_from_sat [OF Cons.prems]])
    fix m w
    assume m: "joined_as i M m w"
    then have "has_grants i (M \<union> set_option m) w" "set_option m \<inter> M = {}"
      by (auto split: option.splits)
    then show "sat (grant_env i) (grant_step i) ?Q
        (bind (root_client xs) (\<lambda>ms. Ret (case m of None \<Rightarrow> ms | Some m \<Rightarrow> m # ms))) w"
      by (intro sat_bind [OF Cons.IH]) (auto intro!: sat_Ret_if [OF stable_has_grants] split: option.splits)
  qed auto
  show ?case
    using other ask join
    by (cases x) (simp_all add: root_leave_def mark_dead_def release_dead_def)
qed

text \<open>
  C14. However the operations of all processes interleave, and whatever handles they hold, no two
  joins are ever granted the same member: a slot and generation name one participation, once.
\<close>

theorem join_unique:
  assumes "length r0 = PARTICIPANT_CAPACITY"
    and "pstep\<^sup>*\<^sup>* (r0, \<lambda>i. root_client (ops i)) (r, T)"
    and "T i = Ret ms" and "T j = Ret ms'"
  shows "distinct ms \<and> (i \<noteq> j \<longrightarrow> set ms \<inter> set ms' = {})"
proof -
  have "has_grants i {} (\<lambda>_. {}, r0)" for i
    using assms(1) by (simp add: has_grants_def grants_inv_def)
  note sat = root_client_sat [OF this]
  obtain g where g: "\<And>i. sat (grant_env i) (grant_step i)
      (\<lambda>ms w. distinct ms \<and> set ms \<inter> {} = {} \<and> has_grants i ({} \<union> set ms) w) (T i) (g, r)"
    using pool_sound [where R = grant_env and G = grant_step, OF sat _ assms(2)]
    by (auto simp: grant_env_def)
  then have "distinct ms \<and> has_grants i (set ms) (g, r)" "has_grants j (set ms') (g, r)"
    using g [of i] g [of j] assms(3,4) by (auto simp: sat.simps)
  then show ?thesis
    unfolding has_grants_def grants_inv_def fst_conv by metis
qed

definition demo_joins :: "root \<times> (nat \<Rightarrow> (root, member list) prog)" where
  "demo_joins = schedule ([0, 1, 0, 1] @ replicate 9 1 @ replicate 9 0) (root_new, \<lambda>i. root_client
     (if i = 0 then [Join, Leave_Member \<lparr>mem_slot = 0, mem_generation = 1\<rparr>, Join]
      else if i = 1 then [Join] else []))"

theorem join_unique_witness:
  "returned (snd demo_joins 0) = Some [\<lparr>mem_slot = 0, mem_generation = 1\<rparr>, \<lparr>mem_slot = 0, mem_generation = 2\<rparr>] \<and>
   returned (snd demo_joins 1) = Some [\<lparr>mem_slot = 1, mem_generation = 1\<rparr>] \<and>
   {\<lparr>mem_slot = 0, mem_generation = 1\<rparr>, \<lparr>mem_slot = 0, mem_generation = 2\<rparr>} \<inter>
     {\<lparr>mem_slot = 1, mem_generation = 1\<rparr>} = {}"
proof -
  have r: "returned (snd demo_joins 0) = Some [\<lparr>mem_slot = 0, mem_generation = 1\<rparr>, \<lparr>mem_slot = 0, mem_generation = 2\<rparr>]"
      "returned (snd demo_joins 1) = Some [\<lparr>mem_slot = 1, mem_generation = 1\<rparr>]"
    by code_simp+
  have "pstep\<^sup>*\<^sup>* (root_new, \<lambda>i. root_client
     (if i = 0 then [Join, Leave_Member \<lparr>mem_slot = 0, mem_generation = 1\<rparr>, Join]
      else if i = 1 then [Join] else [])) (fst demo_joins, snd demo_joins)"
    unfolding demo_joins_def prod.collapse by (rule schedule_reaches)
  from join_unique [OF _ this, of 0 _ 1] r show ?thesis
    by (simp add: root_new_def)
qed

end
