(* ===== verification/Header_Admission.thy ===== *)
theory Header_Admission
  imports Participants
begin

text \<open>
  Admission to a layout and departure from it: first as one participant runs it alone, on every branch, then for any
  interleaving of any number of participants that admit themselves, leave and close. The root layout, with its
  own trait, provides the instance.
\<close>

section \<open>Admission without interference\<close>

text \<open>The check of an initialized header, as a function of its fields.\<close>

definition stored_mismatch ::
    "('c, 'i, 'b) layout_trait \<Rightarrow> 'c \<Rightarrow> layout_context \<Rightarrow> byte list \<Rightarrow> byte list \<Rightarrow> 'i \<Rightarrow> layout_field option" where
  "stored_mismatch t conf ctx extent extent_align info = (case lt_storage t conf of
     None \<Rightarrow> Some Extent
   | Some l \<Rightarrow>
       if extent \<noteq> to_le_bytes (layout_u64 (size l)) then Some Extent
       else if extent_align \<noteq> to_le_bytes (layout_u64 (align l)) then Some ExtentAlign
       else if info \<noteq> lt_info t conf ctx then Some Info
       else None)"

definition recorded_mismatch ::
    "('c, 'i, 'b) layout_trait \<Rightarrow> (recorded_layout, admit_error) result \<Rightarrow> layout_field option" where
  "recorded_mismatch t r = (case r of
     Err (Mismatch f) \<Rightarrow> Some f | Err _ \<Rightarrow> Some State | Ok recorded \<Rightarrow> rl_mismatch t recorded)"

fun first_of :: "'a option list \<Rightarrow> 'a option" where
  "first_of [] = None"
| "first_of (Some x # xs) = Some x"
| "first_of (None # xs) = first_of xs"

definition mismatch_of ::
    "('c, 'i, 'b) layout_trait \<Rightarrow> nat \<Rightarrow> 'c \<Rightarrow> layout_context \<Rightarrow> ('i, 'b) rc_header \<Rightarrow> layout_field option" where
  "mismatch_of t addr conf ctx h = first_of
     [recorded_mismatch t (recorded_of addr (hd_record h)),
      header_fields t ctx h,
      stored_mismatch t conf ctx (rec_extent (hd_record h)) (rec_extent_align (hd_record h)) (hd_info h)]"

lemma first_of_None [simp]: "first_of xs = None \<longleftrightarrow> (\<forall>x \<in> set xs. x = None)"
  by (induction xs rule: first_of.induct) auto

lemma first_of_single [simp]: "first_of [x] = x"
  by (cases x) auto

abbreviation hd_status :: "('i, 'b) rc_header \<Rightarrow> status" where
  "hd_status h \<equiv> status_from_u8 (rcd_status (hd_record h))"

lemma run_recorded_at [simp]:
  "run (recorded_at addr) h =
     Returned (if hd_status h \<noteq> Initialized then Err (Mismatch State) else recorded_of addr (hd_record h)) h"
  by (simp add: recorded_at_def)

lemma run_inspect_at:
  assumes "hd_status h = Initialized"
  shows "run (inspect_at t addr ctx) h = Returned
    (case first_of [recorded_mismatch t (recorded_of addr (hd_record h)), header_fields t ctx h] of
       None \<Rightarrow> Ok (hd_info h)
     | Some f \<Rightarrow> (case recorded_of addr (hd_record h) of Err e \<Rightarrow> Err e | Ok _ \<Rightarrow> Err (Mismatch f))) h"
proof (cases "recorded_of addr (hd_record h)")
  case (Ok recorded)
  then show ?thesis
    using assms
    by (cases "rl_mismatch t recorded"; cases "header_fields t ctx h")
      (simp_all add: inspect_at_def recorded_mismatch_def)
next
  case (Err e)
  then show ?thesis
    using assms by (cases e) (simp_all add: inspect_at_def recorded_mismatch_def)
qed

lemma run_stored_mismatch:
  "run (case lt_storage t conf of
      None \<Rightarrow> Ret (Some Extent)
    | Some l \<Rightarrow> load hd_record (\<lambda>r.
        if rec_extent r \<noteq> to_le_bytes (layout_u64 (size l)) then Ret (Some Extent)
        else if rec_extent_align r \<noteq> to_le_bytes (layout_u64 (align l)) then Ret (Some ExtentAlign)
        else if info \<noteq> lt_info t conf ctx then Ret (Some Info)
        else Ret None)) h =
   Returned (stored_mismatch t conf ctx (rec_extent (hd_record h)) (rec_extent_align (hd_record h)) info) h"
  by (cases "lt_storage t conf") (simp_all add: stored_mismatch_def)

lemma run_mismatch_at [simp]:
  assumes "hd_status h = Initialized"
  shows "run (mismatch_at t addr conf ctx) h = Returned (mismatch_of t addr conf ctx h) h"
proof (cases "recorded_of addr (hd_record h)")
  case (Ok recorded)
  then show ?thesis
    by (cases "rl_mismatch t recorded"; cases "header_fields t ctx h")
      (simp_all add: mismatch_at_def run_inspect_at [OF assms] mismatch_of_def recorded_mismatch_def run_stored_mismatch)
next
  case (Err e)
  then show ?thesis
    by (cases e) (simp_all add: mismatch_at_def run_inspect_at [OF assms] mismatch_of_def recorded_mismatch_def)
qed

lemma run_writes [simp]: "run (foldr store ws k) s = run k (fold (\<lambda>w. w) ws s)"
  by (induction ws arbitrary: s) auto

lemma status_from_u8_u8 [simp]: "status_from_u8 (status_u8 s) = s"
  by (cases s) (simp_all add: status_from_u8_def)

lemma status_values [simp]:
  "status_from_u8 0 = Uninitialized" "status_from_u8 1 = Initializing"
  "status_from_u8 2 = Initialized" "status_from_u8 3 = Status_Corrupted"
  by (simp_all add: status_from_u8_def)

text \<open>What storage must be for its extent to be recorded.\<close>

definition storable :: "nat \<Rightarrow> layout \<Rightarrow> bool" where
  "storable addr l \<longleftrightarrow> RECORD_SIZE \<le> size l \<and> size l < 2 ^ 64 \<and> align l < 2 ^ 64 \<and>
     is_power_of_two (align l) \<and> addr mod align l = 0"

definition header_written ::
    "('c, 'i, 'b) layout_trait \<Rightarrow> layout \<Rightarrow> 'c \<Rightarrow> layout_context \<Rightarrow> usize \<Rightarrow> ('i, 'b) rc_header \<Rightarrow>
     ('i, 'b) rc_header" where
  "header_written t l conf ctx b h = fold (\<lambda>w. w) (header_writes t l conf ctx b) h"

lemma set_members_fields [simp]:
  "hd_members (set_members m h) = m" "hd_record (set_members m h) = hd_record h"
  "hd_inner (set_members m h) = hd_inner h"
  by (simp_all add: set_members_def)

lemma set_status_fields [simp]:
  "hd_members (set_status s h) = hd_members h" "rcd_status (hd_record (set_status s h)) = s"
  "hd_inner (set_status s h) = hd_inner h"
  by (simp_all add: set_status_def)

lemma recorded_of_status [simp]: "recorded_of addr (r\<lparr>rcd_status := s\<rparr>) = recorded_of addr r"
  by (simp add: recorded_of_def record_profile_def Let_def)

lemma mismatch_of_members [simp]: "mismatch_of t addr conf ctx (set_members m h) = mismatch_of t addr conf ctx h"
  by (simp add: mismatch_of_def header_fields_def set_members_def)

lemma mismatch_of_status [simp]: "mismatch_of t addr conf ctx (set_status s h) = mismatch_of t addr conf ctx h"
  by (simp add: mismatch_of_def header_fields_def set_status_def)

lemma layout_u64_unat [simp]: "n < 2 ^ 64 \<Longrightarrow> unat (layout_u64 n) = n"
  by (simp add: layout_u64_def unat_of_nat)

lemma native_written [simp]:
  "record_profile (r\<lparr>rec_profile := (8, 8, 1)\<rparr>) = native_profile"
  by (simp add: record_profile_def native_profile_def)

lemma mismatch_of_written:
  assumes "lt_storage t conf = Some l" "storable addr l"
  shows "mismatch_of t addr conf ctx (header_written t l conf ctx b h) = None"
  using assms
  by (simp add: mismatch_of_def recorded_mismatch_def stored_mismatch_def header_written_def header_writes_def record_writes_def recorded_of_def
      record_profile_def native_profile_def storable_def Let_def rl_mismatch_def schema_key_new_def header_fields_def)

lemma written_fields [simp]:
  "hd_members (header_written t l conf ctx b h) = b"
  "rcd_status (hd_record (header_written t l conf ctx b h)) = rcd_status (hd_record h)"
  "hd_inner (header_written t l conf ctx b h) = fst (lt_init t conf)"
  "hd_info (header_written t l conf ctx b h) = lt_info t conf ctx"
  by (simp_all add: header_written_def header_writes_def record_writes_def)


lemma run_claim_member:
  "run (claim_member (Some s)) h =
     (if hd_members h AND CLOSED \<noteq> 0 then Returned (Err Closed) h
      else if hd_members h AND member_bit s \<noteq> 0 then Returned (Err DuplicateMember) h
      else Returned (Ok (member_bit s)) (set_members (hd_members h OR member_bit s) h))"
  by (simp add: claim_member_def)

lemma member_bit_nonzero [simp]: "member_bit s \<noteq> 0"
  by (simp add: member_bit_def)

lemma drop_membership_new:
  assumes "m AND b = 0"
  shows "(m OR b) AND NOT b = (m :: usize)"
proof -
  have "\<not> (bit m n \<and> bit b n)" for n
    using arg_cong [OF assms, of "\<lambda>x. bit x n"] by (simp add: bit_simps)
  then show ?thesis
    by (intro bit_word_eqI) (auto simp: bit_simps)
qed

text \<open>
  When a field of a header that lies at \<open>addr\<close> agrees with what a participant with trait \<open>t\<close>, configuration
  \<open>conf\<close> and context \<open>ctx\<close> expects of storage \<open>l\<close>, one field at a time.
\<close>

fun field_agrees ::
    "('c, 'i, 'b) layout_trait \<Rightarrow> layout \<Rightarrow> nat \<Rightarrow> 'c \<Rightarrow> layout_context \<Rightarrow> ('i, 'b) rc_header \<Rightarrow> layout_field \<Rightarrow> bool" where
  "field_agrees t l addr conf ctx h Format = (rec_format (hd_record h) = 1)"
| "field_agrees t l addr conf ctx h Profile =
     (case rec_profile (hd_record h) of (w, a, e) \<Rightarrow> w = 8 \<and> a = 8 \<and> e \<noteq> 0)"
| "field_agrees t l addr conf ctx h Magic = (from_le_bytes (rec_magic (hd_record h)) = lt_magic t)"
| "field_agrees t l addr conf ctx h Schema_Field = (from_le_bytes (rec_schema (hd_record h)) = key_id (lt_schema t))"
| "field_agrees t l addr conf ctx h Revision = (from_le_bytes (rec_revision (hd_record h)) = revision (lt_schema t))"
| "field_agrees t l addr conf ctx h Extent =
     (rec_extent (hd_record h) = to_le_bytes (of_nat (size l) :: u64) \<and>
      35 \<le> (from_le_bytes (rec_extent (hd_record h)) :: u64))"
| "field_agrees t l addr conf ctx h ExtentAlign =
     (rec_extent_align (hd_record h) = to_le_bytes (of_nat (align l) :: u64) \<and>
      (\<exists>n. unat (from_le_bytes (rec_extent_align (hd_record h)) :: u64) = 2 ^ n \<and> 2 ^ n dvd addr))"
| "field_agrees t l addr conf ctx h Region = (hd_region h = ctx_region ctx)"
| "field_agrees t l addr conf ctx h Offset = (hd_offset h = ctx_offset ctx)"
| "field_agrees t l addr conf ctx h HeaderSize = (hd_header_size h = of_nat (size (lt_header_layout t)))"
| "field_agrees t l addr conf ctx h HeaderAlign = (hd_header_align h = of_nat (align (lt_header_layout t)))"
| "field_agrees t l addr conf ctx h InfoSchema = (hd_info_schema h = key_id (lt_info_schema t))"
| "field_agrees t l addr conf ctx h InfoRevision = (hd_info_revision h = revision (lt_info_schema t))"
| "field_agrees t l addr conf ctx h InfoSize = (hd_info_size h = of_nat (size (lt_info_layout t)))"
| "field_agrees t l addr conf ctx h InfoAlign = (hd_info_align h = of_nat (align (lt_info_layout t)))"
| "field_agrees t l addr conf ctx h Size = (hd_body_size h = of_nat (size (lt_body_layout t)))"
| "field_agrees t l addr conf ctx h Align = (hd_body_align h = of_nat (align (lt_body_layout t)))"
| "field_agrees t l addr conf ctx h Info = (hd_info h = lt_info t conf ctx)"
| "field_agrees t l addr conf ctx h State = True"

lemma mismatch_of_Some:
  assumes "lt_storage t conf = Some l" "mismatch_of t addr conf ctx h = Some f"
  shows "\<not> field_agrees t l addr conf ctx h f"
  using assms
  by (cases "rec_profile (hd_record h)")
    (auto simp: mismatch_of_def recorded_mismatch_def recorded_of_def rl_mismatch_def header_fields_def stored_mismatch_def
      record_profile_def native_profile_def schema_key_new_def layout_u64_def Let_def is_power_of_two_iff dvd_eq_mod_eq_0
      word_le_nat_alt split: if_splits)

lemma mismatch_of_None:
  assumes "lt_storage t conf = Some l" "mismatch_of t addr conf ctx h = None"
  shows "field_agrees t l addr conf ctx h f"
  using assms
  by (cases "rec_profile (hd_record h)"; cases f)
    (auto simp: mismatch_of_def recorded_mismatch_def recorded_of_def rl_mismatch_def header_fields_def stored_mismatch_def
      record_profile_def native_profile_def schema_key_new_def layout_u64_def Let_def is_power_of_two_iff dvd_eq_mod_eq_0
      word_le_nat_alt split: if_splits)

text \<open>
  C15. Admission to an initialized layout. If some field of the header differs from what the caller
  expects, the caller is refused with the name of a field that differs. If every field agrees, a closed layout and a
  duplicate member are refused, and otherwise the body decides: when \<open>attach\<close> reports \<open>Initialized\<close> the
  caller's bit is added to the members and nothing else changes; when it reports \<open>Initializing\<close> the caller
  is told \<open>Contention\<close>, and otherwise \<open>InvalidHeader\<close>. A refusal leaves the header as it was.
\<close>

theorem admit_initialized:
  assumes "lt_storage t conf = Some l" and "hd_status h = Initialized"
  shows "if \<forall>f. field_agrees t l addr conf ctx h f then
      run (admit (Suc n) t addr conf ctx (Some s)) h =
       (if hd_members h AND CLOSED \<noteq> 0 then Returned (Err Closed) h
        else if hd_members h AND member_bit s \<noteq> 0 then Returned (Err DuplicateMember) h
        else (case lt_attach t (hd_inner h) conf of
            Initialized \<Rightarrow> Returned (Ok ()) (set_members (hd_members h OR member_bit s) h)
          | Initializing \<Rightarrow> Returned (Err Contention) h
          | _ \<Rightarrow> Returned (Err InvalidHeader) h))
    else \<exists>f. \<not> field_agrees t l addr conf ctx h f \<and>
      run (admit (Suc n) t addr conf ctx (Some s)) h = Returned (Err (Mismatch f)) h"
proof (cases "mismatch_of t addr conf ctx h")
  case None
  have undo: "set_members m (set_members m' h) = h" if "m = hd_members h" for m m'
    using that by (simp add: set_members_def)
  from None assms mismatch_of_None [OF assms(1) None] show ?thesis
    by (cases "lt_attach t (hd_inner h) conf")
      (simp_all add: admit_def admit_attach_def run_claim_member drop_membership_def drop_membership_new undo
        set_members_def)
next
  case (Some f)
  then have "run (admit (Suc n) t addr conf ctx (Some s)) h = Returned (Err (Mismatch f)) h"
    using assms by (simp add: admit_def admit_attach_def)
  with mismatch_of_Some [OF assms(1) Some] show ?thesis
    by auto
qed

text \<open>
  C16. Admission to zeroed memory writes every field of the header, the body and the
  caller's bit, and publishes them by the status; the header it leaves passes the check of
  every later admission with the same configuration and context.
\<close>

theorem admit_first:
  assumes "lt_storage t conf = Some l" and "storable addr l" and "rcd_status (hd_record h) = 0" and "allow_init ctx" and "snd (lt_init t conf) = Initialized"
  shows "\<exists>h'. run (admit (Suc n) t addr conf ctx (Some s)) h = Returned (Ok ()) h' \<and>
    hd_status h' = Initialized \<and> hd_members h' = member_bit s \<and> hd_inner h' = fst (lt_init t conf) \<and>
    run (mismatch_at t addr conf ctx) h' = Returned None h'"
proof -
  let ?h = "set_status 2 (header_written t l conf ctx (member_bit s) (set_status 1 h))"
  have "run (admit (Suc n) t addr conf ctx (Some s)) h = Returned (Ok ()) ?h"
    using assms(1,3-5) by (simp add: admit_def admit_init_def header_written_def status_from_u8_def)
  moreover have "mismatch_of t addr conf ctx ?h = None"
    using mismatch_of_written [OF assms(1,2)] by simp
  ultimately show ?thesis
    by (simp add: set_status_def status_from_u8_def)
qed


section \<open>Admissions that interleave\<close>

text \<open>
  Participants with distinct slots admit themselves to one layout and then stay, leave, or try to close it.
  The auxiliary state is the participant that is initializing and the set of members.
\<close>

datatype intent = Stay | Leave | Close

datatype visit = Refused admit_error | Joined | Left | Closed_It | Close_Refused close_error

definition visitor ::
    "nat \<Rightarrow> ('c, 'i, 'b) layout_trait \<Rightarrow> nat \<Rightarrow> 'c \<Rightarrow> layout_context \<Rightarrow> u8 \<Rightarrow> intent \<Rightarrow>
     (('i, 'b) rc_header, visit) prog" where
  "visitor fuel t addr conf ctx s intent =
     bind (admit fuel t addr conf ctx (Some s)) (\<lambda>r. case r of
       Err e \<Rightarrow> Ret (Refused e)
     | Ok _ \<Rightarrow> (case intent of
         Stay \<Rightarrow> Ret Joined
       | Leave \<Rightarrow> bind (header_leave s) (\<lambda>_. Ret Left)
       | Close \<Rightarrow> bind (close_unique s) (\<lambda>r. case r of
           Ok _ \<Rightarrow> Ret Closed_It | Err e \<Rightarrow> Ret (Close_Refused e))))"

record visits =
  starter :: "nat option"
  joined :: "nat set"

definition slots_ok :: "(nat \<Rightarrow> u8) \<Rightarrow> nat set \<Rightarrow> bool" where
  "slots_ok slot I \<longleftrightarrow> inj_on slot I \<and> (\<forall>i\<in>I. unat (slot i) < PARTICIPANT_CAPACITY)"

definition member_set :: "(nat \<Rightarrow> u8) \<Rightarrow> nat set \<Rightarrow> usize \<Rightarrow> bool" where
  "member_set slot M m \<longleftrightarrow> (\<forall>n. bit m n \<longleftrightarrow> (\<exists>i\<in>M. unat (slot i) = n))"

lemma bit_member_bit: "unat s < PARTICIPANT_CAPACITY \<Longrightarrow> bit (member_bit s) n \<longleftrightarrow> n = unat s"
  by (auto simp: member_bit_def bit_simps)

lemma bit_push_one: "k < 64 \<Longrightarrow> bit (push_bit k 1 :: usize) n \<longleftrightarrow> n = k"
  by (auto simp: bit_simps)

lemma bit_CLOSED: "bit CLOSED n \<longleftrightarrow> n = 63"
  using bit_push_one [of 63 n] by simp

lemma member_set_insert:
  "unat (slot i) < PARTICIPANT_CAPACITY \<Longrightarrow> member_set slot M m \<Longrightarrow>
    member_set slot (insert i M) (m OR member_bit (slot i))"
  by (auto simp: member_set_def bit_simps bit_member_bit)

lemma member_set_remove:
  assumes "slots_ok slot I" "i \<in> I" "M \<subseteq> I" "member_set slot M m"
  shows "member_set slot (M - {i}) (m AND NOT (member_bit (slot i)))"
proof -
  have "unat (slot j) = unat (slot i) \<longleftrightarrow> j = i" if "j \<in> M" for j
    using that assms(1-3) by (auto simp: slots_ok_def inj_on_def word_unat_eq_iff)
  moreover have "n < 64" if "bit m n" for n
    using that bit_imp_le_length by fastforce
  ultimately show ?thesis
    using assms by (auto simp: member_set_def slots_ok_def bit_simps bit_member_bit)
qed

lemma member_set_single:
  assumes "slots_ok slot I" "i \<in> I" "M \<subseteq> I" "member_set slot M (member_bit (slot i))"
  shows "M = {i}"
  using assms by (fastforce simp: member_set_def slots_ok_def bit_member_bit inj_on_def word_unat_eq_iff)

lemma member_set_open:
  assumes "slots_ok slot I" "M \<subseteq> I" "member_set slot M m"
  shows "m AND CLOSED = 0"
proof (rule bit_word_eqI)
  fix n assume "n < LENGTH(64)"
  have "\<not> bit m 63"
    using assms by (fastforce simp: member_set_def slots_ok_def)
  then show "bit (m AND CLOSED) n \<longleftrightarrow> bit (0 :: usize) n"
    using bit_CLOSED [of n] by (auto simp: bit_and_iff)
qed

lemma member_set_empty [simp]: "member_set slot {} 0"
  by (simp add: member_set_def)

text \<open>
  The contract of an implementation of \<open>Layout\<close> for a configuration: it asks for storage that a record can
  describe. \<open>admission\<close> adds the participants that visit the layout, each with its own slot.
\<close>

locale shared_layout =
  fixes t :: "('c, 'i, 'b) layout_trait" and addr :: nat and conf :: 'c and l :: layout
  assumes storage: "lt_storage t conf = Some l"
    and storable: "storable addr l"

locale admission = shared_layout t addr conf l
  for t :: "('c, 'i, 'b) layout_trait" and addr :: nat and conf :: 'c and l :: layout +
  fixes ctx :: layout_context and slot :: "nat \<Rightarrow> u8" and I :: "nat set"
  assumes slots: "slots_ok slot I"
begin

definition inv :: "visits \<times> ('i, 'b) rc_header \<Rightarrow> bool" where
  "inv w \<longleftrightarrow> joined (fst w) \<subseteq> I \<and> (case hd_status (snd w) of
     Initializing \<Rightarrow> starter (fst w) \<noteq> None \<and> joined (fst w) = {}
   | Initialized \<Rightarrow> starter (fst w) = None \<and> mismatch_of t addr conf ctx (snd w) = None \<and>
       (hd_members (snd w) = CLOSED \<and> joined (fst w) = {} \<or> member_set slot (joined (fst w)) (hd_members (snd w)))
   | _ \<Rightarrow> starter (fst w) = None \<and> joined (fst w) = {})"

definition step :: "nat \<Rightarrow> visits \<times> ('i, 'b) rc_header \<Rightarrow> visits \<times> ('i, 'b) rc_header \<Rightarrow> bool" where
  "step i w w' \<longleftrightarrow> inv w' \<and>
     (\<forall>j. j \<noteq> i \<longrightarrow> (j \<in> joined (fst w') \<longleftrightarrow> j \<in> joined (fst w)) \<and>
       (starter (fst w) = Some j \<longrightarrow> w' = w) \<and> (starter (fst w') = Some j \<longrightarrow> starter (fst w) = Some j)) \<and>
     (hd_status (snd w) = Initialized \<longrightarrow> hd_status (snd w') = Initialized \<and>
       (hd_members (snd w) = CLOSED \<longrightarrow> hd_members (snd w') = CLOSED))"

definition env :: "nat \<Rightarrow> visits \<times> ('i, 'b) rc_header \<Rightarrow> visits \<times> ('i, 'b) rc_header \<Rightarrow> bool" where
  "env i w w' \<longleftrightarrow> (\<exists>j. j \<noteq> i \<and> step j w w')"

definition at :: "nat \<Rightarrow> bool \<Rightarrow> visits \<times> ('i, 'b) rc_header \<Rightarrow> bool" where
  "at i m w \<longleftrightarrow> inv w \<and> (i \<in> joined (fst w) \<longleftrightarrow> m) \<and> starter (fst w) \<noteq> Some i"

definition open_at :: "nat \<Rightarrow> bool \<Rightarrow> visits \<times> ('i, 'b) rc_header \<Rightarrow> bool" where
  "open_at i m w \<longleftrightarrow> at i m w \<and> hd_status (snd w) = Initialized"

definition writing :: "nat \<Rightarrow> ('i, 'b) rc_header \<Rightarrow> visits \<times> ('i, 'b) rc_header \<Rightarrow> bool" where
  "writing i h w \<longleftrightarrow> inv w \<and> starter (fst w) = Some i \<and> snd w = h \<and> hd_status h = Initializing"

definition closed_at_all :: "visits \<times> ('i, 'b) rc_header \<Rightarrow> bool" where
  "closed_at_all w \<longleftrightarrow> hd_status (snd w) = Initialized \<and> hd_members (snd w) = CLOSED"

lemma stable_at [simp]: "stable_under (env i) (at i m)"
  by (auto simp: stable_under_def env_def step_def at_def)

lemma stable_writing [simp]: "stable_under (env i) (writing i h)"
  unfolding stable_under_def env_def step_def writing_def by metis

lemma stable_closed [simp]: "stable_under (env i) closed_at_all"
  by (auto simp: stable_under_def env_def step_def closed_at_all_def)

lemma stable_open [simp]: "stable_under (env i) (open_at i m)"
proof -
  have "stable_under (env i) (\<lambda>w. hd_status (snd w) = Initialized)"
    by (auto simp: stable_under_def env_def step_def)
  from stable_conj [OF stable_at this] show ?thesis
    by (simp add: open_at_def [abs_def])
qed

lemma step_same: "inv w \<Longrightarrow> step i w w"
  by (auto simp: step_def)

lemma sat_look:
  assumes "stable_under (env i) P" "P w" "\<And>w. P w \<Longrightarrow> inv w"
    and "\<And>g h. P (g, h) \<Longrightarrow> sat (env i) (step i) Q (k (get h)) (g, h)"
  shows "sat (env i) (step i) Q (load get k) w"
  by (rule sat_load [OF assms(1,2)]) (use assms(3,4) step_same in auto)

lemma open_inv: "open_at i m w \<Longrightarrow> inv w"
  by (simp add: open_at_def at_def)

lemma open_fields:
  assumes "open_at i m (g, h)"
  shows "recorded_mismatch t (recorded_of addr (hd_record h)) = None" "header_fields t ctx h = None"
    "stored_mismatch t conf ctx (rec_extent (hd_record h)) (rec_extent_align (hd_record h)) (hd_info h) = None"
    "rec_extent (hd_record h) = to_le_bytes (layout_u64 (size l))"
    "rec_extent_align (hd_record h) = to_le_bytes (layout_u64 (align l))"
    "hd_info h = lt_info t conf ctx"
  using assms storage
  by (auto simp: open_at_def at_def inv_def mismatch_of_def stored_mismatch_def split: if_splits)

lemma recorded_mismatch_None: "recorded_mismatch t r = None \<longleftrightarrow> (\<exists>rl. r = Ok rl \<and> rl_mismatch t rl = None)"
  by (auto simp: recorded_mismatch_def split: result.splits admit_error.splits)

lemma recorded_sat:
  assumes "open_at i m w"
  shows "sat (env i) (step i) (\<lambda>r w. open_at i m w \<and> recorded_mismatch t r = None) (recorded_at addr) w"
  unfolding recorded_at_def
proof (rule sat_look [OF stable_open assms open_inv], assumption)
  fix g h
  assume h: "open_at i m (g, h)"
  then have "hd_status h = Initialized"
    by (simp add: open_at_def)
  moreover have "sat (env i) (step i) (\<lambda>r w. open_at i m w \<and> recorded_mismatch t r = None)
     (load hd_record (\<lambda>r. Ret (recorded_of addr r))) (g, h)"
    by (rule sat_look [OF stable_open h open_inv], assumption)
      (auto intro!: sat_Ret_if [OF stable_open] simp: open_fields)
  ultimately show "sat (env i) (step i) (\<lambda>r w. open_at i m w \<and> recorded_mismatch t r = None)
    (if status_from_u8 ((rcd_status \<circ> hd_record) h) \<noteq> Initialized then Ret (Err (Mismatch State))
     else load hd_record (\<lambda>r. Ret (recorded_of addr r))) (g, h)"
    by simp
qed

lemma inspect_sat:
  assumes "open_at i m w"
  shows "sat (env i) (step i) (\<lambda>r w. open_at i m w \<and> r = Ok (lt_info t conf ctx)) (inspect_at t addr ctx) w"
  unfolding inspect_at_def
proof (rule sat_bind [OF recorded_sat [OF assms]], clarsimp simp: recorded_mismatch_None)
  fix g h
  assume h: "open_at i m (g, h)"
  show "sat (env i) (step i) (\<lambda>r w. open_at i m w \<and> r = Ok (lt_info t conf ctx))
    (load (\<lambda>h. h) (\<lambda>h. case header_fields t ctx h of
      None \<Rightarrow> Ret (Ok (hd_info h)) | Some f \<Rightarrow> Ret (Err (Mismatch f)))) (g, h)"
    by (rule sat_look [OF stable_open h open_inv], assumption)
      (auto intro!: sat_Ret_if [OF stable_open] simp: open_fields)
qed

lemma mismatch_sat:
  assumes "open_at i m w"
  shows "sat (env i) (step i) (\<lambda>r w. open_at i m w \<and> r = None) (mismatch_at t addr conf ctx) w"
  unfolding mismatch_at_def
proof (rule sat_bind [OF inspect_sat [OF assms]], elim conjE, hypsubst)
  fix w
  assume w: "open_at i m w"
  show "sat (env i) (step i) (\<lambda>r w. open_at i m w \<and> r = None)
    (case Ok (lt_info t conf ctx) of
       Err (Mismatch f) \<Rightarrow> Ret (Some f)
     | Err _ \<Rightarrow> Ret (Some State)
     | Ok info \<Rightarrow> (case lt_storage t conf of
         None \<Rightarrow> Ret (Some Extent)
       | Some l \<Rightarrow> load hd_record (\<lambda>r.
           if rec_extent r \<noteq> to_le_bytes (layout_u64 (size l)) then Ret (Some Extent)
           else if rec_extent_align r \<noteq> to_le_bytes (layout_u64 (align l)) then Ret (Some ExtentAlign)
           else if info \<noteq> lt_info t conf ctx then Ret (Some Info)
           else Ret None))) w"
    unfolding storage result.case option.case
    by (rule sat_look [OF stable_open w open_inv], assumption)
      (auto intro!: sat_Ret_if [OF stable_open] simp: open_fields)
qed

lemma open_join:
  assumes "i \<in> I" "open_at i False (g, h)" "hd_members h AND CLOSED = 0"
  shows "step i (g, h) (g\<lparr>joined := insert i (joined g)\<rparr>, set_members (hd_members h OR member_bit (slot i)) h)"
    and "open_at i True (g\<lparr>joined := insert i (joined g)\<rparr>, set_members (hd_members h OR member_bit (slot i)) h)"
proof -
  have "hd_members h \<noteq> CLOSED"
    using assms(3) by auto
  moreover have "unat (slot i) < PARTICIPANT_CAPACITY"
    using slots assms(1) by (simp add: slots_ok_def)
  ultimately have "inv (g\<lparr>joined := insert i (joined g)\<rparr>, set_members (hd_members h OR member_bit (slot i)) h)"
    using assms(1,2) member_set_insert [of slot i "joined g" "hd_members h"]
    by (auto simp: open_at_def at_def inv_def)
  then show "step i (g, h) (g\<lparr>joined := insert i (joined g)\<rparr>, set_members (hd_members h OR member_bit (slot i)) h)"
    and "open_at i True (g\<lparr>joined := insert i (joined g)\<rparr>, set_members (hd_members h OR member_bit (slot i)) h)"
    using assms(2) \<open>hd_members h \<noteq> CLOSED\<close> by (auto simp: step_def open_at_def at_def inv_def)
qed

lemma open_leave:
  assumes "i \<in> I" "open_at i True (g, h)"
  shows "step i (g, h) (g\<lparr>joined := joined g - {i}\<rparr>, set_members (hd_members h AND NOT (member_bit (slot i))) h)"
    and "open_at i False (g\<lparr>joined := joined g - {i}\<rparr>, set_members (hd_members h AND NOT (member_bit (slot i))) h)"
proof -
  have mem: "member_set slot (joined g) (hd_members h)" "joined g \<subseteq> I" "hd_members h \<noteq> CLOSED"
    using assms(2) member_set_open [OF slots, of "joined g" "hd_members h"]
    by (auto simp: open_at_def at_def inv_def)
  then have "inv (g\<lparr>joined := joined g - {i}\<rparr>, set_members (hd_members h AND NOT (member_bit (slot i))) h)"
    using assms member_set_remove [OF slots assms(1) mem(2,1)]
    by (auto simp: open_at_def at_def inv_def)
  then show "step i (g, h) (g\<lparr>joined := joined g - {i}\<rparr>, set_members (hd_members h AND NOT (member_bit (slot i))) h)"
    and "open_at i False (g\<lparr>joined := joined g - {i}\<rparr>, set_members (hd_members h AND NOT (member_bit (slot i))) h)"
    using assms(2) mem(3) by (auto simp: step_def open_at_def at_def inv_def)
qed

lemma member_claim_sat:
  assumes "i \<in> I" "open_at i False w"
  shows "sat (env i) (step i)
    (\<lambda>r w. (\<exists>e. r = Err e) \<and> open_at i False w \<or> r = Ok (member_bit (slot i)) \<and> open_at i True w)
    (claim_member (Some (slot i))) w"
  unfolding claim_member_def option.case
proof (rule sat_look [OF stable_open assms(2) open_inv], assumption)
  fix g h
  assume h: "open_at i False (g, h)"
  let ?o = "hd_members h" and ?Q = "\<lambda>r w. (\<exists>e. r = Err e) \<and> open_at i False w \<or>
    r = Ok (member_bit (slot i)) \<and> open_at i True w"
  have no: "sat (env i) (step i) ?Q (Ret (Err e)) w" if "open_at i False w" for e w
    using that by (auto intro: sat_Ret_if [OF stable_open])
  have "sat (env i) (step i) ?Q (compare_exchange hd_members set_members ?o (?o OR member_bit (slot i))
      (\<lambda>r. case r of Ok _ \<Rightarrow> Ret (Ok (member_bit (slot i))) | Err _ \<Rightarrow> Ret (Err Contention))) (g, h)"
    if "?o AND CLOSED = 0"
  proof (rule sat_cas [OF stable_open h])
    fix g' h'
    assume h': "open_at i False (g', h')" and same: "hd_members h' = ?o"
    from open_join [OF assms(1) h', unfolded same, OF that]
    show "\<exists>g''. step i (g', h') (g'', set_members (?o OR member_bit (slot i)) h') \<and>
        sat (env i) (step i) ?Q (case Ok ?o of Ok _ \<Rightarrow> Ret (Ok (member_bit (slot i))) | Err _ \<Rightarrow> Ret (Err Contention))
          (g'', set_members (?o OR member_bit (slot i)) h')"
      by (auto intro!: exI sat_Ret_if [OF stable_open])
  qed (use no step_same [OF open_inv] in \<open>auto intro!: exI\<close>)
  with no [OF h] show "sat (env i) (step i) ?Q
     (if ?o AND CLOSED \<noteq> 0 then Ret (Err Closed)
      else if ?o AND member_bit (slot i) \<noteq> 0 then Ret (Err DuplicateMember)
      else compare_exchange hd_members set_members ?o (?o OR member_bit (slot i))
        (\<lambda>r. case r of Ok _ \<Rightarrow> Ret (Ok (member_bit (slot i))) | Err _ \<Rightarrow> Ret (Err Contention))) (g, h)"
    by auto
qed

lemma leave_sat:
  assumes "i \<in> I" "open_at i True w"
    and "\<And>m w. open_at i False w \<Longrightarrow> sat (env i) (step i) Q (k m) w"
  shows "sat (env i) (step i) Q
    (fetch_update hd_members set_members (\<lambda>m. m AND NOT (member_bit (slot i))) k) w"
  using open_leave [OF assms(1)] assms(3) by (intro sat_update [OF stable_open assms(2)]) (auto intro!: exI)

lemma attach_sat:
  assumes "i \<in> I" "open_at i False w"
  shows "sat (env i) (step i) (\<lambda>r. open_at i (r = Ok ())) (admit_attach t addr conf ctx (Some (slot i))) w"
  unfolding admit_attach_def
proof (rule sat_bind [OF mismatch_sat [OF assms(2)]], elim conjE, hypsubst, unfold option.case)
  fix w
  assume w: "open_at i False w"
  let ?Q = "\<lambda>r. open_at i (r = Ok ())"
  show "sat (env i) (step i) ?Q
    (bind (claim_member (Some (slot i))) (\<lambda>c. case c of
         Err e \<Rightarrow> Ret (Err e)
       | Ok b \<Rightarrow> load hd_inner (\<lambda>inner. case lt_attach t inner conf of
           Initialized \<Rightarrow> Ret (Ok ())
         | Initializing \<Rightarrow> bind (drop_membership b) (\<lambda>_. Ret (Err Contention))
         | _ \<Rightarrow> bind (drop_membership b) (\<lambda>_. Ret (Err InvalidHeader))))) w"
  proof (rule sat_bind [OF member_claim_sat [OF assms(1) w]], elim disjE conjE exE; hypsubst; unfold result.case)
    fix e w
    assume "open_at i False w"
    then show "sat (env i) (step i) ?Q (Ret (Err e)) w"
      by (intro sat_Ret_if [OF stable_open]) auto
  next
    fix w
    assume w: "open_at i True w"
    have drop: "sat (env i) (step i) ?Q (bind (drop_membership (member_bit (slot i))) (\<lambda>_. Ret (Err e))) w"
      if "open_at i True w" for e w
      unfolding drop_membership_def using that
      by (auto simp: intro!: leave_sat [OF assms(1)] sat_Ret_if [OF stable_open])
    show "sat (env i) (step i) ?Q (load hd_inner (\<lambda>inner. case lt_attach t inner conf of
           Initialized \<Rightarrow> Ret (Ok ())
         | Initializing \<Rightarrow> bind (drop_membership (member_bit (slot i))) (\<lambda>_. Ret (Err Contention))
         | _ \<Rightarrow> bind (drop_membership (member_bit (slot i))) (\<lambda>_. Ret (Err InvalidHeader)))) w"
      by (rule sat_look [OF stable_open w open_inv], assumption)
        (auto intro!: drop sat_Ret_if [OF stable_open] split: status.splits)
  qed
qed

lemma writes_sat:
  assumes "writing i h w" and "\<And>u h. u \<in> set ws \<Longrightarrow> rcd_status (hd_record (u h)) = rcd_status (hd_record h)"
    and "\<And>w. writing i (fold (\<lambda>u. u) ws h) w \<Longrightarrow> sat (env i) (step i) Q k w"
  shows "sat (env i) (step i) Q (foldr store ws k) w"
  using assms
proof (induction ws arbitrary: h w)
  case (Cons u ws)
  have "step i (g, h) (g, u h) \<and> writing i (u h) (g, u h)" if "writing i h (g, h)" for g
    using that Cons.prems(2) [of u h] by (auto simp: writing_def step_def inv_def)
  moreover have "sat (env i) (step i) Q (foldr store ws k) w'" if "writing i (u h) w'" for w'
    using that Cons.prems(2,3) by (intro Cons.IH [of "u h"]) auto
  ultimately show ?case
    unfolding foldr.simps o_apply
    by (intro sat_store [OF stable_writing Cons.prems(1)]) (auto simp: writing_def intro!: exI)
qed auto

lemma header_writes_status:
  "u \<in> set (header_writes t l conf ctx b) \<Longrightarrow> rcd_status (hd_record (u h)) = rcd_status (hd_record h)"
  by (auto simp: header_writes_def record_writes_def)

lemma writing_done:
  assumes "i \<in> I" "writing i (header_written t l conf ctx (member_bit (slot i)) h) (g, h')"
  shows "step i (g, h') (\<lparr>starter = None, joined = {i}\<rparr>, set_status 2 h')"
    and "open_at i True (\<lparr>starter = None, joined = {i}\<rparr>, set_status 2 h')"
proof -
  have "unat (slot i) < PARTICIPANT_CAPACITY"
    using slots assms(1) by (simp add: slots_ok_def)
  then have "member_set slot {i} (member_bit (slot i))"
    using member_set_insert [of slot i "{}" 0] by simp
  then have "inv (\<lparr>starter = None, joined = {i}\<rparr>, set_status 2 h')"
    using assms mismatch_of_written [OF storage storable]
    by (auto simp: writing_def inv_def)
  then show "step i (g, h') (\<lparr>starter = None, joined = {i}\<rparr>, set_status 2 h')"
    and "open_at i True (\<lparr>starter = None, joined = {i}\<rparr>, set_status 2 h')"
    using assms by (auto simp: step_def open_at_def at_def writing_def inv_def)
qed

lemma writing_failed:
  assumes "writing i h (g, h')"
  shows "step i (g, h') (\<lparr>starter = None, joined = {}\<rparr>, set_status 3 h')"
    and "at i False (\<lparr>starter = None, joined = {}\<rparr>, set_status 3 h')"
  using assms by (auto simp: step_def at_def writing_def inv_def)

lemma init_sat:
  assumes "i \<in> I" "writing i h w"
  shows "sat (env i) (step i) (\<lambda>r. at i (r = Ok ())) (admit_init t l conf ctx (Some (slot i))) w"
  unfolding admit_init_def Let_def option.case
proof (rule writes_sat [OF assms(2)], erule header_writes_status, fold header_written_def)
  fix w
  let ?b = "member_bit (slot i)" and ?Q = "\<lambda>r :: (unit, admit_error) result. at i (r = Ok ())"
  assume w: "writing i (header_written t l conf ctx ?b h) w"
  have ok: "sat (env i) (step i) ?Q (store (set_status (status_u8 Initialized)) (Ret (Ok ()))) w"
    by (rule sat_store [OF stable_writing w])
      (use writing_done [OF assms(1)] in \<open>auto simp: open_at_def intro!: exI sat_Ret_if [OF stable_at]\<close>)
  have corrupt: "sat (env i) (step i) ?Q (store (set_status (status_u8 Status_Corrupted)) (Ret (Err InvalidHeader))) w"
    if "writing i h' w" for h' w
    by (rule sat_store [OF stable_writing that])
      (use writing_failed in \<open>auto intro!: exI sat_Ret_if [OF stable_at]\<close>)
  have clear: "\<exists>g'. step i (g, h') (g', set_members m h') \<and> sat (env i) (step i) ?Q
      (store (set_status (status_u8 Status_Corrupted)) (Ret (Err InvalidHeader))) (g', set_members m h')"
    if "writing i h'' (g, h')" for g h' h'' m
  proof -
    have "step i (g, h') (g, set_members m h')" "writing i (set_members m h') (g, set_members m h')"
      using that by (auto simp: step_def writing_def inv_def)
    with corrupt show ?thesis by blast
  qed
  have failed: "sat (env i) (step i) ?Q (bind (drop_membership ?b) (\<lambda>_.
      store (set_status (status_u8 Status_Corrupted)) (Ret (Err InvalidHeader)))) w"
    unfolding drop_membership_def if_P [OF member_bit_nonzero] bind_fetch_update bind.simps
    by (rule sat_update [OF stable_writing w]) (erule clear)
  show "sat (env i) (step i) ?Q (if snd (lt_init t conf) \<noteq> Initialized then
          bind (drop_membership ?b) (\<lambda>_.
          store (set_status (status_u8 Status_Corrupted)) (Ret (Err InvalidHeader)))
        else store (set_status (status_u8 Initialized)) (Ret (Ok ()))) w"
    using ok failed by simp
qed

lemma at_inv: "at i m w \<Longrightarrow> inv w"
  by (simp add: at_def)

lemma status_zero [simp]: "status_from_u8 v = Uninitialized \<longleftrightarrow> v = 0"
  by (auto simp: status_from_u8_def)

lemma start_writing:
  assumes "at i False (g, h)" "rcd_status (hd_record h) = 0"
  shows "step i (g, h) (g\<lparr>starter := Some i\<rparr>, set_status 1 h)"
    and "writing i (set_status 1 h) (g\<lparr>starter := Some i\<rparr>, set_status 1 h)"
  using assms by (auto simp: step_def at_def writing_def inv_def)

lemma loop_sat:
  assumes "i \<in> I" "at i False w"
  shows "sat (env i) (step i) (\<lambda>r. at i (r = Ok ())) (admit_loop fuel t addr l conf ctx (Some (slot i))) w"
  using assms(2)
proof (induction fuel arbitrary: w)
  case (Suc fuel)
  let ?Q = "\<lambda>r. at i (r = Ok ())"
  have no: "sat (env i) (step i) ?Q (Ret (Err e)) w" if "at i False w" for e w
    using that by (auto intro: sat_Ret_if [OF stable_at])
  have begin_init: "sat (env i) (step i) ?Q (compare_exchange (rcd_status \<circ> hd_record) set_status
      (status_u8 Uninitialized) (status_u8 Initializing) (\<lambda>r. case r of
        Err _ \<Rightarrow> admit_loop fuel t addr l conf ctx (Some (slot i))
      | Ok _ \<Rightarrow> admit_init t l conf ctx (Some (slot i)))) w" if "at i False w" for w
  proof (rule sat_cas [OF stable_at that])
    fix g h
    assume "at i False (g, h)" "(rcd_status \<circ> hd_record) h = status_u8 Uninitialized"
    then have "step i (g, h) (g\<lparr>starter := Some i\<rparr>, set_status 1 h)"
        "sat (env i) (step i) ?Q (admit_init t l conf ctx (Some (slot i))) (g\<lparr>starter := Some i\<rparr>, set_status 1 h)"
      using start_writing [of i g h] init_sat [OF assms(1)] by simp_all
    then show "\<exists>g'. step i (g, h) (g', set_status (status_u8 Initializing) h) \<and>
        sat (env i) (step i) ?Q (case Ok (status_u8 Uninitialized) of
            Err _ \<Rightarrow> admit_loop fuel t addr l conf ctx (Some (slot i))
          | Ok _ \<Rightarrow> admit_init t l conf ctx (Some (slot i))) (g', set_status (status_u8 Initializing) h)"
      unfolding status_u8.simps result.case by blast
  qed (use Suc.IH step_same at_inv in \<open>auto intro!: exI\<close>)
  have attach: "sat (env i) (step i) ?Q (admit_attach t addr conf ctx (Some (slot i))) w"
    if "at i False w" "hd_status (snd w) = Initialized" for w
    by (rule sat_mono [OF attach_sat [OF assms(1)]]) (use that in \<open>simp_all add: open_at_def\<close>)
  show ?case
    unfolding admit_loop.simps
  proof (rule sat_look [OF stable_at Suc.prems at_inv], assumption)
    fix g h
    assume "at i False (g, h)"
    note facts = no [OF this] begin_init [OF this] attach [OF this]
    show "sat (env i) (step i) ?Q (case status_from_u8 ((rcd_status \<circ> hd_record) h) of
       Uninitialized \<Rightarrow>
         if \<not> allow_init ctx then Ret (Err (Mismatch State))
         else compare_exchange (rcd_status \<circ> hd_record) set_status
           (status_u8 Uninitialized) (status_u8 Initializing) (\<lambda>r. case r of
             Err _ \<Rightarrow> admit_loop fuel t addr l conf ctx (Some (slot i))
           | Ok _ \<Rightarrow> admit_init t l conf ctx (Some (slot i)))
     | Initializing \<Rightarrow> Ret (Err Contention)
     | Status_Corrupted \<Rightarrow> Ret (Err InvalidHeader)
     | Initialized \<Rightarrow> admit_attach t addr conf ctx (Some (slot i))) (g, h)"
      by (cases "hd_status h") (simp_all add: facts del: status_u8.simps status_zero)
  qed
qed simp

lemma admit_sat:
  "i \<in> I \<Longrightarrow> at i False w \<Longrightarrow>
    sat (env i) (step i) (\<lambda>r. at i (r = Ok ())) (admit fuel t addr conf ctx (Some (slot i))) w"
  using loop_sat by (simp add: admit_def storage)

lemma at_open: "at i True w \<Longrightarrow> open_at i True w"
  by (cases "hd_status (snd w)") (auto simp: open_at_def at_def inv_def)

lemma close_step:
  assumes "i \<in> I" "open_at i True (g, h)" "hd_members h = member_bit (slot i)"
  shows "step i (g, h) (g\<lparr>joined := {}\<rparr>, set_members CLOSED h)"
    and "at i False (g\<lparr>joined := {}\<rparr>, set_members CLOSED h) \<and> closed_at_all (g\<lparr>joined := {}\<rparr>, set_members CLOSED h)"
proof -
  have "hd_members h \<noteq> CLOSED"
    using assms(2) member_set_open [OF slots, of "joined g" "hd_members h"] by (auto simp: open_at_def at_def inv_def)
  have h: "hd_status h = Initialized" "starter g = None" "mismatch_of t addr conf ctx h = None" "joined g \<subseteq> I"
      "member_set slot (joined g) (hd_members h)"
    using assms(2) by (auto simp: open_at_def at_def inv_def)
  have "joined g = {i}"
    by (rule member_set_single [OF slots assms(1) h(4) h(5) [unfolded assms(3)]])
  with h \<open>hd_members h \<noteq> CLOSED\<close> show "step i (g, h) (g\<lparr>joined := {}\<rparr>, set_members CLOSED h)"
    and "at i False (g\<lparr>joined := {}\<rparr>, set_members CLOSED h) \<and> closed_at_all (g\<lparr>joined := {}\<rparr>, set_members CLOSED h)"
    by (simp_all add: step_def at_def inv_def closed_at_all_def)
qed

definition visited :: "nat \<Rightarrow> visit \<Rightarrow> visits \<times> ('i, 'b) rc_header \<Rightarrow> bool" where
  "visited i v w \<longleftrightarrow> inv w \<and> (v = Joined \<longrightarrow> open_at i True w) \<and> (v = Closed_It \<longrightarrow> closed_at_all w)"

lemma visited_no: "at i m w \<Longrightarrow> v \<noteq> Joined \<Longrightarrow> v \<noteq> Closed_It \<Longrightarrow> sat (env i) (step i) (visited i) (Ret v) w"
  by (rule sat_Ret_if [OF stable_at]) (auto simp: visited_def at_inv)

lemma unique_close_sat:
  assumes "i \<in> I" "open_at i True w"
  shows "sat (env i) (step i) (visited i)
    (bind (close_unique (slot i)) (\<lambda>r. case r of Ok _ \<Rightarrow> Ret Closed_It | Err e \<Rightarrow> Ret (Close_Refused e))) w"
  unfolding close_unique_def bind_compare_exchange
proof (rule sat_cas [OF stable_open assms(2)])
  fix g h
  assume h: "open_at i True (g, h)" "hd_members h = member_bit (slot i)"
  have "sat (env i) (step i) (visited i) (Ret Closed_It) (g\<lparr>joined := {}\<rparr>, set_members CLOSED h)"
    by (rule sat_Ret_if [OF stable_conj [OF stable_at stable_closed] close_step(2) [OF assms(1) h]])
      (auto simp: visited_def at_inv)
  then show "\<exists>g'. step i (g, h) (g', set_members CLOSED h) \<and> sat (env i) (step i) (visited i)
     (bind (case Ok (member_bit (slot i)) of Ok x \<Rightarrow> Ret (Ok ())
        | Err observed \<Rightarrow> Ret (Err (if observed AND CLOSED \<noteq> 0 then Already_Closed
             else if observed AND member_bit (slot i) = 0 then MissingMember else Close_Contention)))
       (\<lambda>r. case r of Ok _ \<Rightarrow> Ret Closed_It | Err e \<Rightarrow> Ret (Close_Refused e))) (g', set_members CLOSED h)"
    using close_step(1) [OF assms(1) h] by auto
next
  fix g h
  assume h: "open_at i True (g, h)"
  then have "at i True (g, h)"
    by (simp add: open_at_def)
  with step_same [OF open_inv [OF h]]
  show "\<exists>g'. step i (g, h) (g', h) \<and> sat (env i) (step i) (visited i)
     (bind (case Err (hd_members h) of Ok x \<Rightarrow> Ret (Ok ())
        | Err observed \<Rightarrow> Ret (Err (if observed AND CLOSED \<noteq> 0 then Already_Closed
             else if observed AND member_bit (slot i) = 0 then MissingMember else Close_Contention)))
       (\<lambda>r. case r of Ok _ \<Rightarrow> Ret Closed_It | Err e \<Rightarrow> Ret (Close_Refused e))) (g', h)"
    by (auto intro!: exI visited_no)
qed

lemma visitor_sat:
  assumes "i \<in> I" "at i False w"
  shows "sat (env i) (step i) (visited i) (visitor fuel t addr conf ctx (slot i) intent) w"
  unfolding visitor_def
proof (rule sat_bind [OF admit_sat [OF assms]])
  fix r :: "(unit, admit_error) result" and w
  assume w: "at i (r = Ok ()) w"
  have leave: "sat (env i) (step i) (visited i) (bind (header_leave (slot i)) (\<lambda>_. Ret Left)) w"
    if "open_at i True w"
    unfolding header_leave_def bind_fetch_update bind.simps
    by (rule leave_sat [OF assms(1) that]) (auto simp: open_at_def intro: visited_no)
  have stay: "sat (env i) (step i) (visited i) (Ret Joined) w" if "open_at i True w"
    using that by (rule sat_Ret_if [OF stable_open]) (simp add: visited_def open_inv)
  show "sat (env i) (step i) (visited i) (case r of
       Err e \<Rightarrow> Ret (Refused e)
     | Ok _ \<Rightarrow> (case intent of
         Stay \<Rightarrow> Ret Joined
       | Leave \<Rightarrow> bind (header_leave (slot i)) (\<lambda>_. Ret Left)
       | Close \<Rightarrow> bind (close_unique (slot i)) (\<lambda>r. case r of
           Ok _ \<Rightarrow> Ret Closed_It | Err e \<Rightarrow> Ret (Close_Refused e)))) w"
  proof (cases r)
    case (Ok u)
    with w have "open_at i True w" by (simp add: at_open)
    with Ok leave stay unique_close_sat [OF assms(1)] show ?thesis
      by (cases intent) auto
  qed (use visited_no [OF w] in auto)
qed

end

text \<open>The pool of visitors; a thread outside \<open>I\<close> has nothing to do.\<close>

definition visitors ::
    "nat \<Rightarrow> ('c, 'i, 'b) layout_trait \<Rightarrow> nat \<Rightarrow> 'c \<Rightarrow> layout_context \<Rightarrow> (nat \<Rightarrow> u8) \<Rightarrow> (nat \<Rightarrow> intent) \<Rightarrow> nat set \<Rightarrow>
     nat \<Rightarrow> (('i, 'b) rc_header, visit) prog" where
  "visitors fuel t addr conf ctx slot intent I i =
     (if i \<in> I then visitor fuel t addr conf ctx (slot i) (intent i) else Ret Left)"

context admission
begin

lemma visitors_sound:
  assumes "rcd_status (hd_record h0) = 0"
    and "pstep\<^sup>*\<^sup>* (h0, visitors fuel t addr conf ctx slot intent I) (h, T)"
  obtains g where "inv (g, h)" "\<And>i. sat (env i) (step i) (visited i) (T i) (g, h)"
proof -
  let ?g = "\<lparr>starter = None, joined = {}\<rparr>"
  have at0: "at i False (?g, h0)" for i
    using assms(1) by (simp add: at_def inv_def)
  have "sat (env i) (step i) (visited i) (visitors fuel t addr conf ctx slot intent I i) (?g, h0)" for i
    using visitor_sat [OF _ at0, of i] visited_no [OF at0, of Left i] by (simp add: visitors_def)
  from pool_sound [where Q = visited, OF this _ assms(2)] obtain g where
    path: "(\<lambda>w w'. \<exists>i. step i w w')\<^sup>*\<^sup>* (?g, h0) (g, h)"
    and sat: "\<And>i. sat (env i) (step i) (visited i) (T i) (g, h)"
    by (auto simp: env_def)
  from path have "inv (g, h)"
    using at_inv [OF at0] by (cases rule: rtranclp.cases) (auto simp: step_def)
  with sat show thesis by (rule that [rotated])
qed

end

text \<open>
  C13. Participants with distinct slots visit one zeroed layout, interleaved in any
  way. Whenever the layout is published its header passes the full check; a participant whose
  admission succeeded and who stays has its member bit set in it; and once a participant has closed
  the layout, the members word is exactly the closed mark and nobody is still a member. No visitor panics.
\<close>

theorem admission_exclusive:
  assumes "lt_storage t conf = Some l" and "storable addr l" and "slots_ok slot I"
    and "rcd_status (hd_record h0) = 0"
    and "pstep\<^sup>*\<^sup>* (h0, visitors fuel t addr conf ctx slot intent I) (h, T)"
  shows "(hd_status h = Initialized \<longrightarrow> run (mismatch_at t addr conf ctx) h = Returned None h) \<and>
    (\<forall>i. T i \<noteq> Panic) \<and>
    (\<forall>i\<in>I. T i = Ret Joined \<longrightarrow> hd_status h = Initialized \<and> hd_members h AND member_bit (slot i) \<noteq> 0) \<and>
    (\<forall>i\<in>I. T i = Ret Closed_It \<longrightarrow> hd_members h = CLOSED \<and> (\<forall>j\<in>I. T j \<noteq> Ret Joined))"
proof -
  have adm: "admission t addr conf l slot I"
    using assms(1-3) by unfold_locales
  obtain g where g: "admission.inv t addr conf ctx slot I (g, h)"
    "\<And>i. sat (admission.env t addr conf ctx slot I i) (admission.step t addr conf ctx slot I i)
      (admission.visited t addr conf ctx slot I i) (T i) (g, h)"
    by (rule admission.visitors_sound [OF adm assms(4,5)]) blast
  have v: "admission.visited t addr conf ctx slot I i v (g, h)" if "T i = Ret v" for i v
    using g(2) [of i] that by (auto simp: sat.simps)
  have "hd_members h AND member_bit (slot i) \<noteq> 0" if "i \<in> I" "T i = Ret Joined" for i
  proof -
    from v [OF that(2)] have "member_set slot (joined g) (hd_members h)" "i \<in> joined g"
      by (auto simp: admission.visited_def [OF adm] admission.open_at_def [OF adm] admission.at_def [OF adm]
          admission.inv_def [OF adm])
    then have "bit (hd_members h AND member_bit (slot i)) (unat (slot i))"
      using assms(3) that(1) by (auto simp: member_set_def bit_simps bit_member_bit slots_ok_def)
    then show ?thesis by auto
  qed
  moreover have "hd_members h = CLOSED \<and> (\<forall>j\<in>I. T j \<noteq> Ret Joined)" if "i \<in> I" "T i = Ret Closed_It" for i
  proof -
    from v [OF that(2)] have c: "hd_members h = CLOSED"
      by (simp add: admission.visited_def [OF adm] admission.closed_at_all_def [OF adm])
    then have "T j \<noteq> Ret Joined" if "j \<in> I" for j
      using v [of j Joined] member_set_open [OF assms(3), of "joined g" CLOSED]
      by (auto simp: admission.visited_def [OF adm] admission.open_at_def [OF adm] admission.at_def [OF adm]
          admission.inv_def [OF adm])
    with c show ?thesis by blast
  qed
  moreover have "hd_status h = Initialized" if "T i = Ret Joined" for i
    using v [OF that] by (simp add: admission.visited_def [OF adm] admission.open_at_def [OF adm])
  moreover have "T i \<noteq> Panic" for i
    using g(2) [of i] by auto
  moreover have "run (mismatch_at t addr conf ctx) h = Returned None h" if "hd_status h = Initialized"
    using that g(1) by (simp add: admission.inv_def [OF adm])
  ultimately show ?thesis by blast
qed

section \<open>The root layout\<close>

lemma root_extent_value [simp]: "root_extent = \<lparr>size = 640, align = 8\<rparr>"
  by code_simp

lemma root_extent_storable: "storable 4096 root_extent"
  by (simp add: storable_def is_power_of_two_iff) (rule exI [of _ 3], simp)

interpretation root_layout: shared_layout root_trait 4096 "()" root_extent
  using root_extent_storable by unfold_locales (simp_all add: root_trait_def)

interpretation root_admission: admission root_trait 4096 "()" root_extent ctx "\<lambda>i. of_nat i" "{..<PARTICIPANT_CAPACITY}" for ctx
proof unfold_locales
  show "slots_ok (\<lambda>i. of_nat i) {..<PARTICIPANT_CAPACITY}"
    by (auto simp: slots_ok_def inj_on_def unat_of_nat word_unat_eq_iff)
qed

definition zero_header :: "(unit, root) rc_header" where
  "zero_header = \<lparr>hd_record = \<lparr>rcd_status = 0, rec_format = 0, rec_profile = (0, 0, 0), rec_magic = [], rec_revision = [],
       rec_schema = [], rec_extent = [], rec_extent_align = []\<rparr>, hd_members = 0, hd_region = \<lparr>high = 0, low = 0\<rparr>,
     hd_offset = 0, hd_header_size = 0, hd_header_align = 0, hd_info_schema = 0, hd_info_revision = 0,
     hd_info_size = 0, hd_info_align = 0, hd_body_size = 0, hd_body_align = 0, hd_info = (), hd_inner = []\<rparr>"

definition root_ctx :: layout_context where
  "root_ctx = \<lparr>ctx_region = \<lparr>high = 1, low = 2\<rparr>, ctx_offset = 64, allow_init = True\<rparr>"

theorem admit_first_witness:
  "\<exists>h'. run (admit 1 root_trait 4096 () root_ctx (Some 5)) zero_header = Returned (Ok ()) h' \<and>
     hd_status h' = Initialized \<and> hd_members h' = member_bit 5 \<and> hd_inner h' = root_new \<and>
     run (mismatch_at root_trait 4096 () root_ctx) h' = Returned None h'"
  using admit_first [OF root_layout.storage root_layout.storable, of zero_header root_ctx 0 5]
  by (simp add: zero_header_def root_ctx_def root_trait_def)

definition root_admitted :: "(unit, root) rc_header" where
  "root_admitted = final_state (run (admit 1 root_trait 4096 () root_ctx (Some 5)) zero_header)"

theorem admit_initialized_witness:
  "run (admit 1 root_trait 4096 () root_ctx (Some 7)) root_admitted =
     Returned (Ok ()) (set_members 0xa0 root_admitted)"
proof -
  have h: "hd_status root_admitted = Initialized" "mismatch_of root_trait 4096 () root_ctx root_admitted = None"
      "hd_members root_admitted = 0x20"
    by code_simp+
  from mismatch_of_None [OF root_layout.storage h(2)] have "\<forall>f. field_agrees root_trait root_extent 4096 () root_ctx root_admitted f"
    by blast
  with admit_initialized [OF root_layout.storage h(1), of 4096 root_ctx 0 7] h(3) show ?thesis
    by (simp add: member_bit_def root_trait_def)
qed

definition root_visits :: "(unit, root) rc_header \<times> (nat \<Rightarrow> ((unit, root) rc_header, visit) prog)" where
  "root_visits = schedule ([0, 1, 1] @ replicate 3 0 @ replicate 24 1)
     (zero_header, visitors 2 root_trait 4096 () root_ctx of_nat (\<lambda>_. Stay) {..<PARTICIPANT_CAPACITY})"

theorem admission_exclusive_witness:
  "returned (snd root_visits 0) = Some (Refused Contention) \<and> returned (snd root_visits 1) = Some Joined \<and>
   hd_members (fst root_visits) AND member_bit 1 \<noteq> 0"
proof -
  have r: "returned (snd root_visits 0) = Some (Refused Contention) \<and> returned (snd root_visits 1) = Some Joined"
    by code_simp
  have "pstep\<^sup>*\<^sup>* (zero_header, visitors 2 root_trait 4096 () root_ctx of_nat (\<lambda>_. Stay) {..<PARTICIPANT_CAPACITY})
      (fst root_visits, snd root_visits)"
    unfolding root_visits_def prod.collapse by (rule schedule_reaches)
  from admission_exclusive [OF root_layout.storage root_layout.storable root_admission.slots _ this]
  have "\<forall>i\<in>{..<PARTICIPANT_CAPACITY}. snd root_visits i = Ret Joined \<longrightarrow>
      hd_members (fst root_visits) AND member_bit (of_nat i) \<noteq> 0"
    by (simp add: zero_header_def)
  with r show ?thesis
    by (auto dest: bspec [of _ _ 1])
qed

end
