(* ===== verification/Pool_Exclusive.thy ===== *)
theory Pool_Exclusive
  imports Pool
begin

text \<open>
  Many threads of many participants use one pool at once. The auxiliary state records which thread holds which slot,
  at which generation and, when it wrote the block itself, with which contents.
\<close>

section \<open>Clients\<close>

datatype 'v pool_op =
  Put_Value layout 'v | Put_Slice layout "'v list" | Drop_At nat | Detach_At nat | Take_Over pool_token |
  Free_Token "bool list" pool_token | Reap "bool list" u8

type_synonym 'v held = "(allocation \<times> 'v list option) list"

definition keep :: "allocation \<Rightarrow> 'v list option \<Rightarrow> 'v held \<Rightarrow> 'v held" where
  "keep a vs held = (if al_live a then held @ [(a, vs)] else held)"

definition remove_at :: "nat \<Rightarrow> 'v held \<Rightarrow> 'v held" where
  "remove_at n held = take n held @ drop (Suc n) held"

primrec pool_client ::
    "pool_ref \<Rightarrow> pool_info \<Rightarrow> 'v pool_op list \<Rightarrow> 'v held \<Rightarrow> ('v pool_store, 'v held) prog" where
  "pool_client r info [] held = Ret held"
| "pool_client r info (x # xs) held = (case x of
     Put_Value l v \<Rightarrow> bind (pool_put r l v) (\<lambda>res. case res of
       Ok (a, _) \<Rightarrow> pool_client r info xs (keep a (Some [v]) held) | Err _ \<Rightarrow> pool_client r info xs held)
   | Put_Slice l vs \<Rightarrow> bind (pool_copy r l vs) (\<lambda>res. case res of
       Ok (a, _) \<Rightarrow> pool_client r info xs (keep a (Some vs) held) | Err _ \<Rightarrow> pool_client r info xs held)
   | Drop_At n \<Rightarrow>
       if n < length held then bind (drop_allocation r (fst (held ! n))) (\<lambda>_. pool_client r info xs (remove_at n held))
       else pool_client r info xs held
   | Detach_At n \<Rightarrow>
       if n < length held then bind (detach r (fst (held ! n))) (\<lambda>(res, _).
         pool_client r info xs (if res = Ok () then remove_at n held else held))
       else pool_client r info xs held
   | Take_Over t \<Rightarrow> bind (takeover r t) (\<lambda>res. case res of
       Ok a \<Rightarrow> pool_client r info xs (keep a None held) | Err _ \<Rightarrow> pool_client r info xs held)
   | Free_Token bs t \<Rightarrow> bind (release_in bs info (size (geo_layout (ref_geometry r))) t None)
       (\<lambda>_. pool_client r info xs held)
   | Reap bs dead \<Rightarrow> bind (pool_recover bs info (size (geo_layout (ref_geometry r))) dead)
       (\<lambda>_. pool_client r info xs held))"

section \<open>Who holds what\<close>

type_synonym 'v holders = "nat \<Rightarrow> nat \<Rightarrow> (nat \<times> u32 \<times> 'v list option) option"

definition pool_ref_of :: "pool_geometry \<Rightarrow> layout_id \<Rightarrow> u8 \<Rightarrow> pool_ref" where
  "pool_ref_of g pid own = \<lparr>ref_geometry = g, ref_id = pid, ref_owner = own\<rparr>"

definition reaps_only :: "u8 set \<Rightarrow> 'v pool_op list \<Rightarrow> bool" where
  "reaps_only gone ops \<longleftrightarrow> (\<forall>bs d. Reap bs d \<in> set ops \<longrightarrow> d \<in> gone)"

text \<open>A geometry in which no reservation panics.\<close>

definition geometry_ok :: "pool_geometry \<Rightarrow> bool" where
  "geometry_ok g \<longleftrightarrow> geo_classes g \<noteq> [] \<and> (\<forall>c\<in>set (geo_classes g). 0 < cls_slots c)"

text \<open>
  The contract that the threads of a pool rely on: a geometry that was built and can be recovered from its recorded
  information, and participants within the capacity, none of which is reaped while its threads run.
\<close>

locale pool_use =
  fixes geo :: pool_geometry and info :: pool_info and pid :: layout_id and own :: "nat \<Rightarrow> u8" and gone :: "u8 set"
  assumes geometry: "geometry_ok geo" "recorded info (size (geo_layout geo)) = Some (Some geo)"
    and owners: "unat (own i) < PARTICIPANT_CAPACITY" "own i \<notin> gone"
begin

abbreviation ref :: "nat \<Rightarrow> pool_ref" where
  "ref i \<equiv> pool_ref_of geo pid (own i)"

definition inv :: "'v holders \<times> 'v pool_store \<Rightarrow> bool" where
  "inv w \<longleftrightarrow> map length (controls (snd w)) = map cls_slots (geo_classes geo) \<and>
     (\<forall>c s i g vo. fst w c s = Some (i, g, vo) \<longrightarrow> slot_ok geo c s \<and> state_local g (own i) = Some (ctl c s (snd w)) \<and>
        (\<forall>vs. vo = Some vs \<longrightarrow> blocks (snd w) c s = Some vs))"

definition mine :: "nat \<Rightarrow> 'v holders \<Rightarrow> (nat \<times> nat \<times> u32 \<times> 'v list option) set" where
  "mine i h = {(c, s, g, vo). h c s = Some (i, g, vo)}"

definition step :: "nat \<Rightarrow> 'v holders \<times> 'v pool_store \<Rightarrow> 'v holders \<times> 'v pool_store \<Rightarrow> bool" where
  "step i w w' \<longleftrightarrow> inv w' \<and> (\<forall>j. j \<noteq> i \<longrightarrow> mine j (fst w') = mine j (fst w))"

definition env :: "nat \<Rightarrow> 'v holders \<times> 'v pool_store \<Rightarrow> 'v holders \<times> 'v pool_store \<Rightarrow> bool" where
  "env i w w' \<longleftrightarrow> (\<exists>j. j \<noteq> i \<and> step j w w')"

definition has :: "nat \<Rightarrow> (nat \<times> nat \<times> u32 \<times> 'v list option) set \<Rightarrow> 'v holders \<times> 'v pool_store \<Rightarrow> bool" where
  "has i S w \<longleftrightarrow> inv w \<and> mine i (fst w) = S"

lemma stable_has [simp]: "stable_under (env i) (has i S)"
  by (auto simp: stable_under_def env_def step_def has_def)

lemma step_same: "has i S w \<Longrightarrow> step i w w"
  by (simp add: has_def step_def)

lemma heldD:
  assumes "inv (h, st)" "h c s = Some (i, g, vo)"
  shows "slot_ok geo c s" "state_local g (own i) = Some (ctl c s st)" "vo = Some vs \<Longrightarrow> blocks st c s = Some vs"
  using assms by (auto simp: inv_def)

lemma ctl_set_ctl:
  assumes "inv (h, st)" "slot_ok geo c s"
  shows "ctl c' s' (set_ctl c s w st) = (if c' = c \<and> s' = s then w else ctl c' s' st)"
proof -
  have "length (controls st) = length (geo_classes geo)" "length (controls st ! c) = cls_slots (geo_classes geo ! c)"
    using assms map_eq_imp_length_eq [of length "controls st" cls_slots "geo_classes geo"]
      arg_cong [of _ _ "\<lambda>xs. xs ! c"]
    by (auto simp: inv_def slot_ok_def dest!: arg_cong [of _ _ "\<lambda>xs. xs ! c"])
  with assms(2) show ?thesis
    by (auto simp: ctl_def set_ctl_def slot_ok_def nth_list_update)
qed

lemma shape_set_ctl:
  "map length (controls (set_ctl c s w st)) = map length (controls st)"
  by (cases "c < length (controls st)") (auto intro!: nth_equalityI simp: set_ctl_def nth_list_update)

lemma blocks_set_ctl [simp]: "blocks (set_ctl c s w st) = blocks st"
  by (simp add: set_ctl_def)

text \<open>Writing the control word of a slot that nobody holds.\<close>

lemma write_unheld:
  assumes "has i S (h, st)" "slot_ok geo c s" "h c s = None"
  shows "step i (h, st) (h, set_ctl c s w st)" "has i S (h, set_ctl c s w st)"
proof -
  have inv: "inv (h, st)" using assms(1) by (simp add: has_def)
  have "inv (h, set_ctl c s w st)"
    using inv assms(3) by (auto simp: inv_def ctl_set_ctl [OF inv assms(2)] shape_set_ctl)
  with assms(1) show "step i (h, st) (h, set_ctl c s w st)" "has i S (h, set_ctl c s w st)"
    by (auto simp: step_def has_def)
qed

lemma take_unheld:
  assumes "has i S (h, st)" "slot_ok geo c s" "h c s = None" "state_local g (own i) = Some w"
  defines "h' \<equiv> h(c := (h c)(s := Some (i, g, None)))"
  shows "step i (h, st) (h', set_ctl c s w st)" "has i (insert (c, s, g, None) S) (h', set_ctl c s w st)"
proof -
  have inv: "inv (h, st)" using assms(1) by (simp add: has_def)
  have "inv (h', set_ctl c s w st)"
    using inv assms(2,4) by (auto simp: inv_def h'_def ctl_set_ctl [OF inv assms(2)] shape_set_ctl split: if_splits)
  moreover have "mine i h' = insert (c, s, g, None) S"
    using assms(1,3) by (auto simp: mine_def h'_def has_def split: if_splits)
  moreover have "mine j h' = mine j h" if "j \<noteq> i" for j
    using that assms(3) by (auto simp: mine_def h'_def split: if_splits)
  ultimately show "step i (h, st) (h', set_ctl c s w st)" "has i (insert (c, s, g, None) S) (h', set_ctl c s w st)"
    by (auto simp: step_def has_def)
qed

lemma give_up:
  assumes "has i S (h, st)" "(c, s, g, vo) \<in> S"
  defines "h' \<equiv> h(c := (h c)(s := None))"
  shows "step i (h, st) (h', set_ctl c s w st)" "has i (S - {(c, s, g, vo)}) (h', set_ctl c s w st)"
    "slot_ok geo c s" "state_local g (own i) = Some (ctl c s st)"
proof -
  have inv: "inv (h, st)" and held: "h c s = Some (i, g, vo)"
    using assms(1,2) by (auto simp: has_def mine_def)
  with inv show ok: "slot_ok geo c s" "state_local g (own i) = Some (ctl c s st)"
    by (auto simp: inv_def)
  have "inv (h', set_ctl c s w st)"
    using inv by (auto simp: inv_def h'_def ctl_set_ctl [OF inv ok(1)] shape_set_ctl split: if_splits)
  moreover have "mine i h' = S - {(c, s, g, vo)}"
    using assms(1) held by (auto simp: mine_def h'_def has_def split: if_splits)
  moreover have "mine j h' = mine j h" if "j \<noteq> i" for j
    using that held by (auto simp: mine_def h'_def split: if_splits)
  ultimately show "step i (h, st) (h', set_ctl c s w st)" "has i (S - {(c, s, g, vo)}) (h', set_ctl c s w st)"
    by (auto simp: step_def has_def)
qed

lemma write_held:
  fixes vs :: "'v list"
  assumes "has i S (h, st)" "(c, s, g, vo) \<in> S"
  defines "h' \<equiv> h(c := (h c)(s := Some (i, g, Some vs)))"
  shows "step i (h, st) (h', set_block c s vs st)"
    "has i (insert (c, s, g, Some vs) (S - {(c, s, g, vo)})) (h', set_block c s vs st)"
proof -
  have inv: "inv (h, st)" and held: "h c s = Some (i, g, vo)"
    using assms(1,2) by (auto simp: has_def mine_def)
  have "inv (h', set_block c s vs st)"
    using inv held by (auto simp: inv_def h'_def ctl_def set_block_def split: if_splits)
  moreover have "mine i h' = insert (c, s, g, Some vs) (S - {(c, s, g, vo)})"
    using assms(1) held by (auto simp: mine_def h'_def has_def split: if_splits)
  moreover have "mine j h' = mine j h" if "j \<noteq> i" for j
    using that held by (auto simp: mine_def h'_def split: if_splits)
  ultimately show "step i (h, st) (h', set_block c s vs st)"
    "has i (insert (c, s, g, Some vs) (S - {(c, s, g, vo)})) (h', set_block c s vs st)"
    by (auto simp: step_def has_def)
qed

text \<open>A word that is not owned by the running participants is the word of an unheld slot.\<close>

lemma unheld:
  assumes "has i S (h, st)" "state_owner (ctl c s st) = None \<or> (\<exists>d. state_owner (ctl c s st) = Some d \<and> d \<in> gone)"
  shows "h c s = None"
proof (rule ccontr)
  assume "h c s \<noteq> None"
  then obtain j g vo where "h c s = Some (j, g, vo)" by (cases "h c s") auto
  then have "state_owner (ctl c s st) = Some (own j)"
    using assms(1) state_local_Some(3) heldD(2) unfolding has_def by blast
  with assms(2) owners(2) show False by auto
qed

section \<open>Each operation keeps to its slots\<close>

lemma sat_done: "has i S w \<Longrightarrow> (\<And>w. has i S w \<Longrightarrow> Q a w) \<Longrightarrow> sat (env i) (step i) Q (Ret a) w"
  by (rule sat_Ret_if [OF stable_has])

lemma sat_read:
  assumes "has i S w" "\<And>h st. has i S (h, st) \<Longrightarrow> sat (env i) (step i) Q (k (get st)) (h, st)"
  shows "sat (env i) (step i) Q (load get k) w"
  by (rule sat_load [OF stable_has assms(1)]) (use assms(2) step_same in auto)

text \<open>An exchange from a word that is nobody's to a word that is nobody's.\<close>

lemma sat_cas_unheld:
  assumes "has i S w" "slot_ok geo c s" "state_owner old = None \<or> (\<exists>d\<in>gone. state_owner old = Some d)"
    and "\<And>r w. has i S w \<Longrightarrow> sat (env i) (step i) Q (k r) w"
  shows "sat (env i) (step i) Q (compare_exchange_weak b (ctl c s) (set_ctl c s) old new k) w"
  unfolding compare_exchange_weak_def
proof (rule sat_StepI [OF stable_has assms(1)])
  fix h st
  assume h: "has i S (h, st)"
  have "step i (h, st) (h, set_ctl c s new st) \<and> has i S (h, set_ctl c s new st)" if "ctl c s st = old"
    using write_unheld [OF h assms(2) unheld [OF h]] assms(3) that by blast
  with h step_same [OF h] assms(4) show "\<exists>h'. step i (h, st) (h', fst (if ctl c s st = old \<and> \<not> b
        then (set_ctl c s new st, k (Ok old)) else (st, k (Err (ctl c s st))))) \<and>
      sat (env i) (step i) Q (snd (if ctl c s st = old \<and> \<not> b
        then (set_ctl c s new st, k (Ok old)) else (st, k (Err (ctl c s st)))))
       (h', fst (if ctl c s st = old \<and> \<not> b then (set_ctl c s new st, k (Ok old)) else (st, k (Err (ctl c s st)))))"
    by auto
qed

text \<open>An exchange from a word that is nobody's to the thread's own word.\<close>

lemma sat_cas_take:
  assumes "has i S w" "slot_ok geo c s" "state_owner old = None" "state_local g (own i) = Some new"
    and "\<And>r w. has i S w \<Longrightarrow> sat (env i) (step i) Q (k (Err r)) w"
    and "\<And>w. has i (insert (c, s, g, None) S) w \<Longrightarrow> (\<And>g vo. (c, s, g, vo) \<notin> S) \<Longrightarrow>
      sat (env i) (step i) Q (k (Ok old)) w"
  shows "sat (env i) (step i) Q (compare_exchange (ctl c s) (set_ctl c s) old new k) w"
proof (rule sat_cas [OF stable_has assms(1)])
  fix h st
  assume h: "has i S (h, st)" "ctl c s st = old"
  then have none: "h c s = None"
    using unheld [OF h(1)] assms(3) by blast
  then have "(c, s, g, vo) \<notin> S" for g vo
    using h(1) by (auto simp: has_def mine_def)
  with take_unheld [OF h(1) assms(2) none assms(4)] assms(6)
  show "\<exists>h'. step i (h, st) (h', set_ctl c s new st) \<and> sat (env i) (step i) Q (k (Ok old)) (h', set_ctl c s new st)"
    by blast
qed (use assms(5) step_same in blast)

text \<open>An exchange from the thread's own word: it cannot fail.\<close>

lemma sat_cas_give:
  assumes "has i S w" "(c, s, g, vo) \<in> S" "state_local g (own i) = Some old"
    and "\<And>w. has i (S - {(c, s, g, vo)}) w \<Longrightarrow> sat (env i) (step i) Q (k (Ok old)) w"
  shows "sat (env i) (step i) Q (compare_exchange (ctl c s) (set_ctl c s) old new k) w"
proof (rule sat_cas [OF stable_has assms(1)])
  fix h st
  assume h: "has i S (h, st)"
  from give_up [OF h assms(2)] assms(3,4) show
    "ctl c s st = old \<Longrightarrow> \<exists>h'. step i (h, st) (h', set_ctl c s new st) \<and>
      sat (env i) (step i) Q (k (Ok old)) (h', set_ctl c s new st)"
    "ctl c s st \<noteq> old \<Longrightarrow> \<exists>h'. step i (h, st) (h', st) \<and> sat (env i) (step i) Q (k (Err (ctl c s st))) (h', st)"
    by (blast, simp)
qed

definition fresh :: "allocation \<Rightarrow> (nat \<times> nat \<times> u32 \<times> 'v list option) set \<Rightarrow> bool" where
  "fresh a S \<longleftrightarrow> (\<forall>g vo. (al_class a, al_slot a, g, vo) \<notin> S)"

definition took :: "nat \<Rightarrow> (nat \<times> nat \<times> u32 \<times> 'v list option) set \<Rightarrow> allocation option \<Rightarrow>
    'v holders \<times> 'v pool_store \<Rightarrow> bool" where
  "took i S a w = (case a of None \<Rightarrow> has i S w
     | Some a \<Rightarrow> al_live a \<and> fresh a S \<and> has i (insert (al_class a, al_slot a, al_generation a, None) S) w)"

lemma took_simps [simp]:
  "took i S None w \<longleftrightarrow> has i S w"
  "took i S (Some a) w \<longleftrightarrow> al_live a \<and> fresh a S \<and> has i (insert (al_class a, al_slot a, al_generation a, None) S) w"
  by (simp_all add: took_def)

lemma ref_simps [simp]: "ref_geometry (ref i) = geo" "ref_owner (ref i) = own i" "ref_id (ref i) = pid"
  by (simp_all add: pool_ref_of_def)

lemma probes_sat:
  assumes "has i S w" "\<And>s. s \<in> set slots \<Longrightarrow> slot_ok geo c s"
  shows "sat (env i) (step i) (took i S) (claim_probes (ref i) c slots) w"
  using assms
proof (induction slots arbitrary: w)
  case Nil
  then show ?case by (auto intro: sat_done simp: took_def)
next
  case (Cons s slots)
  have rest: "sat (env i) (step i) (took i S) (claim_probes (ref i) c slots) w" if "has i S w" for w
    using Cons.IH [OF that] Cons.prems(2) by simp
  have ok: "slot_ok geo c s"
    using Cons.prems(2) by simp
  show ?case
    unfolding claim_probes.simps Let_def
  proof (rule sat_read [OF Cons.prems(1)])
    fix h st
    assume h: "has i S (h, st)"
    let ?f = "ctl c s st" and ?g = "saturating_add (state_generation (ctl c s st)) 1"
    let ?a = "\<lparr>al_class = c, al_slot = s, al_generation = ?g, al_live = True\<rparr>"
    have "sat (env i) (step i) (took i S) (compare_exchange (ctl c s) (set_ctl c s) ?f new (\<lambda>res. case res of
             Ok _ \<Rightarrow> Ret (Some ?a) | Err _ \<Rightarrow> claim_probes (ref i) c slots)) (h, st)"
      if "state_local ?g (own i) = Some new" "state_canonical ?f" "\<not> state_allocated ?f" for new
      by (rule sat_cas_take [OF h ok _ that(1)])
        (use that(2,3) rest in \<open>auto simp: state_canonical_def took_def fresh_def intro: sat_done\<close>)
    with rest [OF h] show "sat (env i) (step i) (took i S) (case state_local ?g (ref_owner (ref i)) of
       None \<Rightarrow> claim_probes (ref i) c slots
     | Some new \<Rightarrow>
         if state_canonical ?f \<and> \<not> state_allocated ?f \<and> state_generation ?f < MAX_GENERATION then
           compare_exchange (ctl c s) (set_ctl c s) ?f new (\<lambda>res. case res of
             Ok _ \<Rightarrow> Ret (Some ?a) | Err _ \<Rightarrow> claim_probes (ref i) c slots)
         else claim_probes (ref i) c slots) (h, st)"
      by (auto split: option.splits)
  qed
qed

lemma probe_order_ok:
  assumes "0 < n" "s \<in> set (probe_order c n)"
  shows "s < n"
  using assms by (auto simp: probe_order_def Let_def)

lemma classes_sat:
  assumes "has i S w" "set cs \<subseteq> {..<length (geo_classes geo)}"
  shows "sat (env i) (step i) (took i S) (claim_classes (ref i) cs) w"
  using assms
proof (induction cs arbitrary: w)
  case Nil
  then show ?case by (auto intro: sat_done simp: took_def)
next
  case (Cons c cs)
  let ?n = "cls_slots (geo_classes geo ! c)"
  have n: "0 < ?n"
    using geometry(1) Cons.prems(2) by (auto simp: geometry_ok_def)
  then have "sat (env i) (step i) (took i S) (claim_probes (ref i) c (probe_order c ?n)) w"
    using Cons.prems by (intro probes_sat) (auto simp: slot_ok_def dest: probe_order_ok)
  then have "sat (env i) (step i) (took i S) (bind (claim_probes (ref i) c (probe_order c ?n)) (\<lambda>a. case a of
        Some a \<Rightarrow> Ret (Some a) | None \<Rightarrow> claim_classes (ref i) cs)) w"
  proof (rule sat_bind)
    fix a w
    assume a: "took i S a w"
    show "sat (env i) (step i) (took i S) (case a of Some a \<Rightarrow> Ret (Some a) | None \<Rightarrow> claim_classes (ref i) cs) w"
    proof (cases a)
      case None
      then show ?thesis
        using a Cons.IH [of w] Cons.prems(2) by simp
    next
      case (Some b)
      then show ?thesis
        using a by (auto intro: sat_done)
    qed
  qed
  with n show ?case
    by (simp add: Let_def)
qed

definition got :: "nat \<Rightarrow> (nat \<times> nat \<times> u32 \<times> 'v list option) set \<Rightarrow> 'v list option \<Rightarrow> allocation \<Rightarrow>
    'v holders \<times> 'v pool_store \<Rightarrow> bool" where
  "got i S vo a w \<longleftrightarrow> (if al_live a
     then fresh a S \<and> has i (insert (al_class a, al_slot a, al_generation a, vo) S) w else has i S w)"

lemma claim_pool_sat:
  assumes "has i S w"
  shows "sat (env i) (step i) (\<lambda>res w. case res of Ok (a, _) \<Rightarrow> got i S None a w | Err _ \<Rightarrow> has i S w) (pool_claim (ref i) l) w"
proof -
  let ?Q = "\<lambda>(res :: (allocation \<times> pointer, unit pool_reserve_error) result) w.
    case res of Ok (a, _) \<Rightarrow> got i S None a w | Err _ \<Rightarrow> has i S w"
  have no: "sat (env i) (step i) ?Q (Ret (Err e)) w" for e
    using assms by (auto intro: sat_done)
  have found: "sat (env i) (step i) ?Q (bind (claim_classes (ref i) [p..<length (geo_classes geo)]) (\<lambda>a. case a of
      None \<Rightarrow> Ret (Err (Unavailable ()))
    | Some a \<Rightarrow> Ret (Ok (a, Offset_Of (payload_offset (geo_classes geo ! al_class a) (al_slot a)))))) w" for p
    by (rule sat_bind [OF classes_sat [OF assms]])
      (auto simp: got_def split: option.splits intro: sat_done)
  obtain c cs where cs: "geo_classes geo = c # cs"
    using geometry(1) by (cases "geo_classes geo") (auto simp: geometry_ok_def)
  have "sat (env i) (step i) ?Q (Ret (Ok (allocation_empty, Dangling (align l)))) w"
    using assms by (auto simp: got_def allocation_empty_def intro: sat_done)
  then show ?thesis
    using no found [unfolded cs] by (auto simp: pool_claim_def Let_def cs simp del: upt_Suc split: option.splits)
qed

lemma write_sat:
  assumes "got i S None a w" "\<And>w. got i S (Some vs) a w \<Longrightarrow> sat (env i) (step i) Q k w"
  shows "sat (env i) (step i) Q (write_block a vs k) w"
proof (cases "al_live a")
  case True
  let ?e = "(al_class a, al_slot a, al_generation a, None)" and ?e' = "(al_class a, al_slot a, al_generation a, Some vs)"
  from True assms(1) have w: "has i (insert ?e S) w" and new: "fresh a S"
    by (simp_all add: got_def)
  then have S: "insert ?e S - {?e} = S"
    by (auto simp: fresh_def)
  have "\<exists>h'. step i (h, st) (h', set_block (al_class a) (al_slot a) vs st) \<and>
      sat (env i) (step i) Q k (h', set_block (al_class a) (al_slot a) vs st)" if "has i (insert ?e S) (h, st)" for h st
    using write_held [OF that insertI1, of vs] assms(2) True new unfolding S got_def by auto
  with True show ?thesis
    unfolding write_block_def by simp (rule sat_store [OF stable_has w])
next
  case False
  then show ?thesis
    using assms(1,2) by (simp add: write_block_def got_def)
qed

lemma got_done: "got i S vo a w \<Longrightarrow> (\<And>w. got i S vo a w \<Longrightarrow> Q x w) \<Longrightarrow> sat (env i) (step i) Q (Ret x) w"
  by (cases "al_live a") (auto simp: got_def intro: sat_done)

lemma put_sat:
  assumes "has i S w"
  shows "sat (env i) (step i) (\<lambda>res w. case res of Ok (a, _) \<Rightarrow> got i S (Some [v]) a w | Err _ \<Rightarrow> has i S w)
    (pool_put (ref i) l v) w"
  unfolding pool_put_def
  by (rule sat_bind [OF claim_pool_sat [OF assms]])
    (auto split: result.splits pool_reserve_error.splits intro!: write_sat intro: got_done sat_done)

lemma copy_sat:
  assumes "has i S w"
  shows "sat (env i) (step i) (\<lambda>res w. case res of Ok (a, _) \<Rightarrow> got i S (Some vs) a w | Err _ \<Rightarrow> has i S w)
    (pool_copy (ref i) l vs) w"
proof -
  have slice: "sat (env i) (step i) (\<lambda>res w. case res of Ok (a, _) \<Rightarrow> got i S None a w | Err _ \<Rightarrow> has i S w)
      (reserve_slice (ref i) l (length vs)) w"
    using assms claim_pool_sat [OF assms] by (auto simp: reserve_slice_def split: option.splits intro: sat_done)
  have "map (\<lambda>i. vs ! i) [0..<length vs] = vs"
    by (rule map_nth)
  then show ?thesis
    unfolding pool_copy_def pool_init_def
    by (intro sat_bind [OF slice]) (auto split: result.splits intro!: write_sat intro: got_done sat_done)
qed

lemma drop_sat:
  assumes "has i S w" "al_live a" "(al_class a, al_slot a, al_generation a, vo) \<in> S"
  shows "sat (env i) (step i) (\<lambda>_. has i (S - {(al_class a, al_slot a, al_generation a, vo)})) (drop_allocation (ref i) a) w"
proof -
  obtain h st where "w = (h, st)" by fastforce
  with give_up(3,4) [of i S h st] assms have ok: "slot_ok geo (al_class a) (al_slot a)"
      "state_local (al_generation a) (own i) = Some (ctl (al_class a) (al_slot a) st)"
    by blast+
  then show ?thesis
    using assms(2) by (auto simp: drop_allocation_def pool_release_def slot_ok_def not_le
        intro!: sat_cas_give [OF assms(1,3)] intro: sat_done)
qed

lemma detach_sat:
  assumes "has i S w" "al_live a" "(al_class a, al_slot a, al_generation a, vo) \<in> S"
  shows "sat (env i) (step i) (\<lambda>(res, _) w. res = Ok () \<and> has i (S - {(al_class a, al_slot a, al_generation a, vo)}) w)
    (detach (ref i) a) w"
proof -
  obtain h st where "w = (h, st)" by fastforce
  with give_up(3,4) [of i S h st] assms have ok: "slot_ok geo (al_class a) (al_slot a)"
      "state_local (al_generation a) (own i) = Some (ctl (al_class a) (al_slot a) st)"
    by blast+
  then show ?thesis
    using assms(2) by (auto simp: detach_def slot_ok_def not_le
        intro!: sat_cas_give [OF assms(1,3)] intro: sat_done)
qed

lemma takeover_sat:
  assumes "has i S w"
  shows "sat (env i) (step i) (\<lambda>res w. case res of Ok a \<Rightarrow> got i S None a w | Err _ \<Rightarrow> has i S w) (takeover (ref i) t) w"
proof -
  let ?Q = "\<lambda>(res :: (allocation, adopt_error) result) w. case res of Ok a \<Rightarrow> got i S None a w | Err _ \<Rightarrow> has i S w"
  let ?c = "unat (span_class (tok_span t))" and ?s = "unat (span_slot (tok_span t))" and ?g = "tok_generation t"
  have no: "sat (env i) (step i) ?Q (Ret (Err e)) w" for e
    using assms by (auto intro: sat_done)
  have empty: "sat (env i) (step i) ?Q (Ret (Ok allocation_empty)) w"
    using assms by (auto simp: got_def allocation_empty_def intro: sat_done)
  have "sat (env i) (step i) ?Q (compare_exchange (ctl ?c ?s) (set_ctl ?c ?s) (state_detached ?g) new (\<lambda>res. case res of
      Ok _ \<Rightarrow> Ret (Ok \<lparr>al_class = ?c, al_slot = ?s, al_generation = ?g, al_live = True\<rparr>)
    | Err _ \<Rightarrow> Ret (Err Adopt_Owned))) w"
    if "slot_ok geo ?c ?s" "state_local ?g (own i) = Some new" for new
    by (rule sat_cas_take [OF assms that(1) _ that(2)])
      (use state_local_Some(5) [OF that(2)] in \<open>auto simp: got_def fresh_def intro: sat_done\<close>)
  moreover have "state_local ?g (own i) \<noteq> None" if "\<not> MAX_GENERATION < ?g"
    using that owners(1) [of i] by (simp add: state_local_def)
  ultimately show ?thesis
    using no empty by (auto simp: takeover_def Let_def slot_ok_def not_le split: option.splits)
qed

lemma release_loop_sat:
  assumes "has i S w" "slot_ok geo c s"
  shows "sat (env i) (step i) (\<lambda>_. has i S) (release_loop bs c s g None raw) w"
  using assms(1)
proof (induction bs arbitrary: raw w)
  case (Cons b bs)
  have stop: "sat (env i) (step i) (\<lambda>_. has i S) (Ret x) w" if "has i S w" for x w
    using that by (auto intro: sat_done)
  show ?case
    using Cons stop [OF Cons.prems]
    by (auto intro!: sat_cas_unheld [OF Cons.prems assms(2)] split: option.splits result.splits intro: stop)
qed simp

lemma recover_slot_sat:
  assumes "has i S w" "slot_ok geo c s" "dead \<in> gone"
  shows "sat (env i) (step i) (\<lambda>_. has i S) (recover_slot bs c s dead raw) w"
  using assms(1)
proof (induction bs arbitrary: raw w)
  case (Cons b bs)
  have stop: "sat (env i) (step i) (\<lambda>_. has i S) (Ret x) w" if "has i S w" for x w
    using that by (auto intro: sat_done)
  show ?case
    using Cons stop [OF Cons.prems] assms(3)
    by (auto intro!: sat_cas_unheld [OF Cons.prems assms(2)] split: result.splits intro: stop)
qed simp

lemma recover_slots_sat:
  assumes "has i S w" "\<And>c s. (c, s) \<in> set cs \<Longrightarrow> slot_ok geo c s" "dead \<in> gone"
  shows "sat (env i) (step i) (\<lambda>_. has i S) (recover_slots bs cs dead) w"
  using assms(1,2)
proof (induction cs arbitrary: w)
  case Nil
  then show ?case by (auto intro: sat_done)
next
  case (Cons x cs)
  have ok: "slot_ok geo (fst x) (snd x)"
    using Cons.prems(2) [of "fst x" "snd x"] by simp
  show ?case
    unfolding recover_slots.simps
    by (rule sat_read [OF Cons.prems(1)], rule sat_bind [OF recover_slot_sat [OF _ ok assms(3)]])
      (use Cons in \<open>auto intro: sat_done\<close>)
qed

lemma all_slots_ok: "(c, s) \<in> set (all_slots g) \<Longrightarrow> slot_ok g c s"
  by (auto simp: all_slots_def slot_ok_def)

lemma reap_sat:
  assumes "has i S w" "dead \<in> gone"
  shows "sat (env i) (step i) (\<lambda>_. has i S) (pool_recover bs info (size (geo_layout geo)) dead) w"
  using recover_slots_sat [OF assms(1) all_slots_ok assms(2)] by (simp add: pool_recover_def geometry(2))

lemma free_token_sat:
  assumes "has i S w"
  shows "sat (env i) (step i) (\<lambda>_. has i S) (release_in bs info (size (geo_layout geo)) t None) w"
  unfolding release_in_def geometry(2) option.case Let_def
  using assms by (auto intro!: sat_read [OF assms] release_loop_sat simp: slot_ok_def not_le intro: sat_done)

section \<open>A client\<close>

definition tuples :: "'v held \<Rightarrow> (nat \<times> nat \<times> u32 \<times> 'v list option) set" where
  "tuples held = (\<lambda>(a, vo). (al_class a, al_slot a, al_generation a, vo)) ` set held"

definition keys :: "'v held \<Rightarrow> (nat \<times> nat) list" where
  "keys held = map (\<lambda>(a, vo). (al_class a, al_slot a)) held"

definition holds :: "nat \<Rightarrow> 'v held \<Rightarrow> 'v holders \<times> 'v pool_store \<Rightarrow> bool" where
  "holds i held w \<longleftrightarrow> has i (tuples held) w \<and> distinct (keys held) \<and> (\<forall>(a, vo)\<in>set held. al_live a)"

lemma holds_keep:
  assumes "distinct (keys held)" "\<forall>(a, vo)\<in>set held. al_live a" "got i (tuples held) vo a w"
  shows "holds i (keep a vo held) w"
proof (cases "al_live a")
  case True
  then have new: "fresh a (tuples held)" "has i (insert (al_class a, al_slot a, al_generation a, vo) (tuples held)) w"
    using assms(3) by (simp_all add: got_def)
  have "(al_class a, al_slot a) \<notin> set (keys held)"
    using new(1) by (force simp: fresh_def tuples_def keys_def)
  with True new(2) assms(1,2) show ?thesis
    by (auto simp: holds_def keep_def tuples_def keys_def)
qed (use assms in \<open>simp add: holds_def keep_def got_def\<close>)

lemma holds_remove:
  assumes "n < length held" "held ! n = (a, vo)" "distinct (keys held)" "\<forall>(a, vo)\<in>set held. al_live a"
    "has i (tuples held - {(al_class a, al_slot a, al_generation a, vo)}) w"
  shows "holds i (remove_at n held) w"
proof -
  obtain xs ys where xs: "held = xs @ (a, vo) # ys" "length xs = n"
    using assms(1,2) id_take_nth_drop [OF assms(1)] by (metis length_take min.absorb4)
  let ?t = "(al_class a, al_slot a, al_generation a, vo)"
  have "?t \<notin> tuples (xs @ ys)"
  proof
    assume "?t \<in> tuples (xs @ ys)"
    then have "(al_class a, al_slot a) \<in> set (keys (xs @ ys))"
      by (force simp: tuples_def keys_def)
    with assms(3) show False
      by (auto simp: xs(1) keys_def)
  qed
  then have "tuples held - {?t} = tuples (xs @ ys)"
    by (auto simp: xs(1) tuples_def)
  moreover have "remove_at n held = xs @ ys"
    by (simp add: remove_at_def xs(1) flip: xs(2))
  ultimately show ?thesis
    using assms(3-5) by (auto simp: holds_def xs(1) keys_def)
qed

lemma holds_done: "holds i held w \<Longrightarrow> sat (env i) (step i) (holds i) (Ret held) w"
  unfolding holds_def by (auto intro: sat_done)

lemma pool_client_sat:
  assumes "holds i held w" "reaps_only gone xs"
  shows "sat (env i) (step i) (holds i) (pool_client (ref i) info xs held) w"
  using assms
proof (induction xs arbitrary: held w)
  case Nil
  then show ?case by (simp add: holds_done)
next
  case (Cons x xs)
  let ?rest = "\<lambda>held. pool_client (ref i) info xs held"
  have has: "has i (tuples held) w" and ok: "distinct (keys held)" "\<forall>(a, vo)\<in>set held. al_live a"
    using Cons.prems(1) by (simp_all add: holds_def)
  have rest: "sat (env i) (step i) (holds i) (?rest held) w" if "holds i held w" for held w
    using Cons.IH [OF that] Cons.prems(2) by (auto simp: reaps_only_def)
  have same: "sat (env i) (step i) (holds i) (?rest held) w" if "has i (tuples held) w" for w
    using rest that ok by (simp add: holds_def)
  have kept: "sat (env i) (step i) (holds i) (?rest (keep a vo held)) w" if "got i (tuples held) vo a w" for a vo w
    by (rule rest [OF holds_keep [OF ok that]])
  have at: "al_live (fst (held ! n)) \<and> (al_class (fst (held ! n)), al_slot (fst (held ! n)),
      al_generation (fst (held ! n)), snd (held ! n)) \<in> tuples held" if "n < length held" for n
    using ok(2) nth_mem [OF that] by (force simp: tuples_def)
  have removed: "sat (env i) (step i) (holds i) (?rest (remove_at n held)) w"
    if "n < length held" "has i (tuples held - {(al_class (fst (held ! n)), al_slot (fst (held ! n)),
      al_generation (fst (held ! n)), snd (held ! n))}) w" for n w
    by (rule rest [OF holds_remove [OF that(1) _ ok that(2)]]) simp
  show ?case
  proof (cases x)
    case (Put_Value l v)
    then show ?thesis
      by (auto intro!: sat_bind [OF put_sat [OF has]] same kept split: result.splits)
  next
    case (Put_Slice l vs)
    then show ?thesis
      by (auto intro!: sat_bind [OF copy_sat [OF has]] same kept split: result.splits)
  next
    case (Drop_At n)
    then show ?thesis
      using removed [of n] at [of n] by (auto intro!: sat_bind [OF drop_sat [OF has]] same [OF has])
  next
    case (Detach_At n)
    then show ?thesis
      using removed [of n] at [of n] by (auto intro!: sat_bind [OF detach_sat [OF has]] same [OF has])
  next
    case (Take_Over t)
    then show ?thesis
      by (auto intro!: sat_bind [OF takeover_sat [OF has]] same kept split: result.splits)
  next
    case (Free_Token bs t)
    then show ?thesis
      by (auto intro!: sat_bind [OF free_token_sat [OF has]] same)
  next
    case (Reap bs dead)
    then have "dead \<in> gone"
      using Cons.prems(2) by (auto simp: reaps_only_def)
    with Reap show ?thesis
      by (auto intro!: sat_bind [OF reap_sat [OF has]] same)
  qed
qed

lemma held_at:
  assumes "holds i held (h, st)" "(a, vo) \<in> set held"
  shows "h (al_class a) (al_slot a) = Some (i, al_generation a, vo)" "slot_ok geo (al_class a) (al_slot a)"
    "vo = Some vs \<Longrightarrow> blocks st (al_class a) (al_slot a) = Some vs"
proof -
  have "(al_class a, al_slot a, al_generation a, vo) \<in> mine i h" "inv (h, st)"
    using assms by (force simp: holds_def has_def tuples_def)+
  then show at: "h (al_class a) (al_slot a) = Some (i, al_generation a, vo)"
    by (simp add: mine_def)
  with \<open>inv (h, st)\<close> show "slot_ok geo (al_class a) (al_slot a)"
      "vo = Some vs \<Longrightarrow> blocks st (al_class a) (al_slot a) = Some vs"
    using heldD(1) heldD(3) by blast+
qed

lemma held_apart:
  assumes "holds i held (h, st)" "holds j held' (h, st)" "m < length held" "n < length held'" "(i, m) \<noteq> (j, n)"
    "i = j \<Longrightarrow> held = held'"
  shows "(al_class (fst (held ! m)), al_slot (fst (held ! m))) \<noteq> (al_class (fst (held' ! n)), al_slot (fst (held' ! n)))"
proof
  assume same: "(al_class (fst (held ! m)), al_slot (fst (held ! m))) =
    (al_class (fst (held' ! n)), al_slot (fst (held' ! n)))"
  have "h (al_class (fst (held ! m))) (al_slot (fst (held ! m))) =
      Some (i, al_generation (fst (held ! m)), snd (held ! m))"
    "h (al_class (fst (held' ! n))) (al_slot (fst (held' ! n))) =
      Some (j, al_generation (fst (held' ! n)), snd (held' ! n))"
    using held_at(1) [OF assms(1)] held_at(1) [OF assms(2)] assms(3,4) by simp_all
  with same have "i = j" by simp
  with assms(6) have "held' = held" by simp
  moreover have "distinct (keys held)"
    using assms(1) by (simp add: holds_def)
  ultimately show False
    using same assms(3-5) \<open>i = j\<close> nth_eq_iff_index_eq [of "keys held" m n]
    by (simp add: keys_def case_prod_beta)
qed

lemma clients_hold:
  fixes st :: "'v pool_store"
  assumes "\<And>i. reaps_only gone (ops i)"
    and "pstep\<^sup>*\<^sup>* (store_new geo, \<lambda>i. pool_client (ref i) info (ops i) []) (st, T)"
  obtains h where "\<And>i. sat (env i) (step i) (holds i) (T i) (h, st)"
proof -
  have "holds i [] (\<lambda>_ _. None, store_new geo :: 'v pool_store)" for i
    by (auto simp: holds_def has_def inv_def tuples_def keys_def mine_def store_new_def)
  note sat = pool_client_sat [OF this assms(1)]
  from pool_sound [where R = env and G = step and Q = holds, OF sat _ assms(2)] that show thesis
    by (auto simp: env_def)
qed

end
section \<open>Geometries that are created\<close>

lemma build_from_nth:
  "build_from mn base is l = Some (l', cs) \<Longrightarrow> i < length is \<Longrightarrow> cls_slots (cs ! i) = base div 2 ^ (is ! i div 2)"
proof (induction "is" arbitrary: l cs i)
  case (Cons x "is")
  from Cons.prems(1) obtain m c cs' where m: "build_class mn base x l = Some (m, c)"
      "build_from mn base is m = Some (l', cs')" "cs = c # cs'"
    by (rule build_from_Cons)
  then show ?case
    using Cons build_class_Some(3) [OF m(1)] by (cases i) auto
qed simp

definition limits_ok :: "block_range option \<Rightarrow> bool" where
  "limits_ok limits \<longleftrightarrow> limits = None \<or> (\<exists>mn mx. limits \<noteq> None \<and> block_range_new mn mx = limits)"

lemma next_power_log:
  assumes "checked_next_power_of_two n = Some p"
  shows "n \<le> p" "\<exists>k. p = 2 ^ k \<and> k < 64"
proof -
  have p: "p = next_power_of_two n" "p < 2 ^ 64"
    using assms by (auto simp: checked_next_power_of_two_def Let_def split: if_splits)
  then show "n \<le> p"
    by (simp add: next_power_of_two_ge)
  obtain k where "p = 2 ^ k"
    using next_power_of_two_power [of n] p(1) by auto
  with p(2) show "\<exists>k. p = 2 ^ k \<and> k < 64"
    using power_less_imp_less_exp [of "2 :: nat" k 64] by auto
qed

lemma limits_bounds:
  assumes "limits_ok (Some r)"
  shows "MIN_BLOCK \<le> range_min r" "range_min r < USIZE" "ilog2 (range_max r) - ilog2 (range_min r) + 1 \<le> 64"
proof -
  obtain mn mx where "block_range_new mn mx = Some r"
    using assms by (auto simp: limits_ok_def)
  then have p: "checked_next_power_of_two (max mn MIN_BLOCK) = Some (range_min r)"
      "checked_next_power_of_two (max mx MIN_BLOCK) = Some (range_max r)"
    by (auto simp: block_range_new_def split: option.split_asm if_split_asm)
  from next_power_log [OF p(1)] show "MIN_BLOCK \<le> range_min r" by simp
  from p(1) show "range_min r < USIZE"
    by (auto simp: checked_next_power_of_two_def Let_def split: if_splits)
  from next_power_log(2) [OF p(2)] show "ilog2 (range_max r) - ilog2 (range_min r) + 1 \<le> 64"
    by auto
qed

lemma create_loop_geometry_ok:
  assumes "create_loop bound exact mn n = Ok g" "MIN_BLOCK \<le> mn" "mn < USIZE" "n \<le> 64" "bound < USIZE"
  shows "\<exists>count base info. build mn count base = Ok g \<and> geometry_ok g \<and> geometry_info g = Some info \<and>
    recorded info (size (geo_layout g)) = Some (Some g)"
proof -
  from create_loop_Ok [OF assms(1-3)] obtain count base where
    c: "0 < count" "count \<le> n" "build mn count base = Ok g" "create_minimum count \<le> base" "fits mn count bound base"
    by blast
  have "(2 :: nat) ^ ((count - 1) div 2) \<le> 2 ^ 31"
    using c(2) assms(4) by (intro power_increasing) auto
  then have "MIN_BLOCK * 2 ^ ((count - 1) div 2) < USIZE"
    by simp
  then have base: "MIN_BLOCK * 2 ^ ((count - 1) div 2) \<le> base"
    using c(4) by (simp add: create_minimum_def)
  have "fits mn (Suc (count - 1)) bound base"
    using c(1,5) by simp
  then have "base < bound div (MIN_BLOCK + 1) + 1"
    by (rule fits_bounded [OF _ assms(2,3)])
  then have "base < USIZE"
    using assms(5) div_le_dividend [of bound "MIN_BLOCK + 1"] by linarith
  moreover have "count < 2 ^ 32"
    using c(2) assms(4) by simp
  ultimately obtain info where
    i: "geometry_info g = Some info" "recorded info (size (geo_layout g)) = Some (Some g)"
    using recorded_roundtrip [OF c(3,1) _ assms(3)] by blast
  obtain l where l: "build_from mn base [0..<count] pool_header_layout = Some (l, geo_classes g)"
    using c(3) by (auto simp: build_def split: option.splits)
  have "0 < cls_slots (geo_classes g ! k)" if "k < count" for k
  proof -
    have "2 ^ (k div 2) \<le> (2 :: nat) ^ ((count - 1) div 2)"
      using that by (intro power_increasing div_le_mono) auto
    then have "2 ^ (k div 2) \<le> base"
      using base by linarith
    then show ?thesis
      using build_from_nth [OF l, of k] that by (simp add: div_greater_zero_iff)
  qed
  moreover have "length (geo_classes g) = count"
    by (rule build_placed(2) [OF c(3)])
  ultimately have "geometry_ok g"
    using c(1) by (auto simp: geometry_ok_def in_set_conv_nth)
  with c(3) i show ?thesis by blast
qed

lemma create_geometry_ok:
  assumes "geometry_create bound limits = Ok g" "limits_ok limits" "bound < USIZE"
  shows "\<exists>mn count base info. build mn count base = Ok g \<and> geometry_ok g \<and> geometry_info g = Some info \<and>
    recorded info (size (geo_layout g)) = Some (Some g)"
proof (cases limits)
  case None
  have "create_loop bound False MIN_BLOCK (ilog2 DEFAULT_MAX - ilog2 MIN_BLOCK + 1) = Ok g"
    using assms(1) unfolding geometry_create_def None by (simp del: create_loop.simps)
  from create_loop_geometry_ok [OF this order_refl _ _ assms(3)] show ?thesis
    using ilog2_power [of 16] by force
next
  case (Some r)
  have "create_loop bound True (range_min r) (ilog2 (range_max r) - ilog2 (range_min r) + 1) = Ok g"
    using assms(1) unfolding geometry_create_def Some by (simp del: create_loop.simps)
  from create_loop_geometry_ok [OF this limits_bounds [OF assms(2) [unfolded Some]] assms(3)] show ?thesis
    by blast
qed

section \<open>The pool hands a block to one holder at a time\<close>

text \<open>
  C18. Threads of any participants share a pool that was created: they put values and slices, drop and
  detach blocks, take over and free tokens they have from anywhere (copies included), and reap participants that
  are gone, interleaved in any way. No thread panics; two blocks that are held never share a byte, whoever holds
  them; and a block that its holder wrote still has the contents it wrote.
\<close>

theorem pool_exclusive:
  assumes "geometry_create bound limits = Ok geo" and "limits_ok limits" and "bound < USIZE"
    and "geometry_info geo = Some info"
    and "\<And>i. unat (own i) < PARTICIPANT_CAPACITY" and "\<And>i. own i \<notin> gone" and "\<And>i. reaps_only gone (ops i)"
    and "pstep\<^sup>*\<^sup>* (store_new geo, \<lambda>i. pool_client (pool_ref_of geo pid (own i)) info (ops i) []) (st, T)"
  shows "(\<forall>i. T i \<noteq> Panic) \<and>
    (\<forall>i j held held' m n. T i = Ret held \<and> T j = Ret held' \<and> m < length held \<and> n < length held' \<and> (i, m) \<noteq> (j, n) \<longrightarrow>
       block_bytes geo (al_class (fst (held ! m))) (al_slot (fst (held ! m))) \<inter>
       block_bytes geo (al_class (fst (held' ! n))) (al_slot (fst (held' ! n))) = {}) \<and>
    (\<forall>i held a vs. T i = Ret held \<and> (a, Some vs) \<in> set held \<longrightarrow> blocks st (al_class a) (al_slot a) = Some vs)"
proof -
  obtain mn count base where b: "build mn count base = Ok geo" "geometry_ok geo"
      "recorded info (size (geo_layout geo)) = Some (Some geo)"
    using create_geometry_ok [OF assms(1-3)] assms(4) by auto
  have use: "pool_use geo info own gone"
    using b(2,3) assms(5,6) by unfold_locales
  obtain h where sat: "\<And>i. sat (pool_use.env geo own i) (pool_use.step geo own i) (pool_use.holds geo own i) (T i) (h, st)"
    by (rule pool_use.clients_hold [OF use assms(7,8)]) blast
  have holds: "pool_use.holds geo own i held (h, st)" if "T i = Ret held" for i held
    using sat [of i] that by (auto simp: sat.simps)
  have "block_bytes geo (al_class (fst (held ! m))) (al_slot (fst (held ! m))) \<inter>
       block_bytes geo (al_class (fst (held' ! n))) (al_slot (fst (held' ! n))) = {}"
    if "T i = Ret held" "T j = Ret held'" "m < length held" "n < length held'" "(i, m) \<noteq> (j, n)" for i j held held' m n
  proof (rule placed_disjoint(2) [OF build_placed(1) [OF b(1)]])
    show "slot_ok geo (al_class (fst (held ! m))) (al_slot (fst (held ! m)))"
      "slot_ok geo (al_class (fst (held' ! n))) (al_slot (fst (held' ! n)))"
      using pool_use.held_at(2) [OF use holds] that nth_mem by (metis prod.collapse)+
    show "(al_class (fst (held ! m)), al_slot (fst (held ! m))) \<noteq> (al_class (fst (held' ! n)), al_slot (fst (held' ! n)))"
      by (rule pool_use.held_apart [OF use holds [OF that(1)] holds [OF that(2)] that(3-5)]) (use that(1,2) in simp)
  qed
  moreover have "blocks st (al_class a) (al_slot a) = Some vs" if "T i = Ret held" "(a, Some vs) \<in> set held" for i held a vs
    by (rule pool_use.held_at(3) [OF use holds [OF that(1)] that(2) refl])
  moreover have "T i \<noteq> Panic" for i
    using sat [of i] by auto
  ultimately show ?thesis
    by (intro conjI allI impI; (elim conjE)?; assumption?) metis+
qed

section \<open>Two participants of a small pool\<close>

definition small_info :: pool_info where
  "small_info = \<lparr>info_min = 64, info_base = 65, info_classes = 1\<rparr>"

definition small_id :: layout_id where
  "small_id = \<lparr>lid_region = \<lparr>high = 1, low = 2\<rparr>, lid_offset = 64\<rparr>"

definition small_owner :: "nat \<Rightarrow> u8" where
  "small_owner i = (if i = 0 then 1 else 2)"

definition small_ops :: "nat \<Rightarrow> nat pool_op list" where
  "small_ops i = (if i = 0 then [Put_Value \<lparr>size = 8, align = 8\<rparr> 7, Drop_At 0, Put_Value \<lparr>size = 8, align = 8\<rparr> 8]
     else if i = 1 then [Put_Slice \<lparr>size = 16, align = 8\<rparr> [5, 6]] else [])"

definition small_run :: "nat pool_store \<times> (nat \<Rightarrow> (nat pool_store, nat held) prog)" where
  "small_run = schedule ([0, 1, 0, 1] @ replicate 9 1 @ replicate 15 0) (store_new small_pool,
     \<lambda>i. pool_client (pool_ref_of small_pool small_id (small_owner i)) small_info (small_ops i) [])"

lemma small_pool_info: "geometry_info small_pool = Some small_info"
  by (simp add: geometry_info_def small_pool_def small_info_def)

lemma small_limits_ok: "limits_ok (Some \<lparr>range_min = 64, range_max = 64\<rparr>)"
  unfolding limits_ok_def by (intro disjI2 exI [of _ 64])
    (simp add: block_range_new_def checked_next_power_of_two_def next_power_of_two_def ilog2.simps)

lemma small_owners: "unat (small_owner i) < PARTICIPANT_CAPACITY" "small_owner i \<notin> {3}"
  by (simp_all add: small_owner_def)

interpretation small_use: pool_use small_pool small_info small_id small_owner "{3}"
  using create_geometry_ok [OF create_small_pool] small_pool_info small_owners
  by unfold_locales (auto simp: small_limits_ok)

definition small_block :: "nat \<Rightarrow> u32 \<Rightarrow> allocation" where
  "small_block s g = \<lparr>al_class = 0, al_slot = s, al_generation = g, al_live = True\<rparr>"

theorem pool_exclusive_witness:
  "returned (snd small_run 0) = Some [(small_block 0 2, Some [8])] \<and>
   returned (snd small_run 1) = Some [(small_block 1 1, Some [5, 6])] \<and>
   block_bytes small_pool 0 0 \<inter> block_bytes small_pool 0 1 = {} \<and> blocks (fst small_run) 0 1 = Some [5, 6]"
proof -
  have "map (returned \<circ> snd small_run) [0, 1] =
      [Some [(small_block 0 2, Some [8])], Some [(small_block 1 1, Some [5, 6])]]"
    by code_simp
  then have r: "returned (snd small_run 0) = Some [(small_block 0 2, Some [8])]"
      "returned (snd small_run 1) = Some [(small_block 1 1, Some [5, 6])]"
    by simp_all
  have reach: "pstep\<^sup>*\<^sup>* (store_new small_pool,
      \<lambda>i. pool_client (pool_ref_of small_pool small_id (small_owner i)) small_info (small_ops i) [])
      (fst small_run, snd small_run)"
    unfolding small_run_def prod.collapse by (rule schedule_reaches)
  have ops: "reaps_only {3} (small_ops i)" for i
    by (auto simp: reaps_only_def small_ops_def)
  have bound: "4620 < USIZE"
    by simp
  note all = pool_exclusive [OF create_small_pool small_limits_ok bound small_pool_info small_owners ops reach]
  have "block_bytes small_pool 0 0 \<inter> block_bytes small_pool 0 1 = {}"
    using all [THEN conjunct2, THEN conjunct1, rule_format, of 0 _ 1 _ 0 0] r by (simp add: small_block_def)
  moreover have "blocks (fst small_run) 0 1 = Some [5, 6]"
    using all [THEN conjunct2, THEN conjunct2, rule_format, of 1 _ "small_block 1 1" "[5, 6]"] r by (simp add: small_block_def)
  ultimately show ?thesis
    using r by simp
qed

end
