(* ===== verification/Talc_Geometry.thy ===== *)
theory Talc_Geometry
  imports Alloc_Layout
begin

text \<open>
  The size classes of the shared heap (\<open>Geometry\<close> of \<open>src/talc.rs\<close>): the automatic and explicit constructors, the
  validation that every participant repeats, and the bin of a chunk size. Sizes are natural numbers below
  \<open>2 ^ 64\<close>; a shift drops the bits that leave the word and uses its amount modulo the width, as compiled code does.
\<close>

section \<open>Geometries\<close>

text \<open>
  A free-list link is an \<open>Option\<close> of a word without a niche, two words; a node is a link and a word; the smallest
  chunk is a node and a tag.
\<close>

abbreviation WORD_BITS :: nat where "WORD_BITS \<equiv> 64"
abbreviation WORD_SIZE :: nat where "WORD_SIZE \<equiv> 8"
abbreviation TAG_SIZE :: nat where "TAG_SIZE \<equiv> 8"
abbreviation LINK_SIZE :: nat where "LINK_SIZE \<equiv> 16"
abbreviation NODE_SIZE :: nat where "NODE_SIZE \<equiv> 24"
abbreviation MIN_TAG_OFFSET :: nat where "MIN_TAG_OFFSET \<equiv> 24"
abbreviation MIN_CHUNK_SIZE :: nat where "MIN_CHUNK_SIZE \<equiv> 32"

definition shl_usize :: "nat \<Rightarrow> nat \<Rightarrow> nat" where
  "shl_usize a n = a * 2 ^ (n mod 64) mod USIZE"

definition shr_usize :: "nat \<Rightarrow> nat \<Rightarrow> nat" where
  "shr_usize a n = a div 2 ^ (n mod 64)"

datatype geometry_error = TooSmall | TooManyBins | Invalid_Geometry

record talc_geometry =
  tg_bins :: u16
  tg_linear :: u16
  tg_linear_shift :: u8
  tg_exponential_log :: u8
  tg_divisions_log :: u8
  tg_reserved :: u8

abbreviation MIN_METADATA :: nat where "MIN_METADATA \<equiv> 512"
abbreviation MAX_METADATA :: nat where "MAX_METADATA \<equiv> 16384"
abbreviation MAX_DIVISIONS_LOG :: nat where "MAX_DIVISIONS_LOG \<equiv> 3"

definition bin_count :: "talc_geometry \<Rightarrow> nat" where
  "bin_count g = unat (tg_bins g)"

definition divisions :: "talc_geometry \<Rightarrow> nat" where
  "divisions g = shl_usize 1 (unat (tg_divisions_log g))"

definition availability_words :: "talc_geometry \<Rightarrow> nat" where
  "availability_words g = (bin_count g + (WORD_BITS - 1)) div WORD_BITS"

definition metadata_bytes :: "talc_geometry \<Rightarrow> nat" where
  "metadata_bytes g = bin_count g * LINK_SIZE + availability_words g * WORD_SIZE"

definition budget :: "nat \<Rightarrow> nat" where
  "budget extent = (let b = shr_usize extent 10 in
     if b < MIN_METADATA then MIN_METADATA else if MAX_METADATA < b then MAX_METADATA else b)"

definition bin :: "talc_geometry \<Rightarrow> nat \<Rightarrow> nat" where
  "bin g sz =
     (let s = max sz 1; e = unat (tg_exponential_log g);
          index =
            if s < shl_usize 1 e then shr_usize (s - 1) (unat (tg_linear_shift g))
            else let octave = ilog2 s; base = shl_usize 1 octave;
                     division = shr_usize (shl_usize (s - base) (unat (tg_divisions_log g))) octave in
                 unat (tg_linear g) + (octave - e) * divisions g + division
      in min index (bin_count g - 1))"

definition validate :: "talc_geometry \<Rightarrow> nat \<Rightarrow> (unit, geometry_error) result" where
  "validate g extent =
     (let ls = unat (tg_linear_shift g); e = unat (tg_exponential_log g); dl = unat (tg_divisions_log g) in
      if extent < MIN_CHUNK_SIZE \<or> tg_reserved g \<noteq> 0 \<or> tg_bins g = 0 \<or> tg_linear g = 0 \<or> e < ls \<or> 64 \<le> e \<or>
         MAX_DIVISIONS_LOG < dl \<or> WORD_BITS < availability_words g \<or> extent < metadata_bytes g + MIN_METADATA
      then Err Invalid_Geometry
      else let expected_linear = shl_usize 1 (e - ls) in
      if unat (tg_linear g) \<noteq> expected_linear \<or> bin_count g < expected_linear then Err Invalid_Geometry
      else let max_log = ilog2 extent in
      if max_log < e then Err Invalid_Geometry
      else let exponential = bin_count g - unat (tg_linear g) in
      if exponential mod divisions g \<noteq> 0 then Err Invalid_Geometry
      else let covered_log = (e + exponential div divisions g + (USIZE - 1)) mod USIZE in
      if covered_log < max_log \<or> bin_count g \<le> bin g extent then Err Invalid_Geometry
      else Ok ())"

definition checked_geometry :: "talc_geometry \<Rightarrow> nat \<Rightarrow> (talc_geometry, geometry_error) result" where
  "checked_geometry g extent = (case validate g extent of Ok _ \<Rightarrow> Ok g | Err e \<Rightarrow> Err e)"

definition geometry_of :: "nat \<Rightarrow> nat \<Rightarrow> nat \<Rightarrow> nat \<Rightarrow> nat \<Rightarrow> talc_geometry" where
  "geometry_of bins linear ls e dl = \<lparr>tg_bins = of_nat bins, tg_linear = of_nat linear, tg_linear_shift = of_nat ls,
     tg_exponential_log = of_nat e, tg_divisions_log = of_nat dl, tg_reserved = 0\<rparr>"

definition geometry_new :: "nat \<Rightarrow> u8 \<Rightarrow> u8 \<Rightarrow> u8 \<Rightarrow> (talc_geometry, geometry_error) result" where
  "geometry_new extent ls e dl =
     (if extent < MIN_CHUNK_SIZE \<or> e < ls \<or> 64 \<le> unat e \<or> ilog2 extent < unat e \<or> MAX_DIVISIONS_LOG < unat dl
      then Err Invalid_Geometry
      else
        let linear = shl_usize 1 (unat (e - ls));
            exponential = (ilog2 extent - unat e + 1) * shl_usize 1 (unat dl);
            bins = linear + exponential in
        if 65535 < bins then Err TooManyBins
        else checked_geometry (geometry_of bins linear (unat ls) (unat e) (unat dl)) extent)"

text \<open>The two loops of \<open>auto\<close>: fewer divisions first, then coarser linear bins.\<close>

definition auto_bins :: "nat \<Rightarrow> nat \<Rightarrow> nat \<Rightarrow> nat \<Rightarrow> nat" where
  "auto_bins extent e ls dl = shl_usize 1 (e - ls) + (ilog2 extent - e + 1) * shl_usize 1 dl"

definition auto_geometry :: "nat \<Rightarrow> nat \<Rightarrow> nat \<Rightarrow> nat \<Rightarrow> talc_geometry" where
  "auto_geometry extent e ls dl = geometry_of (auto_bins extent e ls dl) (shl_usize 1 (e - ls)) ls e dl"

fun auto_inner :: "nat \<Rightarrow> nat \<Rightarrow> nat \<Rightarrow> nat \<Rightarrow> nat \<Rightarrow> (talc_geometry, geometry_error) result option" where
  "auto_inner extent max_bins e ls dl =
     (if auto_bins extent e ls dl \<le> max_bins then Some (checked_geometry (auto_geometry extent e ls dl) extent)
      else if dl = 0 then None
      else auto_inner extent max_bins e ls (dl - 1))"

declare auto_inner.simps [simp del]

function auto_outer :: "nat \<Rightarrow> nat \<Rightarrow> nat \<Rightarrow> nat \<Rightarrow> (talc_geometry, geometry_error) result" where
  "auto_outer extent max_bins e ls =
     (if ls \<le> e then (case auto_inner extent max_bins e ls MAX_DIVISIONS_LOG of
        Some r \<Rightarrow> r | None \<Rightarrow> auto_outer extent max_bins e (ls + 1))
      else Err TooManyBins)"
  by pat_completeness auto

termination
  by (relation "measure (\<lambda>(_, _, e, ls). Suc e - ls)") auto

declare auto_outer.simps [simp del]

definition auto_max_bins :: "nat \<Rightarrow> nat" where
  "auto_max_bins extent = min (min (budget extent * 8 div 129) (WORD_BITS * WORD_BITS)) 65535"

definition geometry_auto :: "nat \<Rightarrow> (talc_geometry, geometry_error) result" where
  "geometry_auto extent =
     (if extent < MIN_CHUNK_SIZE then Err TooSmall
      else let e = min (ilog2 extent) 10 in auto_outer extent (auto_max_bins extent) e (min 4 e))"

section \<open>Bins\<close>

lemma shl_one: "n < 64 \<Longrightarrow> shl_usize (Suc 0) n = 2 ^ n"
proof -
  assume "n < 64"
  then have "(2 :: nat) ^ n < 2 ^ 64"
    by (intro power_strict_increasing) auto
  then show ?thesis
    using \<open>n < 64\<close> by (simp add: shl_usize_def)
qed

text \<open>What validation establishes.\<close>

definition geometry_valid :: "talc_geometry \<Rightarrow> bool" where
  "geometry_valid g \<longleftrightarrow> 0 < bin_count g \<and> unat (tg_linear_shift g) \<le> unat (tg_exponential_log g) \<and>
     unat (tg_exponential_log g) < 64 \<and> unat (tg_divisions_log g) \<le> MAX_DIVISIONS_LOG \<and>
     unat (tg_linear g) = 2 ^ (unat (tg_exponential_log g) - unat (tg_linear_shift g)) \<and>
     availability_words g \<le> WORD_BITS"

lemma validate_valid:
  assumes "validate g extent = Ok ()"
  shows "geometry_valid g" and "metadata_bytes g + MIN_METADATA \<le> extent"
  using assms
  by (auto simp: validate_def geometry_valid_def bin_count_def Let_def shl_one unat_eq_zero word_neq_0_conv[symmetric]
      split: if_splits)

lemma divisions_pow: "geometry_valid g \<Longrightarrow> divisions g = 2 ^ unat (tg_divisions_log g)"
  by (simp add: geometry_valid_def divisions_def shl_one)

lemma division_value:
  assumes "geometry_valid g" "0 < s" "s < 2 ^ 61"
  shows "shr_usize (shl_usize (s - shl_usize 1 (ilog2 s)) (unat (tg_divisions_log g))) (ilog2 s) =
      (s - 2 ^ ilog2 s) * divisions g div 2 ^ ilog2 s"
    and "(s - 2 ^ ilog2 s) * divisions g div 2 ^ ilog2 s < divisions g"
proof -
  have log: "ilog2 s < 61"
    using ilog2_le [of s] assms(2,3) power_less_imp_less_exp [of "2 :: nat" "ilog2 s" 61] by (simp add: le_less_trans)
  have low: "s - 2 ^ ilog2 s < 2 ^ ilog2 s"
    using less_ilog2 [of s] by simp
  have "divisions g \<le> 2 ^ 3"
    using assms(1) unfolding divisions_pow [OF assms(1)] by (intro power_increasing) (auto simp: geometry_valid_def)
  moreover have "(2 :: nat) ^ ilog2 s \<le> 2 ^ 60"
    using log by (intro power_increasing) auto
  ultimately have "(s - 2 ^ ilog2 s) * divisions g \<le> 2 ^ 60 * 2 ^ 3"
    using low by (intro mult_le_mono) auto
  then have "(s - 2 ^ ilog2 s) * divisions g < USIZE"
    by (rule le_less_trans) simp
  moreover have "shl_usize (s - shl_usize 1 (ilog2 s)) (unat (tg_divisions_log g)) = (s - 2 ^ ilog2 s) * divisions g mod USIZE"
    using assms(1) log
    by (simp add: shl_one divisions_pow shl_usize_def [of _ "unat (tg_divisions_log g)"]) (simp add: geometry_valid_def)
  ultimately show "shr_usize (shl_usize (s - shl_usize 1 (ilog2 s)) (unat (tg_divisions_log g))) (ilog2 s) =
      (s - 2 ^ ilog2 s) * divisions g div 2 ^ ilog2 s"
    using log by (simp add: shr_usize_def)
  have "0 < divisions g"
    by (simp add: divisions_pow [OF assms(1)])
  then show "(s - 2 ^ ilog2 s) * divisions g div 2 ^ ilog2 s < divisions g"
    using low by (simp add: div_less_iff_less_mult)
qed

text \<open>The index before it is clamped, in closed form.\<close>

definition bin_index :: "talc_geometry \<Rightarrow> nat \<Rightarrow> nat" where
  "bin_index g s = (if s < 2 ^ unat (tg_exponential_log g) then (s - 1) div 2 ^ unat (tg_linear_shift g)
     else unat (tg_linear g) + (ilog2 s - unat (tg_exponential_log g)) * divisions g +
       (s - 2 ^ ilog2 s) * divisions g div 2 ^ ilog2 s)"

lemma bin_closed:
  assumes "geometry_valid g" "s < 2 ^ 61"
  shows "bin g s = min (bin_index g (max s 1)) (bin_count g - 1)"
  using assms division_value(1) [of g "max s 1"]
  by (simp add: bin_def bin_index_def Let_def shl_one shr_usize_def [of _ "unat (tg_linear_shift g)"] geometry_valid_def)

lemma ilog2_mono:
  assumes "a \<le> b" "0 < a"
  shows "ilog2 a \<le> ilog2 b"
proof -
  have "(2 :: nat) ^ ilog2 a < 2 ^ Suc (ilog2 b)"
    using ilog2_le [OF assms(2)] less_ilog2 [of b] assms(1) by linarith
  then show ?thesis
    using power_less_imp_less_exp [of "2 :: nat" "ilog2 a" "Suc (ilog2 b)"] by simp
qed

lemma le_ilog2: "2 ^ e \<le> s \<Longrightarrow> e \<le> ilog2 s"
  using ilog2_mono [of "2 ^ e" s] by simp

lemma bin_index_mono:
  assumes "geometry_valid g" "0 < a" "a \<le> b" "b < 2 ^ 61"
  shows "bin_index g a \<le> bin_index g b"
proof -
  let ?e = "unat (tg_exponential_log g)" and ?l = "unat (tg_linear_shift g)"
  have lin: "unat (tg_linear g) = 2 ^ (?e - ?l)" "?l \<le> ?e"
    using assms(1) by (simp_all add: geometry_valid_def)
  consider "b < 2 ^ ?e" | "a < 2 ^ ?e" "2 ^ ?e \<le> b" | "2 ^ ?e \<le> a"
    by linarith
  then show ?thesis
  proof cases
    case 1
    then show ?thesis
      using assms(3) by (simp add: bin_index_def div_le_mono)
  next
    case 2
    have "(a - 1) div 2 ^ ?l < 2 ^ (?e - ?l)"
      using 2(1) lin(2) by (simp add: div_less_iff_less_mult flip: power_add)
    then show ?thesis
      using 2 lin(1) by (simp add: bin_index_def)
  next
    case 3
    have oct: "?e \<le> ilog2 a" "ilog2 a \<le> ilog2 b"
      using le_ilog2 [OF 3] ilog2_mono [OF assms(3,2)] by simp_all
    let ?d = "\<lambda>s. (s - 2 ^ ilog2 s) * divisions g div 2 ^ ilog2 s"
    have "(ilog2 a - ?e) * divisions g + ?d a \<le> (ilog2 b - ?e) * divisions g + ?d b"
    proof (cases "ilog2 a = ilog2 b")
      case True
      then show ?thesis
        using assms(3) by (simp add: div_le_mono diff_le_mono)
    next
      case False
      have "?d a < divisions g"
        using division_value(2) [OF assms(1,2)] assms(3,4) by simp
      then have "(ilog2 a - ?e) * divisions g + ?d a \<le> Suc (ilog2 a - ?e) * divisions g"
        by simp
      also have "\<dots> \<le> (ilog2 b - ?e) * divisions g"
        using oct False by (intro mult_le_mono1) auto
      finally show ?thesis
        by simp
    qed
    then show ?thesis
      using 3 assms(3) by (simp add: bin_index_def)
  qed
qed

lemma bin_less: "geometry_valid g \<Longrightarrow> bin g s < bin_count g"
  unfolding bin_def Let_def min_less_iff_disj by (simp add: geometry_valid_def)

lemma bin_mono:
  assumes "geometry_valid g" "a \<le> b" "b < 2 ^ 61"
  shows "bin g a \<le> bin g b"
proof -
  have "bin_index g (max a 1) \<le> bin_index g (max b 1)"
    using assms by (intro bin_index_mono) auto
  then show ?thesis
    using assms by (simp add: bin_closed min.coboundedI1)
qed

section \<open>The automatic geometry\<close>

lemma auto_inner_fits:
  assumes "auto_bins extent e ls 0 \<le> max_bins"
  shows "auto_inner extent max_bins e ls dl \<noteq> None"
  using assms by (induction dl) (auto simp: auto_inner.simps)

lemma auto_inner_Some:
  assumes "auto_inner extent max_bins e ls dl = Some r"
  shows "\<exists>dl' \<le> dl. r = checked_geometry (auto_geometry extent e ls dl') extent \<and> auto_bins extent e ls dl' \<le> max_bins"
  using assms
proof (induction dl)
  case 0
  then show ?case
    by (auto simp: auto_inner.simps [of _ _ _ _ 0] split: if_splits)
next
  case (Suc dl)
  then show ?case
    by (auto simp: auto_inner.simps [of _ _ _ _ "Suc dl"] split: if_splits intro: le_SucI)
qed

lemma auto_outer_found:
  assumes "auto_bins extent e e 0 \<le> max_bins" "ls \<le> e"
  shows "\<exists>ls' dl. ls \<le> ls' \<and> ls' \<le> e \<and> dl \<le> 3 \<and>
    auto_outer extent max_bins e ls = checked_geometry (auto_geometry extent e ls' dl) extent \<and>
    auto_bins extent e ls' dl \<le> max_bins"
  using assms(2)
proof (induction "e - ls" arbitrary: ls)
  case 0
  then have "ls = e" by simp
  then obtain r where "auto_inner extent max_bins e ls 3 = Some r"
    using auto_inner_fits [OF assms(1)] by auto
  with \<open>ls = e\<close> show ?case
    using auto_inner_Some by (auto simp: auto_outer.simps [of _ _ _ e])
next
  case (Suc n)
  show ?case
  proof (cases "auto_inner extent max_bins e ls 3")
    case None
    have "n = e - Suc ls" "Suc ls \<le> e"
      using Suc(2) by auto
    then obtain ls' dl where "Suc ls \<le> ls'" "ls' \<le> e" "dl \<le> 3" "auto_bins extent e ls' dl \<le> max_bins"
        "auto_outer extent max_bins e (Suc ls) = checked_geometry (auto_geometry extent e ls' dl) extent"
      using Suc(1) by blast
    moreover have "auto_outer extent max_bins e ls = auto_outer extent max_bins e (Suc ls)"
      using None Suc(3) by (simp add: auto_outer.simps [of _ _ _ ls])
    ultimately show ?thesis
      by (intro exI [of _ ls'] exI [of _ dl]) simp
  next
    case (Some r)
    with Suc(3) show ?thesis
      using auto_inner_Some [OF Some] by (auto simp: auto_outer.simps [of _ _ _ ls])
  qed
qed

lemma budget_bounds:
  assumes "1024 \<le> extent"
  shows "512 \<le> budget extent" "budget extent = 512 \<or> budget extent * 1024 \<le> extent"
proof -
  have "extent div 1024 * 1024 \<le> extent"
    by simp
  then show "512 \<le> budget extent" "budget extent = 512 \<or> budget extent * 1024 \<le> extent"
    by (auto simp: budget_def shr_usize_def Let_def simp del: div_mult_self_is_m)
qed

lemma metadata_fits:
  assumes "1024 \<le> extent" "bin_count g \<le> auto_max_bins extent"
  shows "availability_words g \<le> WORD_BITS" "metadata_bytes g + MIN_METADATA \<le> extent"
proof -
  have "bin_count g \<le> 4096" "bin_count g \<le> budget extent * 8 div 129"
    using assms(2) by (simp_all add: auto_max_bins_def)
  then have b: "bin_count g \<le> 4096" "129 * bin_count g \<le> 8 * budget extent"
    by linarith+
  let ?w = "(bin_count g + 63) div 64"
  show "availability_words g \<le> WORD_BITS"
    using b(1) by (simp add: availability_words_def)
  have w: "64 * ?w \<le> bin_count g + 63"
    by simp
  have "bin_count g * 16 + ?w * 8 + 512 \<le> extent"
  proof (cases "budget extent = 512")
    case True
    with b(2) have "bin_count g \<le> 31"
      by simp
    moreover from this have "?w \<le> 1"
      by simp
    ultimately show ?thesis
      using assms(1) by linarith
  next
    case False
    then show ?thesis
      using w b budget_bounds [OF assms(1)] by linarith
  qed
  then show "metadata_bytes g + MIN_METADATA \<le> extent"
    by (simp add: metadata_bytes_def availability_words_def)
qed

lemma auto_geometry_valid:
  assumes "1024 \<le> extent" "extent < USIZE" "ls \<le> 10" "dl \<le> 3" "auto_bins extent 10 ls dl \<le> auto_max_bins extent"
  shows "validate (auto_geometry extent 10 ls dl) extent = Ok ()"
proof -
  let ?g = "auto_geometry extent 10 ls dl"
  have lg: "10 \<le> ilog2 extent"
    using le_ilog2 [of 10 extent] assms(1) by simp
  have "(2 :: nat) ^ ilog2 extent < 2 ^ 64"
    using ilog2_le [of extent] assms(1,2) by simp
  then have lg': "ilog2 extent < 64"
    by (rule power_less_imp_less_exp [rotated]) simp
  have lin: "shl_usize (Suc 0) (10 - ls) = 2 ^ (10 - ls)" "shl_usize (Suc 0) dl = 2 ^ dl"
    using assms(4) by (simp_all add: shl_one)
  have "(2 :: nat) ^ (10 - ls) \<le> 2 ^ 10"
    by (rule power_increasing) simp_all
  moreover have small: "auto_bins extent 10 ls dl < 65536"
    using assms(5) by (simp add: auto_max_bins_def)
  moreover have bins: "auto_bins extent 10 ls dl = 2 ^ (10 - ls) + (ilog2 extent - 9) * 2 ^ dl"
  proof -
    have "ilog2 extent - 10 + 1 = ilog2 extent - 9"
      using lg by simp
    then show ?thesis
      unfolding auto_bins_def One_nat_def lin by simp
  qed
  moreover have "(ls :: nat) < 256" "dl < 256"
    using assms(3,4) by simp_all
  ultimately have u: "unat (of_nat (auto_bins extent 10 ls dl) :: u16) = auto_bins extent 10 ls dl"
      "unat (of_nat (2 ^ (10 - ls)) :: u16) = 2 ^ (10 - ls)" "unat (of_nat ls :: u8) = ls" "unat (of_nat dl :: u8) = dl"
    by (simp_all only: unat_of_nat len_num1 len_bit0) simp_all
  have g: "bin_count ?g = auto_bins extent 10 ls dl" "unat (tg_linear ?g) = 2 ^ (10 - ls)"
      "unat (tg_linear_shift ?g) = ls" "unat (tg_exponential_log ?g) = 10" "unat (tg_divisions_log ?g) = dl"
      "tg_reserved ?g = 0" "divisions ?g = 2 ^ dl"
    by (simp_all only: auto_geometry_def geometry_of_def bin_count_def divisions_def talc_geometry.simps One_nat_def lin u) simp
  have pos: "0 < bin_count ?g" "0 < unat (tg_linear ?g)"
    unfolding g bins by simp_all
  have meta: "availability_words ?g \<le> 64" "metadata_bytes ?g + 512 \<le> extent"
    using metadata_fits [of extent ?g] assms(1,5) g(1) by simp_all
  have "geometry_valid ?g"
    using g pos meta assms(3,4) by (simp add: geometry_valid_def)
  then have "bin ?g extent < bin_count ?g"
    by (rule bin_less)
  moreover have "bin_count ?g - unat (tg_linear ?g) = (ilog2 extent - 9) * 2 ^ dl"
    unfolding g bins by simp
  moreover have "(10 + (ilog2 extent - 9) + (USIZE - 1)) mod USIZE = ilog2 extent"
    using lg lg' by simp
  moreover have "tg_bins ?g \<noteq> 0" "tg_linear ?g \<noteq> 0"
    using pos by (auto simp: bin_count_def)
  ultimately show ?thesis
    using assms(1,3,4) g meta lg lin bins by (simp add: validate_def Let_def)
qed

text \<open>
  C23. For every heap of at least 1024 bytes the automatic geometry exists: its search ends with
  a geometry that passes the validation which every later participant repeats, and whose metadata leaves at least
  512 bytes of the heap.
\<close>

theorem geometry_auto_total:
  assumes "1024 \<le> extent" and "extent < USIZE"
  shows "\<exists>g. geometry_auto extent = Ok g \<and> validate g extent = Ok () \<and> metadata_bytes g + MIN_METADATA \<le> extent"
proof -
  have lg: "10 \<le> ilog2 extent" "ilog2 extent < 64"
    using le_ilog2 [of 10 extent] assms(1) ilog2_le [of extent] assms power_less_imp_less_exp [of "2 :: nat" "ilog2 extent" 64]
    by simp_all
  have "auto_bins extent 10 10 0 \<le> auto_max_bins extent"
  proof (cases "ilog2 extent < 30")
    case True
    moreover have "31 \<le> budget extent * 8 div 129"
      using div_le_mono [of "512 * 8" "budget extent * 8" 129] budget_bounds(1) [OF assms(1)] by simp
    ultimately show ?thesis
      using lg by (simp add: auto_bins_def shl_usize_def auto_max_bins_def) (intro conjI; linarith)
  next
    case False
    then have "(2 :: nat) ^ 30 \<le> 2 ^ ilog2 extent"
      by (intro power_increasing) simp_all
    also have "\<dots> \<le> extent"
      using assms(1) by (intro ilog2_le) simp
    finally have "budget extent = 16384"
      by (simp add: budget_def shr_usize_def Let_def div_less_iff_less_mult not_less)
    with lg show ?thesis
      by (simp add: auto_bins_def shl_usize_def auto_max_bins_def)
  qed
  from auto_outer_found [OF this, of 4] obtain ls dl where
    "ls \<le> 10" "dl \<le> 3" "auto_bins extent 10 ls dl \<le> auto_max_bins extent"
    "auto_outer extent (auto_max_bins extent) 10 4 = checked_geometry (auto_geometry extent 10 ls dl) extent"
    by auto
  moreover from this have v: "validate (auto_geometry extent 10 ls dl) extent = Ok ()"
    using assms by (intro auto_geometry_valid) simp_all
  ultimately show ?thesis
    using assms(1) lg validate_valid(2) [OF v] by (auto simp: geometry_auto_def checked_geometry_def Let_def min_def)
qed

theorem geometry_auto_total_witness:
  "\<exists>g. geometry_auto 65536 = Ok g \<and> validate g 65536 = Ok () \<and> metadata_bytes g + MIN_METADATA \<le> 65536"
  by (rule geometry_auto_total) simp_all

text \<open>
  C24. Under a validated geometry the bin of every size is an index of the bin array, and of two sizes below
  \<open>2 ^ 61\<close> the larger one never has the smaller bin, so that every chunk in a bin above that of a request is large enough for it. Beyond that
  bound the shift by \<open>divisions_log\<close> in \<open>bin\<close> loses bits and the order is not kept.
\<close>

theorem bin_order:
  assumes "validate g extent = Ok ()" and "b < 2 ^ 61"
  shows "bin g a < bin_count g \<and> (a \<le> b \<longrightarrow> bin g a \<le> bin g b) \<and> (bin g a < bin g b \<longrightarrow> a < b \<or> 2 ^ 61 \<le> a)"
  using validate_valid(1) [OF assms(1)] assms(2) bin_mono [of g b a] bin_mono [of g a b] bin_less [of g a] by fastforce

definition demo_bins :: talc_geometry where
  "demo_bins = auto_geometry 1024 10 6 3"

lemma demo_bins_value: "demo_bins = \<lparr>tg_bins = 24, tg_linear = 16, tg_linear_shift = 6, tg_exponential_log = 10,
    tg_divisions_log = 3, tg_reserved = 0\<rparr>"
  using ilog2_power [of 10] by (simp add: demo_bins_def auto_geometry_def geometry_of_def auto_bins_def shl_usize_def)

lemma demo_bins_valid: "validate demo_bins 1024 = Ok ()"
  unfolding demo_bins_def using ilog2_power [of 10]
  by (intro auto_geometry_valid) (simp_all add: auto_bins_def shl_usize_def auto_max_bins_def budget_def shr_usize_def)

theorem bin_order_witness:
  "bin demo_bins 100 < bin_count demo_bins \<and> bin demo_bins 100 \<le> bin demo_bins 900 \<and> bin demo_bins 100 = 1"
proof -
  have "bin demo_bins 100 = 1"
    using validate_valid(1) [OF demo_bins_valid]
    by (subst bin_closed) (simp_all add: bin_index_def demo_bins_value bin_count_def)
  with bin_order [OF demo_bins_valid, of 900 100] show ?thesis
    by simp
qed

end
