(* ===== verification/Talc.thy ===== *)
theory Talc
  imports Talc_Geometry "HOL-Library.Monad_Syntax"
begin

text \<open>
  The allocator of the shared heap (\<open>TalcMeta\<close> of \<open>src/talc.rs\<close>). The heap is a tiling of its range by chunks. An
  allocated chunk ends in a tag that holds the chunk's base and two flags; a free chunk starts with a node of a doubly
  linked list and holds its size behind the node and in its last word. The lists hang off one bin per size class, and two
  levels of bit masks say which bins are not empty.

  Every pointer is a byte offset from the allocator's own address, as the stored pointers are; \<open>hb\<close> is that address in
  the process that runs the operation and matters for alignment only. The memory behind the metadata is a map from
  word-aligned offsets to words: every access of the allocator is to whole words. A link, an \<open>Option\<close> without a niche,
  is a discriminant word and a payload word.
\<close>

section \<open>Memory\<close>

record talc =
  talc_summary :: u64
  talc_avails :: nat
  talc_bins :: nat
  talc_words :: "nat \<Rightarrow> u64"

abbreviation REL_NULL :: nat where "REL_NULL \<equiv> 18446744073709551615"

definition talc_null :: talc where
  "talc_null = \<lparr>talc_summary = 0, talc_avails = REL_NULL, talc_bins = REL_NULL, talc_words = (\<lambda>_. 0)\<rparr>"

definition word_at :: "talc \<Rightarrow> nat \<Rightarrow> u64" where
  "word_at t p = talc_words t p"

definition put_word :: "nat \<Rightarrow> u64 \<Rightarrow> talc \<Rightarrow> talc" where
  "put_word p w t = t\<lparr>talc_words := (talc_words t)(p := w)\<rparr>"

definition link_at :: "talc \<Rightarrow> nat \<Rightarrow> nat option" where
  "link_at t p = (if word_at t p = 0 then None else Some (unat (word_at t (p + 8))))"

definition put_link :: "nat \<Rightarrow> nat option \<Rightarrow> talc \<Rightarrow> talc" where
  "put_link p l t = (case l of None \<Rightarrow> put_word p 0 t | Some x \<Rightarrow> put_word (p + 8) (of_nat x) (put_word p 1 t))"

text \<open>Alignment is of addresses.\<close>

definition align_ptr :: "nat \<Rightarrow> nat \<Rightarrow> nat \<Rightarrow> nat" where
  "align_ptr hb p a = align_up (hb + p) a - hb"

section \<open>Tags\<close>

definition tag_word :: "nat \<Rightarrow> bool \<Rightarrow> u64" where
  "tag_word chunk_base flag = of_nat chunk_base OR (if flag then 3 else 1)"

definition tag_init :: "nat \<Rightarrow> nat \<Rightarrow> bool \<Rightarrow> talc \<Rightarrow> talc" where
  "tag_init tag chunk_base flag = put_word tag (tag_word chunk_base flag)"

definition tag_base :: "u64 \<Rightarrow> nat" where
  "tag_base w = unat (w AND NOT 3)"

definition is_above_free :: "u64 \<Rightarrow> bool" where
  "is_above_free w \<longleftrightarrow> w AND 2 \<noteq> 0"

definition is_allocated :: "u64 \<Rightarrow> bool" where
  "is_allocated w \<longleftrightarrow> w AND 1 \<noteq> 0"

definition set_above_free :: "nat \<Rightarrow> talc \<Rightarrow> talc" where
  "set_above_free tag t = put_word tag (word_at t tag OR 2) t"

definition clear_above_free :: "nat \<Rightarrow> talc \<Rightarrow> talc" where
  "clear_above_free tag t = put_word tag (word_at t tag AND NOT 2) t"

definition acme_tag :: "nat \<Rightarrow> nat \<Rightarrow> talc \<Rightarrow> talc" where
  "acme_tag tag chunk_acme t = (if tag \<noteq> chunk_acme then put_word chunk_acme (of_nat tag) t else t)"

definition from_alloc_base :: "nat \<Rightarrow> nat \<Rightarrow> nat \<Rightarrow> talc \<Rightarrow> nat" where
  "from_alloc_base hb p sz t =
     (let post = align_ptr hb (p + sz) WORD_SIZE; v = unat (word_at t post) in if post < v then v else post)"

section \<open>Free nodes, heads and tails\<close>

definition node_insert :: "nat \<Rightarrow> nat option \<Rightarrow> nat \<Rightarrow> talc \<Rightarrow> talc" where
  "node_insert node nxt prev_next t =
     (let t = put_word (node + 16) (of_nat prev_next) (put_link node nxt t);
          t = put_link prev_next (Some node) t
      in case nxt of None \<Rightarrow> t | Some n \<Rightarrow> put_word (n + 16) (of_nat node) t)"

definition node_insert_by :: "nat \<Rightarrow> nat \<Rightarrow> talc \<Rightarrow> talc" where
  "node_insert_by node prev_next t = node_insert node (link_at t prev_next) prev_next t"

definition node_remove :: "nat \<Rightarrow> talc \<Rightarrow> talc" where
  "node_remove node t =
     (let nxt = link_at t node; prev_next = unat (word_at t (node + 16));
          t = put_link prev_next nxt t
      in case nxt of None \<Rightarrow> t | Some n \<Rightarrow> put_word (n + 16) (of_nat prev_next) t)"

definition size_low :: "talc \<Rightarrow> nat \<Rightarrow> nat" where
  "size_low t head = unat (word_at t (head + NODE_SIZE))"

definition head_acme :: "talc \<Rightarrow> nat \<Rightarrow> nat" where
  "head_acme t head = head + size_low t head"

definition head_init :: "nat \<Rightarrow> nat \<Rightarrow> nat \<Rightarrow> talc \<Rightarrow> talc" where
  "head_init head prev_next sz t = put_word (head + NODE_SIZE) (of_nat sz) (node_insert_by head prev_next t)"

definition head_tail :: "talc \<Rightarrow> nat \<Rightarrow> nat" where
  "head_tail t head = head_acme t head - TAG_SIZE"

definition tail_head :: "talc \<Rightarrow> nat \<Rightarrow> nat" where
  "tail_head t tail = tail - (unat (word_at t tail) - TAG_SIZE)"

section \<open>Chunks\<close>

type_synonym chunk = "nat \<times> nat"

definition is_chunk :: "chunk \<Rightarrow> bool" where
  "is_chunk c \<longleftrightarrow> fst c \<le> snd c \<and> MIN_CHUNK_SIZE \<le> snd c - fst c"

definition chunk_size :: "nat \<Rightarrow> nat" where
  "chunk_size sz = (if sz \<le> NODE_SIZE then MIN_CHUNK_SIZE else align_up (sz + TAG_SIZE) WORD_SIZE)"

definition split_prefix :: "nat \<Rightarrow> chunk \<Rightarrow> chunk option \<times> chunk" where
  "split_prefix alloc_base c =
     (let prefix_acme = min alloc_base (snd c - MIN_CHUNK_SIZE); prefix = (fst c, prefix_acme) in
      if is_chunk prefix then (Some prefix, (prefix_acme, snd c)) else (None, c))"

definition split_suffix :: "nat \<Rightarrow> chunk \<Rightarrow> chunk option \<times> chunk \<times> nat" where
  "split_suffix alloc_acme c =
     (let tag = max (fst c + MIN_TAG_OFFSET) alloc_acme; suffix_base = tag + TAG_SIZE; suffix = (suffix_base, snd c) in
      if is_chunk suffix then (Some suffix, (fst c, suffix_base), tag)
      else (None, c, snd c - TAG_SIZE))"

section \<open>Bins and their availability\<close>

definition bin_ptr :: "talc \<Rightarrow> nat \<Rightarrow> nat" where
  "bin_ptr t idx = talc_bins t + LINK_SIZE * idx"

definition avail_ptr :: "talc \<Rightarrow> nat \<Rightarrow> nat" where
  "avail_ptr t i = talc_avails t + WORD_SIZE * i"

definition toggle_avail :: "nat \<Rightarrow> talc \<Rightarrow> talc" where
  "toggle_avail idx t =
     (let i = idx div WORD_BITS; w = word_at t (avail_ptr t i); w' = w XOR push_bit (idx mod WORD_BITS) 1;
          t' = put_word (avail_ptr t i) w' t in
      if (w = 0) \<noteq> (w' = 0) then
        if w' = 0 then t'\<lparr>talc_summary := talc_summary t' AND NOT (push_bit i 1)\<rparr>
        else t'\<lparr>talc_summary := talc_summary t' OR push_bit i 1\<rparr>
      else t')"

definition trailing_zeros :: "u64 \<Rightarrow> nat" where
  "trailing_zeros w = length (takeWhile (\<lambda>i. \<not> bit w i) [0..<64])"

definition next_avail_bin_idx :: "talc_geometry \<Rightarrow> nat \<Rightarrow> talc \<Rightarrow> nat option" where
  "next_avail_bin_idx g idx t =
     (if bin_count g \<le> idx then None
      else let i = idx div WORD_BITS; shifted = drop_bit (idx mod WORD_BITS) (word_at t (avail_ptr t i)) in
      if shifted \<noteq> 0 then Some (idx + trailing_zeros shifted)
      else if availability_words g \<le> i + 1 then None
      else let summary = talc_summary t AND push_bit (i + 1) (- 1) in
      if summary = 0 then None
      else let n = trailing_zeros summary in
      Some (n * WORD_BITS + trailing_zeros (word_at t (avail_ptr t n))))"

definition insert_free :: "talc_geometry \<Rightarrow> nat \<Rightarrow> nat \<Rightarrow> talc \<Rightarrow> talc" where
  "insert_free g head sz t =
     (let idx = bin g sz;
          t = (if link_at t (bin_ptr t idx) = None then toggle_avail idx t else t);
          t = head_init head (bin_ptr t idx) sz t
      in put_word (head_tail t head) (of_nat sz) t)"

definition remove_free :: "talc_geometry \<Rightarrow> nat \<Rightarrow> nat \<Rightarrow> talc \<Rightarrow> talc" where
  "remove_free g head idx t =
     (let t = node_remove head t in if link_at t (bin_ptr t idx) = None then toggle_avail idx t else t)"

definition remove_free_by_head :: "talc_geometry \<Rightarrow> nat \<Rightarrow> talc \<Rightarrow> talc" where
  "remove_free_by_head g head t = remove_free g head (bin g (size_low t head)) t"

definition remove_free_by_tail :: "talc_geometry \<Rightarrow> nat \<Rightarrow> talc \<Rightarrow> nat \<times> talc" where
  "remove_free_by_tail g tail t = (let head = tail_head t tail in (head, remove_free_by_head g head t))"

section \<open>Allocation\<close>

text \<open>
  The walk along a free list and the walk along the bins end by themselves only in a consistent heap; \<open>None\<close> is a walk
  that does not end. A found chunk is given with the base and the end of the allocation.
\<close>

definition fit :: "nat \<Rightarrow> nat \<Rightarrow> nat \<Rightarrow> talc \<Rightarrow> nat \<Rightarrow> (chunk \<times> nat \<times> nat) option" where
  "fit hb sz al t head =
     (if chunk_size sz \<le> size_low t head \<and> al \<le> WORD_SIZE then
        Some ((head, head_acme t head), head, align_ptr hb (head + sz) WORD_SIZE)
      else let alloc_base = align_ptr hb head al in
      if alloc_base + chunk_size sz \<le> head_acme t head then
        Some ((head, head_acme t head), alloc_base, align_ptr hb (alloc_base + sz) WORD_SIZE)
      else None)"

partial_function (option) find_fit ::
    "nat \<Rightarrow> nat \<Rightarrow> nat \<Rightarrow> talc \<Rightarrow> nat option \<Rightarrow> (chunk \<times> nat \<times> nat) option option" where
  "find_fit hb sz al t cur = (case cur of None \<Rightarrow> Some None | Some head \<Rightarrow>
     (case fit hb sz al t head of Some r \<Rightarrow> Some (Some r) | None \<Rightarrow> find_fit hb sz al t (link_at t head)))"

partial_function (option) acquire_loop ::
    "talc_geometry \<Rightarrow> nat \<Rightarrow> nat \<Rightarrow> nat \<Rightarrow> talc \<Rightarrow> nat \<Rightarrow> ((chunk \<times> nat \<times> nat) \<times> talc) option option" where
  "acquire_loop g hb sz al t idx =
     Option.bind (find_fit hb sz al t (link_at t (bin_ptr t idx))) (\<lambda>r. case r of
       Some f \<Rightarrow> Some (Some (f, remove_free g (fst (fst f)) idx t))
     | None \<Rightarrow> (case next_avail_bin_idx g (idx + 1) t of
         None \<Rightarrow> Some None | Some idx' \<Rightarrow> acquire_loop g hb sz al t idx'))"

definition acquire_chunk ::
    "talc_geometry \<Rightarrow> nat \<Rightarrow> nat \<Rightarrow> nat \<Rightarrow> talc \<Rightarrow> ((chunk \<times> nat \<times> nat) \<times> talc) option option" where
  "acquire_chunk g hb sz al t = (case next_avail_bin_idx g (bin g (chunk_size sz)) t of
     None \<Rightarrow> Some None | Some idx \<Rightarrow> acquire_loop g hb sz al t idx)"

text \<open>\<open>None\<close> as a pointer is the dangling pointer of an allocation without bytes.\<close>

definition carve :: "talc_geometry \<Rightarrow> chunk \<Rightarrow> nat \<Rightarrow> nat \<Rightarrow> talc \<Rightarrow> talc" where
  "carve g free alloc_base alloc_acme t =
     (let (prefix, free) = split_prefix alloc_base free;
          t = (case prefix of
                 Some c \<Rightarrow> insert_free g (fst c) (snd c - fst c) t
               | None \<Rightarrow> clear_above_free (fst free - TAG_SIZE) t);
          (suffix, free, tag) = split_suffix alloc_acme free;
          t = (case suffix of
                 Some c \<Rightarrow> tag_init tag (fst free) True (insert_free g (fst c) (snd c - fst c) t)
               | None \<Rightarrow> tag_init tag (fst free) False t)
      in acme_tag tag alloc_acme t)"

definition talc_allocate :: "talc_geometry \<Rightarrow> nat \<Rightarrow> layout \<Rightarrow> talc \<Rightarrow> ((nat option, unit) result \<times> talc) option" where
  "talc_allocate g hb l t =
     (if size l = 0 then Some (Ok None, t)
      else map_option (\<lambda>r. case r of
        None \<Rightarrow> (Err (), t)
      | Some ((free, alloc_base, alloc_acme), t) \<Rightarrow> (Ok (Some alloc_base), carve g free alloc_base alloc_acme t))
        (acquire_chunk g hb (size l) (align l) t))"

section \<open>Deallocation\<close>

definition talc_deallocate :: "talc_geometry \<Rightarrow> nat \<Rightarrow> nat \<Rightarrow> nat \<Rightarrow> talc \<Rightarrow> talc" where
  "talc_deallocate g hb p sz t =
     (if sz = 0 then t
      else
        let tag = from_alloc_base hb p sz t;
            base = tag_base (word_at t tag); acme = tag + TAG_SIZE; prev = base - TAG_SIZE;
            (base, t) = (if \<not> is_allocated (word_at t prev) then remove_free_by_tail g prev t
                         else (base, set_above_free prev t));
            (acme, t) = (if is_above_free (word_at t tag) then
                           (acme + size_low t acme, remove_free_by_head g acme t)
                         else (acme, t))
        in insert_free g base (acme - base) t)"

section \<open>Taking possession of a range\<close>

record talc_config =
  tc_forward :: nat
  tc_size :: nat
  tc_geometry :: "talc_geometry option"

definition talc_config_new :: "nat \<Rightarrow> talc_config" where
  "talc_config_new sz = \<lparr>tc_forward = 0, tc_size = sz, tc_geometry = None\<rparr>"

definition with_geometry :: "talc_geometry \<Rightarrow> talc_config \<Rightarrow> talc_config" where
  "with_geometry g conf = conf\<lparr>tc_geometry := Some g\<rparr>"

definition config_geometry :: "talc_config \<Rightarrow> (talc_geometry, geometry_error) result" where
  "config_geometry conf = (case tc_geometry conf of
     Some g \<Rightarrow> checked_geometry g (tc_size conf) | None \<Rightarrow> geometry_auto (tc_size conf))"

text \<open>\<open>None\<close> is the panic of the assertion.\<close>

definition with_bound :: "nat \<Rightarrow> talc_config \<Rightarrow> talc_config option" where
  "with_bound bound conf = (if tc_forward conf < bound
     then Some (conf\<lparr>tc_size := min (tc_size conf) bound - tc_forward conf\<rparr>) else None)"

abbreviation TALC_META_SIZE :: nat where "TALC_META_SIZE \<equiv> 24"

definition claim_metadata :: "nat \<Rightarrow> talc_geometry \<Rightarrow> talc \<Rightarrow> nat \<times> talc" where
  "claim_metadata p g t =
     (let t = fold (\<lambda>i. put_word (p + WORD_SIZE * i) 0) [0..<availability_words g] t;
          t = t\<lparr>talc_avails := p\<rparr>;
          b = p + WORD_SIZE * availability_words g;
          t = fold (\<lambda>i. put_link (b + LINK_SIZE * i) None) [0..<bin_count g] t;
          t = t\<lparr>talc_bins := b\<rparr>
      in (b + LINK_SIZE * bin_count g, t))"

definition talc_claim :: "nat \<Rightarrow> talc_config \<Rightarrow> talc \<Rightarrow> (unit, unit) result \<times> talc" where
  "talc_claim hb conf t = (case config_geometry conf of Err _ \<Rightarrow> (Err (), t) | Ok g \<Rightarrow>
     let b = align_ptr hb (TALC_META_SIZE + tc_forward conf) WORD_SIZE;
         sz = tc_size conf div WORD_SIZE * WORD_SIZE in
     if talc_bins t \<noteq> REL_NULL then
       if sz \<le> MIN_CHUNK_SIZE + TAG_SIZE then (Err (), t)
       else (Ok (), insert_free g (b + TAG_SIZE) sz (tag_init b 0 True t))
     else if sz < metadata_bytes g + 2 * TAG_SIZE then (Err (), t)
     else
       let t = tag_init b 0 True t;
           (metadata_acme, t) = claim_metadata (b + TAG_SIZE) g t;
           head = metadata_acme + TAG_SIZE; free_size = sz - (head - b) in
       if MIN_CHUNK_SIZE \<le> free_size then
         (Ok (), tag_init metadata_acme b True (insert_free g head free_size t))
       else (Ok (), acme_tag (b + sz - TAG_SIZE) (b + sz) (tag_init (b + sz - TAG_SIZE) b False t)))"

end
