(* ===== verification/Talc_Lists.thy ===== *)
theory Talc_Lists
  imports Talc
begin

text \<open>
  The free lists of the allocator and their index. \<open>chain t l xs\<close> says that the link at \<open>l\<close> starts the doubly linked
  list of the nodes \<open>xs\<close>. \<open>free_lists\<close> collects what the allocator keeps true of all its lists and of the two
  levels of masks, and \<open>insert_free\<close> and \<open>remove_free\<close> keep it.
\<close>

section \<open>Memory\<close>

lemma word_at_put_word [simp]: "word_at (put_word p w t) q = (if q = p then w else word_at t q)"
  by (simp add: word_at_def put_word_def)

lemma word_at_put_link [simp]:
  "word_at (put_link p None t) q = (if q = p then 0 else word_at t q)"
  "word_at (put_link p (Some x) t) q = (if q = p + 8 then of_nat x else if q = p then 1 else word_at t q)"
  by (simp_all add: put_link_def)

lemma put_fields [simp]:
  "talc_avails (put_word p w t) = talc_avails t" "talc_bins (put_word p w t) = talc_bins t"
  "talc_summary (put_word p w t) = talc_summary t"
  "talc_avails (put_link p l t) = talc_avails t" "talc_bins (put_link p l t) = talc_bins t"
  "talc_summary (put_link p l t) = talc_summary t"
  by (simp_all add: put_word_def put_link_def split: option.split)

lemma word_at_summary [simp]: "word_at (t\<lparr>talc_summary := s\<rparr>) q = word_at t q"
  by (simp add: word_at_def)

lemma node_fields [simp]:
  "talc_avails (node_insert n x l t) = talc_avails t" "talc_bins (node_insert n x l t) = talc_bins t"
  "talc_summary (node_insert n x l t) = talc_summary t"
  "talc_avails (node_remove n t) = talc_avails t" "talc_bins (node_remove n t) = talc_bins t"
  "talc_summary (node_remove n t) = talc_summary t"
  by (simp_all add: node_insert_def node_remove_def Let_def split: option.split)

section \<open>Chains\<close>

fun seg :: "talc \<Rightarrow> nat \<Rightarrow> nat list \<Rightarrow> bool" where
  "seg t l [] \<longleftrightarrow> True"
| "seg t l (x # xs) \<longleftrightarrow> word_at t l = 1 \<and> word_at t (l + 8) = of_nat x \<and> word_at t (x + 16) = of_nat l \<and> seg t x xs"

definition chain :: "talc \<Rightarrow> nat \<Rightarrow> nat list \<Rightarrow> bool" where
  "chain t l xs \<longleftrightarrow> seg t l xs \<and> word_at t (last (l # xs)) = 0"

lemma chain_Nil [simp]: "chain t l [] \<longleftrightarrow> word_at t l = 0"
  by (simp add: chain_def)

lemma chain_Cons [simp]:
  "chain t l (x # xs) \<longleftrightarrow> word_at t l = 1 \<and> word_at t (l + 8) = of_nat x \<and> word_at t (x + 16) = of_nat l \<and> chain t x xs"
  by (auto simp: chain_def)

lemma seg_append: "seg t l (xs @ ys) \<longleftrightarrow> seg t l xs \<and> seg t (last (l # xs)) ys"
  by (induction xs arbitrary: l) auto

lemma chain_append: "chain t l (xs @ ys) \<longleftrightarrow> seg t l xs \<and> chain t (last (l # xs)) ys"
  by (induction xs arbitrary: l) auto

lemma seg_cong:
  assumes "\<And>q. q \<in> set (butlast (l # xs)) \<Longrightarrow> word_at t' q = word_at t q \<and> word_at t' (q + 8) = word_at t (q + 8)"
    and "\<And>x. x \<in> set xs \<Longrightarrow> word_at t' (x + 16) = word_at t (x + 16)"
  shows "seg t' l xs = seg t l xs"
  using assms by (induction xs arbitrary: l) (auto split: if_splits)

lemma chain_cong:
  assumes "\<And>q. q \<in> set (l # xs) \<Longrightarrow> word_at t' q = word_at t q \<and> word_at t' (q + 8) = word_at t (q + 8)"
    and "\<And>x. x \<in> set xs \<Longrightarrow> word_at t' (x + 16) = word_at t (x + 16)"
  shows "chain t' l xs = chain t l xs"
  using assms by (induction xs arbitrary: l) auto

lemma chain_put_word:
  assumes "p \<notin> {l, l + 8}" "\<And>x. x \<in> set xs \<Longrightarrow> p \<notin> {x, x + 8, x + 16}"
  shows "chain (put_word p w t) l xs = chain t l xs"
proof (rule chain_cong)
  show "word_at (put_word p w t) q = word_at t q \<and> word_at (put_word p w t) (q + 8) = word_at t (q + 8)"
    if "q \<in> set (l # xs)" for q
    using assms(1) assms(2) [of q] that by auto
  show "word_at (put_word p w t) (x + 16) = word_at t (x + 16)" if "x \<in> set xs" for x
    using assms(2) [OF that] by auto
qed

lemma link_at_chain:
  assumes "chain t l xs" "\<And>x. x \<in> set xs \<Longrightarrow> x < USIZE"
  shows "link_at t l = (case xs of [] \<Rightarrow> None | x # _ \<Rightarrow> Some x)"
  using assms by (cases xs) (auto simp: link_at_def unat_of_nat)

text \<open>Nodes do not overlap, and the links of the bins lie below all nodes.\<close>

definition apart :: "nat \<Rightarrow> nat \<Rightarrow> bool" where
  "apart x y \<longleftrightarrow> x + NODE_SIZE \<le> y \<or> y + NODE_SIZE \<le> x"

lemma apart_sym: "apart x y \<longleftrightarrow> apart y x"
  by (auto simp: apart_def)

lemma apart_ne:
  assumes "apart q x"
  shows "q \<noteq> x" "q \<noteq> x + 8" "q \<noteq> x + 16" "q + 8 \<noteq> x" "q + 8 \<noteq> x + 16" "q + 16 \<noteq> x" "q + 16 \<noteq> x + 8"
  using assms unfolding apart_def by linarith+

lemma below_ne:
  assumes "l + 16 \<le> (q :: nat)"
  shows "q \<noteq> l" "q \<noteq> l + 8" "q + 8 \<noteq> l" "q + 16 \<noteq> l" "q + 16 \<noteq> l + 8"
  using assms by linarith+

definition spread :: "nat set \<Rightarrow> bool" where
  "spread S \<longleftrightarrow> (\<forall>x\<in>S. x < USIZE \<and> (\<forall>y\<in>S. x \<noteq> y \<longrightarrow> apart x y))"

lemma spreadD: "spread S \<Longrightarrow> x \<in> S \<Longrightarrow> x < USIZE" "spread S \<Longrightarrow> x \<in> S \<Longrightarrow> y \<in> S \<Longrightarrow> x \<noteq> y \<Longrightarrow> apart x y"
  by (auto simp: spread_def)

lemma spread_subset: "spread S \<Longrightarrow> T \<subseteq> S \<Longrightarrow> spread T"
  by (auto simp: spread_def)

lemma word_node_insert_by:
  "word_at (node_insert_by h l t) q = (case link_at t l of
     None \<Rightarrow> if q = l + 8 then of_nat h else if q = l then 1 else if q = h + 16 then of_nat l else if q = h then 0 else word_at t q
   | Some x \<Rightarrow> if q = x + 16 then of_nat h else if q = l + 8 then of_nat h else if q = l then 1
      else if q = h + 16 then of_nat l else if q = h + 8 then of_nat x else if q = h then 1 else word_at t q)"
  by (cases "link_at t l") (simp_all add: node_insert_by_def node_insert_def Let_def)

lemma insert_chain:
  assumes "chain t l xs" "spread (set (h # xs))" "distinct (h # xs)" "\<And>x. x \<in> set (h # xs) \<Longrightarrow> l + 16 \<le> x"
  shows "chain (node_insert_by h l t) l (h # xs)"
proof -
  have lk: "link_at t l = (case xs of [] \<Rightarrow> None | x # _ \<Rightarrow> Some x)"
    using assms(1,2) by (intro link_at_chain) (auto simp: spread_def)
  let ?t = "node_insert_by h l t"
  have h: "l + 16 \<le> h"
    using assms(4) by simp
  show ?thesis
  proof (cases xs)
    case Nil
    then show ?thesis
      using h by (simp add: word_node_insert_by lk)
  next
    case (Cons x ys)
    have x: "apart x h" "l + 16 \<le> x"
      using assms(2-4) Cons by (auto simp: spread_def)
    have "chain ?t x ys = chain t x ys"
    proof (rule chain_cong)
      fix q assume "q \<in> set (x # ys)"
      then have q: "apart q h" "l + 16 \<le> q" "q = x \<or> apart q x"
        using assms(2-4) Cons by (auto simp: spread_def)
      from q(3) have "q \<noteq> x + 16" "q + 8 \<noteq> x + 16"
        by (auto dest: apart_ne)
      with apart_ne [OF q(1)] below_ne [OF q(2)] show "word_at ?t q = word_at t q \<and> word_at ?t (q + 8) = word_at t (q + 8)"
        by (simp add: word_node_insert_by lk Cons)
    next
      fix q assume "q \<in> set ys"
      then have q: "apart q h" "l + 16 \<le> q" "apart q x"
        using assms(2-4) Cons by (auto simp: spread_def)
      from apart_ne [OF q(1)] below_ne [OF q(2)] apart_ne [OF q(3)] show "word_at ?t (q + 16) = word_at t (q + 16)"
        by (simp add: word_node_insert_by lk Cons)
    qed
    then show ?thesis
      using assms(1) Cons h apart_ne [OF x(1)] below_ne [OF x(2)] below_ne [OF h] by (simp add: word_node_insert_by lk)
  qed
qed

lemma insert_frame:
  assumes "chain t l xs" "spread (set xs)" "q \<notin> {l, l + 8, h, h + 8, h + 16}" "\<And>x. x \<in> set xs \<Longrightarrow> q \<noteq> x + 16"
  shows "word_at (node_insert_by h l t) q = word_at t q"
  using assms link_at_chain [OF assms(1)] spreadD(1) [OF assms(2)]
  by (cases xs) (auto simp: word_node_insert_by)

lemma word_node_remove:
  assumes "unat (word_at t (h + 16)) = p"
  shows "word_at (node_remove h t) q = (case link_at t h of
     None \<Rightarrow> if q = p then 0 else word_at t q
   | Some y \<Rightarrow> if q = y + 16 then of_nat p else if q = p + 8 then of_nat y else if q = p then 1 else word_at t q)"
  by (simp add: node_remove_def Let_def assms split: option.split)

lemma remove_chain:
  assumes "chain t l (xs @ h # ys)" "spread (set (xs @ h # ys))" "distinct (xs @ h # ys)"
    and "\<And>x. x \<in> set (xs @ h # ys) \<Longrightarrow> l + 16 \<le> x"
  shows "chain (node_remove h t) l (xs @ ys)"
    and "q \<notin> {l, l + 8} \<Longrightarrow> (\<And>x. x \<in> set (xs @ ys) \<Longrightarrow> q \<notin> {x, x + 8, x + 16}) \<Longrightarrow> word_at (node_remove h t) q = word_at t q"
proof -
  let ?p = "last (l # xs)" and ?t = "node_remove h t"
  have c: "seg t l xs" "word_at t ?p = 1" "word_at t (h + 16) = of_nat ?p" "chain t h ys"
    using assms(1) by (simp_all add: chain_append)
  have p: "?p = l \<and> xs = [] \<or> ?p \<in> set xs"
    by (cases xs rule: rev_cases) auto
  have "l < USIZE"
    using assms(2) assms(4) [of h] by (auto simp: spread_def)
  then have prev: "unat (word_at t (h + 16)) = ?p"
    using c(3) p assms(2) by (auto simp: spread_def unat_of_nat)
  have "link_at t h = (case ys of [] \<Rightarrow> None | y # _ \<Rightarrow> Some y)"
    using assms(2) by (intro link_at_chain [OF c(4)]) (auto simp: spread_def)
  then have w: "word_at ?t q = (case ys of [] \<Rightarrow> if q = ?p then 0 else word_at t q
      | y # _ \<Rightarrow> if q = y + 16 then of_nat ?p else if q = ?p + 8 then of_nat y else if q = ?p then 1 else word_at t q)" for q
    unfolding word_node_remove [OF prev] by (simp split: list.split)
  have far: "apart q ?p \<or> q = ?p \<or> ?p + 16 \<le> q" if "q \<in> set (xs @ ys)" for q
    using p that assms(4) [of q] spreadD(2) [OF assms(2), of q ?p] by (cases "q = ?p") auto
  have hd: "l + 16 \<le> y" "q \<in> set (xs @ ys) \<Longrightarrow> q \<noteq> y \<Longrightarrow> apart q y" if "ys = y # zs" for y zs q
    using that assms(2-4) by (auto simp: spread_def)
  have pne: "ys = y # zs \<Longrightarrow> ?p \<noteq> y" for y zs
    using p assms(3) hd(1) by auto
  have "seg ?t l xs = seg t l xs"
  proof (rule seg_cong)
    fix q assume "q \<in> set (butlast (l # xs))"
    then have q: "q = l \<or> q \<in> set xs" "q \<noteq> ?p" "xs \<noteq> []"
      using assms(3) assms(4) [of l] by (cases xs rule: rev_cases; auto)+
    have "{q, q + 8} \<inter> {?p, ?p + 8} = {}"
      using q p far [of q] assms(4) [of ?p] by (auto simp: apart_def)
    moreover have "y + 16 \<notin> {q, q + 8}" if "ys = y # zs" for y zs
      using q(1) hd(1) [OF that] hd(2) [OF that, of q] assms(3) that by (auto simp: apart_def)
    ultimately show "word_at ?t q = word_at t q \<and> word_at ?t (q + 8) = word_at t (q + 8)"
      by (cases ys) (auto simp: w)
  next
    fix q assume q: "q \<in> set xs"
    have "q + 16 \<notin> {?p, ?p + 8}"
      using far [of q] q by (auto simp: apart_def)
    moreover have "q \<noteq> y" if "ys = y # zs" for y zs
      using q assms(3) that by auto
    ultimately show "word_at ?t (q + 16) = word_at t (q + 16)"
      by (cases ys) (auto simp: w)
  qed
  moreover have "chain ?t ?p ys"
  proof (cases ys)
    case Nil
    then show ?thesis by (simp add: w)
  next
    case (Cons y zs)
    have yp: "y + 16 \<notin> {?p, ?p + 8}" "y \<noteq> ?p"
      using far [of y] pne [OF Cons] Cons by (auto simp: apart_def)
    have "chain ?t y zs = chain t y zs"
    proof (rule chain_cong)
      fix q assume q: "q \<in> set (y # zs)"
      have "q \<noteq> ?p"
        using p q assms(3) assms(4) [of q] Cons by auto
      then have "{q, q + 8} \<inter> {?p, ?p + 8} = {}" "y + 16 \<notin> {q, q + 8}"
        using far [of q] hd(2) [OF Cons, of q] q Cons by (auto simp: apart_def)
      then show "word_at ?t q = word_at t q \<and> word_at ?t (q + 8) = word_at t (q + 8)"
        by (auto simp: w Cons)
    next
      fix q assume q: "q \<in> set zs"
      have "q + 16 \<notin> {?p, ?p + 8}" "q \<noteq> y"
        using far [of q] q assms(3) Cons by (auto simp: apart_def)
      then show "word_at ?t (q + 16) = word_at t (q + 16)"
        by (auto simp: w Cons)
    qed
    then show ?thesis
      using c(4) Cons yp by (auto simp: w)
  qed
  ultimately show "chain ?t l (xs @ ys)"
    using c(1) by (simp add: chain_append)
  show "word_at ?t q = word_at t q" if "q \<notin> {l, l + 8}" "\<And>x. x \<in> set (xs @ ys) \<Longrightarrow> q \<notin> {x, x + 8, x + 16}"
  proof -
    have "q \<notin> {?p, ?p + 8}"
      using that(1) that(2) [of ?p] p by auto
    moreover have "q \<noteq> y + 16" if "ys = y # zs" for y zs
      using \<open>\<And>x. x \<in> set (xs @ ys) \<Longrightarrow> q \<notin> {x, x + 8, x + 16}\<close> [of y] that by simp
    ultimately show ?thesis
      by (cases ys) (auto simp: w)
  qed
qed

section \<open>Availability masks\<close>

lemma trailing_zeros:
  assumes "w \<noteq> 0"
  shows "trailing_zeros w < 64" "bit w (trailing_zeros w)" "i < trailing_zeros w \<Longrightarrow> \<not> bit w i"
proof -
  let ?P = "\<lambda>i. \<not> bit w i"
  obtain n where n: "bit w n"
    using assms by (auto simp: bit_eq_iff)
  then have n64: "n < 64"
    using bit_imp_le_length [OF n] by simp
  let ?k = "length (takeWhile ?P [0..<64])"
  have "?k < length [0..<64]"
  proof (rule ccontr)
    assume "\<not> ?k < length [0..<64]"
    then have "takeWhile ?P [0..<64] = [0..<64]"
      using length_takeWhile_le [of ?P "[0..<64]"] by (metis linorder_not_less takeWhile_eq_take take_all)
    then have "\<forall>i\<in>set [0..<64]. ?P i"
      by (simp only: takeWhile_eq_all_conv)
    then show False
      using n n64 by auto
  qed
  moreover from this have "\<not> ?P ([0..<64] ! ?k)"
    by (rule nth_length_takeWhile)
  moreover have "?P ([0..<64] ! i)" if "i < ?k" for i
    using that by (metis nth_mem set_takeWhileD takeWhile_nth)
  ultimately show "trailing_zeros w < 64" "bit w (trailing_zeros w)" "i < trailing_zeros w \<Longrightarrow> \<not> bit w i"
    by (auto simp: trailing_zeros_def)
qed

text \<open>The masks say which of the first \<open>n\<close> bins are in \<open>S\<close>.\<close>

definition masks :: "nat \<Rightarrow> (nat \<Rightarrow> bool) \<Rightarrow> talc \<Rightarrow> bool" where
  "masks n S t \<longleftrightarrow>
     (\<forall>i < (n + 63) div 64. \<forall>j < 64. bit (word_at t (avail_ptr t i)) j \<longleftrightarrow> 64 * i + j < n \<and> S (64 * i + j)) \<and>
     (\<forall>i < 64. bit (talc_summary t) i \<longleftrightarrow> i < (n + 63) div 64 \<and> word_at t (avail_ptr t i) \<noteq> 0)"

lemma masks_cong:
  assumes "\<And>i. i < (n + 63) div 64 \<Longrightarrow> word_at t' (avail_ptr t i) = word_at t (avail_ptr t i)"
    and "talc_avails t' = talc_avails t" "talc_summary t' = talc_summary t" "\<And>i. i < n \<Longrightarrow> S' i = S i"
  shows "masks n S' t' = masks n S t"
  using assms by (simp add: masks_def avail_ptr_def cong: conj_cong)

lemma word_nonzero_iff: "(w :: u64) \<noteq> 0 \<longleftrightarrow> (\<exists>j < 64. bit w j)"
  by (auto simp: bit_eq_iff dest: bit_imp_le_length)

lemma toggle_fields [simp]:
  "talc_avails (toggle_avail i t) = talc_avails t" "talc_bins (toggle_avail i t) = talc_bins t"
  by (simp_all add: toggle_avail_def Let_def)

lemma word_toggle:
  "word_at (toggle_avail idx t) q = (if q = avail_ptr t (idx div 64)
     then word_at t q XOR push_bit (idx mod 64) 1 else word_at t q)"
  by (simp add: toggle_avail_def Let_def)

lemma summary_toggle:
  assumes "i < 64" "idx div 64 < 64"
    and "bit (talc_summary t) (idx div 64) \<longleftrightarrow> word_at t (avail_ptr t (idx div 64)) \<noteq> 0"
  shows "bit (talc_summary (toggle_avail idx t)) i \<longleftrightarrow>
    (if i = idx div 64 then word_at (toggle_avail idx t) (avail_ptr t i) \<noteq> 0 else bit (talc_summary t) i)"
  using assms
  by (auto simp: toggle_avail_def Let_def bit_simps)

lemma toggle_masks:
  assumes "masks n S t" "idx < n" "(n + 63) div 64 \<le> 64"
  shows "masks n (S(idx := \<not> S idx)) (toggle_avail idx t)"
proof -
  let ?t = "toggle_avail idx t" and ?w = "(n + 63) div 64"
  have m: "bit (word_at t (avail_ptr t i)) j \<longleftrightarrow> 64 * i + j < n \<and> S (64 * i + j)" if "i < ?w" "j < 64" for i j
    using assms(1) that by (simp add: masks_def)
  have s: "bit (talc_summary t) i \<longleftrightarrow> i < ?w \<and> word_at t (avail_ptr t i) \<noteq> 0" if "i < 64" for i
    using assms(1) that by (simp add: masks_def)
  have idx: "idx div 64 < ?w" "idx div 64 < 64"
    using assms(2,3) by linarith+
  have ptr: "avail_ptr ?t i = avail_ptr t i" "avail_ptr t i = avail_ptr t k \<longleftrightarrow> i = k" for i k
    by (simp_all add: avail_ptr_def)
  have "bit (word_at ?t (avail_ptr t i)) j \<longleftrightarrow> 64 * i + j < n \<and> (S(idx := \<not> S idx)) (64 * i + j)"
    if "i < ?w" "j < 64" for i j
  proof (cases "i = idx div 64 \<and> j = idx mod 64")
    case True
    then have "64 * i + j = idx"
      by simp
    then show ?thesis
      using True m [OF that] assms(2) that(2) by (simp add: word_toggle bit_simps)
  next
    case False
    then have "64 * i + j \<noteq> idx"
      using that(2) by auto
    then show ?thesis
      using False m [OF that] that(2) by (auto simp: word_toggle ptr bit_simps)
  qed
  moreover have "bit (talc_summary ?t) i \<longleftrightarrow> i < ?w \<and> word_at ?t (avail_ptr t i) \<noteq> 0" if "i < 64" for i
    using summary_toggle [OF that idx(2)] s [OF idx(2)] s [OF that] idx(1)
    by (cases "i = idx div 64") (auto simp: word_toggle ptr)
  ultimately show ?thesis
    by (simp add: masks_def ptr)
qed

text \<open>The search over the masks finds the first bin at or above the index that is in \<open>S\<close>.\<close>

definition next_in :: "nat \<Rightarrow> (nat \<Rightarrow> bool) \<Rightarrow> nat \<Rightarrow> nat option \<Rightarrow> bool" where
  "next_in n S idx r \<longleftrightarrow> (case r of
     None \<Rightarrow> \<forall>k. idx \<le> k \<and> k < n \<longrightarrow> \<not> S k
   | Some j \<Rightarrow> idx \<le> j \<and> j < n \<and> S j \<and> (\<forall>k. idx \<le> k \<and> k < j \<longrightarrow> \<not> S k))"

lemma masksD:
  assumes "masks n S t"
  shows "i < (n + 63) div 64 \<Longrightarrow> j < 64 \<Longrightarrow> bit (word_at t (avail_ptr t i)) j \<longleftrightarrow> 64 * i + j < n \<and> S (64 * i + j)"
    and "i < 64 \<Longrightarrow> bit (talc_summary t) i \<longleftrightarrow> i < (n + 63) div 64 \<and> word_at t (avail_ptr t i) \<noteq> 0"
  using assms by (simp_all add: masks_def)

lemma clear_bit_not_in:
  assumes "masks n S t" "64 * i \<le> k" "k < 64 * i + 64" "k < n" "\<not> bit (word_at t (avail_ptr t i)) (k - 64 * i)"
  shows "\<not> S k"
proof -
  have "i < (n + 63) div 64" "k - 64 * i < 64" "64 * i + (k - 64 * i) = k"
    using assms(2-4) by linarith+
  then show ?thesis
    using masksD(1) [OF assms(1), of i "k - 64 * i"] assms(4,5) by simp
qed

lemma shifted_bit:
  assumes "idx \<le> k"
  shows "bit (drop_bit (idx mod 64) w) (k - idx) = bit (w :: u64) (k - 64 * (idx div 64))"
proof -
  have "idx mod 64 + (k - idx) = k - 64 * (idx div 64)"
    using assms by (simp flip: minus_mult_div_eq_mod)
  then show ?thesis
    by (simp add: bit_simps)
qed

lemma first_in_word:
  assumes "masks n S t" "idx < n" "drop_bit (idx mod 64) (word_at t (avail_ptr t (idx div 64))) \<noteq> 0"
  shows "next_in n S idx (Some (idx + trailing_zeros (drop_bit (idx mod 64) (word_at t (avail_ptr t (idx div 64))))))"
proof -
  let ?i = "idx div 64" and ?w = "word_at t (avail_ptr t (idx div 64))"
  let ?k = "trailing_zeros (drop_bit (idx mod 64) ?w)"
  note z = trailing_zeros [OF assms(3)]
  have b: "bit ?w (idx mod 64 + ?k)"
    using z(2) by (simp add: bit_simps)
  have lt: "idx mod 64 + ?k < 64"
    using bit_imp_le_length [OF b] by simp
  have "64 * ?i + (idx mod 64 + ?k) = idx + ?k" "?i < (n + 63) div 64"
    using assms(2) by simp_all
  then have j: "idx + ?k < n" "S (idx + ?k)"
    using masksD(1) [OF assms(1) _ lt] b by auto
  moreover have "\<not> S k" if "idx \<le> k" "k < idx + ?k" for k
  proof (rule clear_bit_not_in [OF assms(1), of ?i])
    show "\<not> bit ?w (k - 64 * ?i)"
      using z(3) [of "k - idx"] that by (simp flip: shifted_bit [OF that(1)])
    have "64 * ?i + idx mod 64 = idx"
      by simp
    with that lt j(1) show "64 * ?i \<le> k" "k < 64 * ?i + 64" "k < n"
      by linarith+
  qed
  ultimately show ?thesis
    by (simp add: next_in_def)
qed

lemma none_in_word:
  assumes "masks n S t" "drop_bit (idx mod 64) (word_at t (avail_ptr t (idx div 64))) = 0"
    and "idx \<le> k" "k < 64 * (idx div 64) + 64" "k < n"
  shows "\<not> S k"
proof (rule clear_bit_not_in [OF assms(1), of "idx div 64"])
  show "\<not> bit (word_at t (avail_ptr t (idx div 64))) (k - 64 * (idx div 64))"
    using assms(2) by (simp flip: shifted_bit [OF assms(3)])
qed (use assms(3-5) in linarith)+

text \<open>The words after the first one that \<open>summary\<close> leaves.\<close>

lemma summary_bit:
  assumes "masks n S t" "i < 64"
  shows "bit (talc_summary t AND push_bit m (- 1)) i \<longleftrightarrow> m \<le> i \<and> i < (n + 63) div 64 \<and> word_at t (avail_ptr t i) \<noteq> 0"
  using masksD(2) [OF assms] assms(2) by (auto simp: bit_simps)

lemma none_in_summary:
  assumes "masks n S t" "(n + 63) div 64 \<le> 64" "64 * m \<le> k" "k < n"
    and "\<not> bit (talc_summary t AND push_bit m (- 1)) (k div 64)"
  shows "\<not> S k"
proof (rule clear_bit_not_in [OF assms(1), of "k div 64"])
  have "k div 64 < (n + 63) div 64" "m \<le> k div 64"
    using assms(3,4) by linarith+
  then have "word_at t (avail_ptr t (k div 64)) = 0"
    using assms(5) summary_bit [OF assms(1), of "k div 64" m] assms(2) by auto
  then show "\<not> bit (word_at t (avail_ptr t (k div 64))) (k - 64 * (k div 64))"
    by simp
qed (use assms(4) in simp_all)

lemma first_in_summary:
  assumes "masks n S t" "(n + 63) div 64 \<le> 64" "s = talc_summary t AND push_bit m (- 1)" "s \<noteq> 0"
  shows "next_in n S (64 * m) (Some (64 * trailing_zeros s + trailing_zeros (word_at t (avail_ptr t (trailing_zeros s)))))"
proof -
  let ?w = "trailing_zeros s"
  note z = trailing_zeros [OF assms(4)]
  have w: "m \<le> ?w" "?w < (n + 63) div 64" "word_at t (avail_ptr t ?w) \<noteq> 0"
    using summary_bit [OF assms(1) z(1), of m] z(2) unfolding assms(3) by auto
  let ?j = "trailing_zeros (word_at t (avail_ptr t ?w))"
  note y = trailing_zeros [OF w(3)]
  have j: "64 * ?w + ?j < n" "S (64 * ?w + ?j)"
    using masksD(1) [OF assms(1) w(2) y(1)] y(2) by auto
  have "\<not> S k" if "64 * m \<le> k" "k < 64 * ?w + ?j" for k
  proof (cases "k < 64 * ?w")
    case True
    then have "\<not> bit s (k div 64)"
      by (intro z(3)) linarith
    then show ?thesis
      using none_in_summary [OF assms(1,2) that(1)] that(2) j(1) assms(3) by simp
  next
    case False
    then show ?thesis
      using clear_bit_not_in [OF assms(1), of ?w k] y(1) y(3) [of "k - 64 * ?w"] that(2) j(1) by linarith
  qed
  then show ?thesis
    using j w(1) by (simp add: next_in_def)
qed

lemma next_avail:
  assumes "masks (bin_count g) S t" "availability_words g \<le> 64"
  shows "next_in (bin_count g) S idx (next_avail_bin_idx g idx t)"
proof (cases "idx < bin_count g")
  case False
  then show ?thesis
    by (auto simp: next_in_def next_avail_bin_idx_def)
next
  case idx: True
  let ?n = "bin_count g" and ?i = "idx div 64"
  let ?sh = "drop_bit (idx mod 64) (word_at t (avail_ptr t ?i))" and ?s = "talc_summary t AND push_bit (?i + 1) (- 1)"
  have W: "availability_words g = (?n + 63) div 64" "(?n + 63) div 64 \<le> 64"
    using assms(2) by (simp_all add: availability_words_def)
  have here: "\<not> S k" if "?sh = 0" "idx \<le> k" "k < 64 * (?i + 1)" "k < ?n" for k
    using none_in_word [OF assms(1) that(1,2)] that(3,4) by simp
  consider "?sh \<noteq> 0" | "?sh = 0" "availability_words g \<le> ?i + 1" | "?sh = 0" "\<not> availability_words g \<le> ?i + 1" "?s = 0"
    | "?sh = 0" "\<not> availability_words g \<le> ?i + 1" "?s \<noteq> 0"
    by blast
  then show ?thesis
  proof cases
    case 1
    then show ?thesis
      using idx first_in_word [OF assms(1) idx 1] by (simp add: next_avail_bin_idx_def Let_def)
  next
    case 2
    have "k < 64 * (?i + 1)" if "k < ?n" for k
    proof -
      have "?n + 63 < 64 * ((?n + 63) div 64 + 1)"
        by simp
      with 2(2) that show ?thesis
        unfolding W(1) by simp
    qed
    then show ?thesis
      using idx 2 here by (simp add: next_in_def next_avail_bin_idx_def Let_def)
  next
    case 3
    have "\<not> S k" if "idx \<le> k" "k < ?n" for k
      using here [OF 3(1) that(1)] none_in_summary [OF assms(1) W(2), of "?i + 1" k] that 3(3) by (cases "k < 64 * (?i + 1)") auto
    then show ?thesis
      using idx 3 by (simp add: next_in_def next_avail_bin_idx_def Let_def)
  next
    case 4
    let ?j = "64 * trailing_zeros ?s + trailing_zeros (word_at t (avail_ptr t (trailing_zeros ?s)))"
    have f: "64 * (?i + 1) \<le> ?j" "?j < ?n" "S ?j" "\<And>k. 64 * (?i + 1) \<le> k \<Longrightarrow> k < ?j \<Longrightarrow> \<not> S k"
      using first_in_summary [OF assms(1) W(2) refl 4(3)] by (simp_all add: next_in_def)
    have "\<not> S k" if "idx \<le> k" "k < ?j" for k
      using here [OF 4(1) that(1)] f(2) f(4) [of k] that by (cases "k < 64 * (?i + 1)") auto
    then have "next_in ?n S idx (Some ?j)"
      using f(1-3) by (simp add: next_in_def)
    then show ?thesis
      using idx 4 by (simp add: next_avail_bin_idx_def Let_def mult.commute)
  qed
qed

section \<open>All lists of a heap\<close>

text \<open>
  \<open>low\<close> is the end of the metadata, \<open>F\<close> a set of addresses that holds every free head, and \<open>L\<close> the heads in each bin.
\<close>

definition free_lists :: "talc_geometry \<Rightarrow> nat \<Rightarrow> nat set \<Rightarrow> (nat \<Rightarrow> nat list) \<Rightarrow> talc \<Rightarrow> bool" where
  "free_lists g low F L t \<longleftrightarrow>
     talc_avails t + 8 * availability_words g \<le> talc_bins t \<and> talc_bins t + 16 * bin_count g \<le> low \<and>
     (\<forall>i < bin_count g. chain t (bin_ptr t i) (L i) \<and> distinct (L i) \<and> set (L i) \<subseteq> F) \<and>
     (\<forall>i < bin_count g. \<forall>j < bin_count g. i \<noteq> j \<longrightarrow> set (L i) \<inter> set (L j) = {}) \<and>
     masks (bin_count g) (\<lambda>i. L i \<noteq> []) t \<and> spread F \<and> (\<forall>x\<in>F. low \<le> x)"

lemma free_listsD:
  assumes "free_lists g low F L t"
  shows "i < bin_count g \<Longrightarrow> chain t (bin_ptr t i) (L i)" "i < bin_count g \<Longrightarrow> distinct (L i)"
    "i < bin_count g \<Longrightarrow> x \<in> set (L i) \<Longrightarrow> x \<in> F"
    "i < bin_count g \<Longrightarrow> j < bin_count g \<Longrightarrow> i \<noteq> j \<Longrightarrow> x \<in> set (L i) \<Longrightarrow> x \<notin> set (L j)"
    "masks (bin_count g) (\<lambda>i. L i \<noteq> []) t" "spread F" "x \<in> F \<Longrightarrow> low \<le> x"
  using assms unfolding free_lists_def by blast+

lemma bin_ptr_place:
  assumes "free_lists g low F L t" "i < bin_count g"
  shows "bin_ptr t i + 16 \<le> low" "j < availability_words g \<Longrightarrow> avail_ptr t j + 8 \<le> bin_ptr t i"
    "j < bin_count g \<Longrightarrow> i \<noteq> j \<Longrightarrow> bin_ptr t i + 16 \<le> bin_ptr t j \<or> bin_ptr t j + 16 \<le> bin_ptr t i"
  using assms by (auto simp: free_lists_def bin_ptr_def avail_ptr_def)

lemma link_at_bin:
  assumes "free_lists g low F L t" "i < bin_count g"
  shows "link_at t (bin_ptr t i) = (case L i of [] \<Rightarrow> None | x # _ \<Rightarrow> Some x)"
  using free_listsD(1,3,6) [OF assms(1)] assms(2) by (intro link_at_chain) (auto simp: spread_def)

lemma toggle_chain:
  assumes "avail_ptr t (i div 64) + 8 \<le> l" "\<And>x. x \<in> set xs \<Longrightarrow> l + 16 \<le> x"
  shows "chain (toggle_avail i t) l xs = chain t l xs"
proof (rule chain_cong)
  show "word_at (toggle_avail i t) q = word_at t q \<and> word_at (toggle_avail i t) (q + 8) = word_at t (q + 8)"
    if "q \<in> set (l # xs)" for q
    using assms(1) assms(2) [of q] that by (auto simp: word_toggle)
  show "word_at (toggle_avail i t) (q + 16) = word_at t (q + 16)" if "q \<in> set xs" for q
    using assms(1) assms(2) [OF that] by (simp add: word_toggle)
qed

lemma list_place:
  assumes "free_lists g low F L t" "i < bin_count g" "j < bin_count g"
  shows "avail_ptr t (i div 64) + 8 \<le> bin_ptr t j" "x \<in> set (L j) \<Longrightarrow> bin_ptr t j + 16 \<le> x"
proof -
  have "i div 64 < availability_words g"
    using assms(2) by (simp add: availability_words_def)
  then show "avail_ptr t (i div 64) + 8 \<le> bin_ptr t j"
    using bin_ptr_place(2) [OF assms(1,3)] by simp
  show "bin_ptr t j + 16 \<le> x" if "x \<in> set (L j)"
    using bin_ptr_place(1) [OF assms(1,3)] free_listsD(7) [OF assms(1) free_listsD(3) [OF assms(1,3) that]] by linarith
qed

text \<open>The memory around the lists: everything from \<open>low\<close> on outside the words of list nodes.\<close>

definition kept :: "nat \<Rightarrow> nat set \<Rightarrow> talc \<Rightarrow> talc \<Rightarrow> bool" where
  "kept low S t t' \<longleftrightarrow> (\<forall>q. low \<le> q \<and> q \<notin> S \<longrightarrow> word_at t' q = word_at t q) \<and>
     talc_avails t' = talc_avails t \<and> talc_bins t' = talc_bins t"

definition node_area :: "nat set \<Rightarrow> nat set" where
  "node_area F = (\<Union>x\<in>F. {x, x + 8, x + 16})"

lemma keptD: "kept low S t t' \<Longrightarrow> low \<le> q \<Longrightarrow> q \<notin> S \<Longrightarrow> word_at t' q = word_at t q"
  by (simp add: kept_def)

lemma kept_trans: "kept low S t t' \<Longrightarrow> kept low S' t' t'' \<Longrightarrow> S \<subseteq> R \<Longrightarrow> S' \<subseteq> R \<Longrightarrow> kept low R t t''"
  unfolding kept_def by (metis subsetD)

lemma mask_word_below:
  assumes "free_lists g low F L t" "i < (bin_count g + 63) div 64" "bin_ptr t j \<le> q" "j < bin_count g"
  shows "avail_ptr t i \<noteq> q"
  using bin_ptr_place(2) [OF assms(1,4), of i] assms(2,3) by (simp add: availability_words_def)

text \<open>Marking a bin before the first insertion keeps the lists and gives the masks of the lists after it.\<close>

definition marked :: "talc_geometry \<Rightarrow> (nat \<Rightarrow> nat list) \<Rightarrow> nat \<Rightarrow> talc \<Rightarrow> talc" where
  "marked g L i t = (if L i = [] then toggle_avail i t else t)"

lemma marked_fields [simp]:
  "talc_bins (marked g L i t) = talc_bins t" "talc_avails (marked g L i t) = talc_avails t"
  "bin_ptr (marked g L i t) j = bin_ptr t j" "avail_ptr (marked g L i t) j = avail_ptr t j"
  by (simp_all add: marked_def bin_ptr_def avail_ptr_def)

lemma marked_lists:
  assumes g: "geometry_valid g" and inv: "free_lists g low F L t" and i: "i < bin_count g"
  shows "j < bin_count g \<Longrightarrow> chain (marked g L i t) (bin_ptr t j) (L j)"
    and "masks (bin_count g) (\<lambda>j. (L(i := h # L i)) j \<noteq> []) (marked g L i t)"
    and "low \<le> q \<Longrightarrow> word_at (marked g L i t) q = word_at t q"
proof -
  show "chain (marked g L i t) (bin_ptr t j) (L j)" if "j < bin_count g"
    using toggle_chain [OF list_place(1) [OF inv i that] list_place(2) [OF inv i that]] free_listsD(1) [OF inv that]
    by (simp add: marked_def)
  have "(bin_count g + 63) div 64 \<le> 64"
    using g by (simp add: geometry_valid_def availability_words_def)
  then have "masks (bin_count g) ((\<lambda>j. L j \<noteq> [])(i := \<not> L i \<noteq> [])) (toggle_avail i t)"
    using toggle_masks [OF free_listsD(5) [OF inv] i] by simp
  moreover have "(\<lambda>j. (L(i := h # L i)) j \<noteq> []) = (\<lambda>j. L j \<noteq> [])(i := True)"
    by auto
  moreover have "(\<lambda>j. L j \<noteq> [])(i := True) = (\<lambda>j. L j \<noteq> [])" if "L i \<noteq> []"
    using that by (simp add: fun_eq_iff)
  ultimately show "masks (bin_count g) (\<lambda>j. (L(i := h # L i)) j \<noteq> []) (marked g L i t)"
    using free_listsD(5) [OF inv] by (cases "L i = []") (simp_all add: marked_def)
  have "avail_ptr t (i div 64) + 8 \<le> bin_ptr t i" "bin_ptr t i + 16 \<le> low"
    using i bin_ptr_place(1,2) [OF inv i] by (simp_all add: availability_words_def)
  then show "word_at (marked g L i t) q = word_at t q" if "low \<le> q"
    using that by (simp add: marked_def word_toggle)
qed

lemma insert_free_eq:
  assumes "geometry_valid g" "free_lists g low F L t" "32 \<le> sz" "sz < USIZE"
  shows "insert_free g h sz t = put_word (h + sz - 8) (of_nat sz) (put_word (h + 24) (of_nat sz)
    (node_insert_by h (bin_ptr t (bin g sz)) (marked g L (bin g sz) t)))"
proof -
  have "link_at t (bin_ptr t (bin g sz)) = None \<longleftrightarrow> L (bin g sz) = []"
    unfolding link_at_bin [OF assms(2) bin_less [OF assms(1)]] by (simp split: list.split)
  then have "(if link_at t (bin_ptr t (bin g sz)) = None then toggle_avail (bin g sz) t else t) = marked g L (bin g sz) t"
    by (simp add: marked_def)
  then show ?thesis
    using assms(3,4) by (simp add: insert_free_def Let_def head_init_def head_tail_def head_acme_def size_low_def unat_of_nat)
qed

lemma insert_word:
  assumes g: "geometry_valid g" and inv: "free_lists g low F L t" and sz: "32 \<le> sz" "sz < USIZE"
    and q: "q \<notin> {bin_ptr t (bin g sz), bin_ptr t (bin g sz) + 8, h, h + 8, h + 16, h + 24, h + sz - 8}"
      "\<And>x. x \<in> set (L (bin g sz)) \<Longrightarrow> q \<noteq> x + 16"
  shows "word_at (insert_free g h sz t) q = word_at (marked g L (bin g sz) t) q"
proof -
  note i = bin_less [OF g, of sz]
  have "spread (set (L (bin g sz)))"
    using spread_subset [OF free_listsD(6) [OF inv]] free_listsD(3) [OF inv i] by blast
  then have "word_at (node_insert_by h (bin_ptr t (bin g sz)) (marked g L (bin g sz) t)) q = word_at (marked g L (bin g sz) t) q"
    using marked_lists(1) [OF g inv i i] q by (intro insert_frame) auto
  then show ?thesis
    using q(1) by (simp add: insert_free_eq [OF g inv sz])
qed

lemma insert_free_chain:
  assumes g: "geometry_valid g" and inv: "free_lists g low F L t" and sp: "spread (insert h F)" and h: "h \<notin> F" "low \<le> h"
    and sz: "32 \<le> sz" "sz < USIZE" and clear: "\<And>x. x \<in> F \<Longrightarrow> h + sz \<le> x \<or> x + 24 \<le> h" and j: "j < bin_count g"
  shows "chain (insert_free g h sz t) (bin_ptr t j) ((L(bin g sz := h # L (bin g sz))) j)"
proof -
  let ?i = "bin g sz" and ?t = "insert_free g h sz t" and ?t1 = "marked g L (bin g sz) t"
  let ?l = "bin_ptr t ?i"
  note i = bin_less [OF g, of sz]
  have Li: "x \<in> F" "low \<le> x" "h + sz \<le> x \<or> x + 24 \<le> h" if "x \<in> set (L j)" "j < bin_count g" for x j
    using free_listsD(3,7) [OF inv] clear that by blast+
  have l: "?l + 16 \<le> low"
    by (rule bin_ptr_place(1) [OF inv i])
  show ?thesis
  proof (cases "j = ?i")
    case True
    have "spread (set (h # L ?i))"
      using Li(1) [OF _ i] by (intro spread_subset [OF sp]) auto
    moreover have "h \<notin> set (L ?i)"
      using h(1) Li(1) [OF _ i] by blast
    ultimately have "chain (node_insert_by h ?l ?t1) ?l (h # L ?i)"
      using marked_lists(1) [OF g inv i i] h(2) l Li(2) [OF _ i] free_listsD(2) [OF inv i]
      by (intro insert_chain) (auto intro: order_trans [OF l])
    moreover have "chain (put_word p w s) ?l (h # L ?i) = chain s ?l (h # L ?i)" if "p = h + 24 \<or> p = h + sz - 8" for p w s
    proof (rule chain_put_word)
      show "p \<notin> {?l, ?l + 8}"
        using that l h(2) sz(1) by auto
      show "p \<notin> {x, x + 8, x + 16}" if "x \<in> set (h # L ?i)" for x
        using \<open>p = h + 24 \<or> p = h + sz - 8\<close> that sz(1) Li(3) [OF _ i, of x] by auto
    qed
    ultimately show ?thesis
      unfolding True fun_upd_same insert_free_eq [OF g inv sz] by (simp del: chain_Cons)
  next
    case False
    have other: "apart q x" if "q \<in> set (L j)" "x \<in> set (L ?i)" for q x
      using that free_listsD(4) [OF inv j i False] Li(1) j i spreadD(2) [OF free_listsD(6) [OF inv], of q x] by blast
    have up: "x \<in> set (L ?i) \<Longrightarrow> low \<le> x" for x
      using Li(2) i by blast
    have "chain ?t (bin_ptr t j) (L j) = chain ?t1 (bin_ptr t j) (L j)"
    proof (rule chain_cong)
      show "word_at ?t q = word_at ?t1 q \<and> word_at ?t (q + 8) = word_at ?t1 (q + 8)" if "q \<in> set (bin_ptr t j # L j)" for q
      proof (cases "q = bin_ptr t j")
        case True
        then show ?thesis
          using bin_ptr_place(1) [OF inv j] bin_ptr_place(3) [OF inv j i False] h(2) sz(1) up
          by (intro conjI insert_word [OF g inv sz]) fastforce+
      next
        case False
        then have q: "q \<in> set (L j)" "low \<le> q" "h + sz \<le> q \<or> q + 24 \<le> h"
          using that Li j by auto
        then show ?thesis
          using l sz(1) apart_ne [OF other [OF q(1)]] by (intro conjI insert_word [OF g inv sz]) fastforce+
      qed
      show "word_at ?t (q + 16) = word_at ?t1 (q + 16)" if "q \<in> set (L j)" for q
        using l sz(1) Li(2,3) [OF that j] apart_ne [OF other [OF that]] free_listsD(4) [OF inv j i False that]
        by (intro insert_word [OF g inv sz]) fastforce+
    qed
    then show ?thesis
      using marked_lists(1) [OF g inv i j] False by simp
  qed
qed

lemma insert_free_masks:
  assumes g: "geometry_valid g" and inv: "free_lists g low F L t" and h: "low \<le> h" and sz: "32 \<le> sz" "sz < USIZE"
  shows "masks (bin_count g) (\<lambda>j. (L(bin g sz := h # L (bin g sz))) j \<noteq> []) (insert_free g h sz t)"
proof -
  let ?i = "bin g sz" and ?t = "insert_free g h sz t" and ?t1 = "marked g L (bin g sz) t"
  note i = bin_less [OF g, of sz]
  have "word_at ?t (avail_ptr t j) = word_at ?t1 (avail_ptr t j)" if j: "j < (bin_count g + 63) div 64" for j
  proof -
    have "avail_ptr t j \<noteq> q" if "bin_ptr t ?i \<le> q" for q
      using mask_word_below [OF inv j that i] .
    moreover have "bin_ptr t ?i \<le> h" "x \<in> set (L ?i) \<Longrightarrow> bin_ptr t ?i \<le> x + 16" for x
      using bin_ptr_place(1) [OF inv i] h free_listsD(7) [OF inv free_listsD(3) [OF inv i, of x]] by auto
    ultimately show ?thesis
      using sz(1) by (intro insert_word [OF g inv sz]) auto
  qed
  then have "masks (bin_count g) (\<lambda>j. (L(?i := h # L ?i)) j \<noteq> []) ?t = masks (bin_count g) (\<lambda>j. (L(?i := h # L ?i)) j \<noteq> []) ?t1"
    by (intro masks_cong) (simp_all add: insert_free_eq [OF g inv sz] node_insert_by_def)
  with marked_lists(2) [OF g inv i] show ?thesis
    by simp
qed

lemma insert_free_lists:
  assumes g: "geometry_valid g" and inv: "free_lists g low F L t" and sp: "spread (insert h F)" and h: "h \<notin> F" "low \<le> h"
    and sz: "32 \<le> sz" "sz < USIZE" and clear: "\<And>x. x \<in> F \<Longrightarrow> h + sz \<le> x \<or> x + 24 \<le> h"
  shows "free_lists g low (insert h F) (L(bin g sz := h # L (bin g sz))) (insert_free g h sz t)"
    and "word_at (insert_free g h sz t) (h + 24) = of_nat sz" "word_at (insert_free g h sz t) (h + sz - 8) = of_nat sz"
    and "kept low (node_area (insert h F) \<union> {h + 24, h + sz - 8}) t (insert_free g h sz t)"
proof -
  let ?i = "bin g sz" and ?L = "L(bin g sz := h # L (bin g sz))" and ?t = "insert_free g h sz t"
  note i = bin_less [OF g, of sz]
  have f [simp]: "talc_bins ?t = talc_bins t" "talc_avails ?t = talc_avails t" "bin_ptr ?t j = bin_ptr t j" for j
    by (simp_all add: insert_free_eq [OF g inv sz] node_insert_by_def bin_ptr_def)
  have Li: "x \<in> F" if "x \<in> set (L j)" "j < bin_count g" for x j
    using free_listsD(3) [OF inv] that by blast
  show "free_lists g low (insert h F) ?L ?t"
    unfolding free_lists_def f
  proof (intro conjI allI impI)
    show "chain ?t (bin_ptr t j) (?L j)" if "j < bin_count g" for j
      by (rule insert_free_chain [OF assms that])
    show "distinct (?L j)" "set (?L j) \<subseteq> insert h F" if "j < bin_count g" for j
      using free_listsD(2,3) [OF inv that] Li [OF _ i] h(1) by (cases "j = ?i"; auto)+
    show "set (?L j) \<inter> set (?L k) = {}" if "j < bin_count g" "k < bin_count g" "j \<noteq> k" for j k
    proof -
      have "set (L j) \<inter> set (L k) = {}" "h \<notin> set (L j)" "h \<notin> set (L k)"
        using free_listsD(4) [OF inv that] Li [OF _ that(1)] Li [OF _ that(2)] h(1) by blast+
      then show ?thesis
        using that(3) by (cases "j = ?i"; cases "k = ?i") simp_all
    qed
    show "masks (bin_count g) (\<lambda>j. ?L j \<noteq> []) ?t"
      by (rule insert_free_masks [OF g inv h(2) sz])
    show "talc_avails t + 8 * availability_words g \<le> talc_bins t" "talc_bins t + 16 * bin_count g \<le> low"
      using inv by (simp_all add: free_lists_def)
    show "\<forall>x\<in>insert h F. low \<le> x"
      using h(2) free_listsD(7) [OF inv] by simp
  qed (rule sp)
  show "word_at ?t (h + 24) = of_nat sz" "word_at ?t (h + sz - 8) = of_nat sz"
    by (simp_all add: insert_free_eq [OF g inv sz])
  show "kept low (node_area (insert h F) \<union> {h + 24, h + sz - 8}) t ?t"
    unfolding kept_def f
  proof (intro conjI allI impI refl)
    fix q assume q: "low \<le> q \<and> q \<notin> node_area (insert h F) \<union> {h + 24, h + sz - 8}"
    then have "word_at ?t q = word_at (marked g L ?i t) q"
      using bin_ptr_place(1) [OF inv i] Li [OF _ i] by (intro insert_word [OF g inv sz]) (auto simp: node_area_def)
    with q show "word_at ?t q = word_at t q"
      using marked_lists(3) [OF g inv i] by simp
  qed
qed

lemma node_remove_lists:
  assumes inv: "free_lists g low F L t" and i: "i < bin_count g" and L: "L i = xs @ h # ys" and j: "j < bin_count g"
  shows "chain (node_remove h t) (bin_ptr t j) ((L(i := xs @ ys)) j)"
    and "k < availability_words g \<Longrightarrow> word_at (node_remove h t) (avail_ptr t k) = word_at t (avail_ptr t k)"
    and "low \<le> q \<Longrightarrow> q \<notin> node_area F \<Longrightarrow> word_at (node_remove h t) q = word_at t q"
proof -
  let ?l = "bin_ptr t i" and ?t = "node_remove h t"
  have nodes: "x \<in> F" "low \<le> x" if "x \<in> set (xs @ h # ys)" for x
    using free_listsD(3,7) [OF inv] i L that by metis+
  have l: "?l + 16 \<le> low"
    by (rule bin_ptr_place(1) [OF inv i])
  have sp: "spread (set (xs @ h # ys))"
    using nodes(1) by (intro spread_subset [OF free_listsD(6) [OF inv]]) blast
  have dist: "distinct (xs @ h # ys)"
    using free_listsD(2) [OF inv i] L by simp
  note rem = remove_chain [OF free_listsD(1) [OF inv i, unfolded L] sp dist]
  have up: "?l + 16 \<le> x" if "x \<in> set (xs @ h # ys)" for x
    using nodes(2) [OF that] l by linarith
  have frame: "word_at ?t q = word_at t q"
    if "q \<notin> {?l, ?l + 8}" "\<And>x. x \<in> set (xs @ ys) \<Longrightarrow> q \<notin> {x, x + 8, x + 16}" for q
    using rem(2) [OF up that] by blast
  show "chain ?t (bin_ptr t j) ((L(i := xs @ ys)) j)"
  proof (cases "j = i")
    case True
    then show ?thesis
      using rem(1) [OF up] by simp
  next
    case False
    have "chain ?t (bin_ptr t j) (L j) = chain t (bin_ptr t j) (L j)"
    proof (rule chain_cong)
      have other: "apart q x" if "q \<in> set (L j)" "x \<in> set (xs @ ys)" for q x
        using that free_listsD(3) [OF inv j] free_listsD(4) [OF inv j i False] nodes(1) [of x] L
          spreadD(2) [OF free_listsD(6) [OF inv], of q x] by auto
      show "word_at ?t q = word_at t q \<and> word_at ?t (q + 8) = word_at t (q + 8)" if "q \<in> set (bin_ptr t j # L j)" for q
      proof (cases "q = bin_ptr t j")
        case True
        then show ?thesis
          using bin_ptr_place(1) [OF inv j] bin_ptr_place(3) [OF inv j i False] nodes(2) by (intro conjI frame) fastforce+
      next
        case False
        then have q: "q \<in> set (L j)" "low \<le> q"
          using that free_listsD(3,7) [OF inv] j by auto
        then show ?thesis
          using l apart_ne [OF other [OF q(1)]] by (intro conjI frame) fastforce+
      qed
      show "word_at ?t (q + 16) = word_at t (q + 16)" if "q \<in> set (L j)" for q
        using l free_listsD(7) [OF inv free_listsD(3) [OF inv j that]] apart_ne [OF other [OF that]] by (intro frame) fastforce+
    qed
    then show ?thesis
      using free_listsD(1) [OF inv j] False by simp
  qed
  show "word_at ?t (avail_ptr t k) = word_at t (avail_ptr t k)" if "k < availability_words g"
    using bin_ptr_place(2) [OF inv i that] l nodes(2) by (intro frame) fastforce+
  show "word_at ?t q = word_at t q" if "low \<le> q" "q \<notin> node_area F"
    using that l nodes(1) by (intro frame) (auto simp: node_area_def)
qed

lemma remove_free_lists:
  assumes g: "geometry_valid g" and inv: "free_lists g low F L t" and i: "i < bin_count g" and h: "h \<in> set (L i)"
  shows "free_lists g low F (L(i := remove1 h (L i))) (remove_free g h i t)"
    and "kept low (node_area F) t (remove_free g h i t)"
proof -
  obtain xs ys where L: "L i = xs @ h # ys"
    using split_list [OF h] by blast
  have dist: "distinct (xs @ h # ys)"
    using free_listsD(2) [OF inv i] L by simp
  then have rem: "remove1 h (L i) = xs @ ys"
    by (simp add: L remove1_append)
  let ?t1 = "node_remove h t" and ?L = "L(i := xs @ ys)"
  note n = node_remove_lists [OF inv i L]
  have f [simp]: "bin_ptr ?t1 j = bin_ptr t j" "avail_ptr ?t1 j = avail_ptr t j" for j
    by (simp_all add: bin_ptr_def avail_ptr_def)
  have W: "(bin_count g + 63) div 64 \<le> 64" "availability_words g = (bin_count g + 63) div 64"
    using g by (simp_all add: geometry_valid_def availability_words_def)
  have m1: "masks (bin_count g) (\<lambda>j. L j \<noteq> []) ?t1"
    using free_listsD(5) [OF inv] masks_cong [of "bin_count g" ?t1 t] n(2) [OF i] W(2) by simp
  have sub: "set (?L j) \<subseteq> F" "set (?L j) \<subseteq> set (L j)" "distinct (?L j)" if "j < bin_count g" for j
    using free_listsD(2,3) [OF inv that] dist L by (cases "j = i"; auto)+
  let ?t = "remove_free g h i t"
  have "x < USIZE" if "x \<in> set (xs @ ys)" for x
    using that sub(1) [OF i] spreadD(1) [OF free_listsD(6) [OF inv]] by auto
  then have "link_at ?t1 (bin_ptr t i) = None \<longleftrightarrow> xs @ ys = []"
    using link_at_chain [OF n(1) [OF i], unfolded fun_upd_same] by (cases "xs @ ys") simp_all
  then have t: "?t = (if xs @ ys = [] then toggle_avail i ?t1 else ?t1)"
    by (simp add: remove_free_def Let_def)
  have f2 [simp]: "talc_bins ?t = talc_bins t" "talc_avails ?t = talc_avails t" "bin_ptr ?t j = bin_ptr t j" for j
    by (simp_all add: t bin_ptr_def)
  have ch: "chain ?t (bin_ptr t j) (?L j)" if "j < bin_count g" for j
  proof -
    have "chain (toggle_avail i ?t1) (bin_ptr t j) (?L j) = chain ?t1 (bin_ptr t j) (?L j)"
      by (rule toggle_chain) (use list_place [OF inv i that] sub(2) [OF that] in auto)
    moreover have "?t = toggle_avail i ?t1 \<or> ?t = ?t1"
      by (simp add: t)
    ultimately show ?thesis
      using n(1) [OF that] by metis
  qed
  have m: "masks (bin_count g) (\<lambda>j. ?L j \<noteq> []) ?t"
  proof (cases "xs @ ys = []")
    case True
    have "(\<lambda>j. ?L j \<noteq> []) = (\<lambda>j. L j \<noteq> [])(i := \<not> L i \<noteq> [])"
      using True L by auto
    then show ?thesis
      using toggle_masks [OF m1 i W(1)] True by (simp add: t)
  next
    case False
    have "(\<lambda>j. ?L j \<noteq> []) = (\<lambda>j. L j \<noteq> [])"
      using False L by (auto simp: fun_eq_iff)
    moreover have "?t = ?t1"
      using False by (auto simp: t)
    ultimately show ?thesis
      using m1 by simp
  qed
  show "free_lists g low F (L(i := remove1 h (L i))) ?t"
    unfolding rem free_lists_def f2
  proof (intro conjI allI impI)
    show "set (?L j) \<inter> set (?L k) = {}" if "j < bin_count g" "k < bin_count g" "j \<noteq> k" for j k
      using free_listsD(4) [OF inv that] sub(2) that by blast
  qed (use inv ch m sub in \<open>auto simp: free_lists_def\<close>)
  show "kept low (node_area F) t ?t"
    using n(3) [OF i] list_place(1) [OF inv i i] bin_ptr_place(1) [OF inv i] by (auto simp: kept_def t word_toggle)
qed

end
