(* ===== verification/Talc_Search.thy ===== *)
theory Talc_Search
  imports Talc_Lists
begin

text \<open>
  The two walks of \<open>acquire_chunk\<close>, along a free list and along the bins, end in a consistent heap, and they find a
  chunk that fits whenever there is one.
\<close>

section \<open>The search for a chunk\<close>

primrec first_fit :: "(nat \<Rightarrow> 'a option) \<Rightarrow> nat list \<Rightarrow> 'a option" where
  "first_fit f [] = None"
| "first_fit f (x # xs) = (case f x of Some r \<Rightarrow> Some r | None \<Rightarrow> first_fit f xs)"

lemma first_fit_Some: "first_fit f xs = Some r \<Longrightarrow> \<exists>x\<in>set xs. f x = Some r"
  by (induction xs) (auto split: option.splits)

lemma first_fit_None: "first_fit f xs = None \<longleftrightarrow> (\<forall>x\<in>set xs. f x = None)"
  by (induction xs) (auto split: option.splits)

text \<open>The walk along a list that is a chain ends, with the first chunk that fits.\<close>

lemma find_fit_chain:
  assumes "chain t l xs" "\<And>x. x \<in> set xs \<Longrightarrow> x < USIZE"
  shows "find_fit hb sz al t (link_at t l) = Some (first_fit (fit hb sz al t) xs)"
  using assms
proof (induction xs arbitrary: l)
  case Nil
  then show ?case
    by (subst find_fit.simps) (simp add: link_at_def)
next
  case (Cons x xs)
  have "find_fit hb sz al t (link_at t x) = Some (first_fit (fit hb sz al t) xs)"
    using Cons by simp
  then show ?case
    using link_at_chain [OF Cons.prems] by (subst find_fit.simps) (simp split: option.split)
qed

text \<open>
  The walk along the bins ends as well. It takes a chunk that fits out of its list, and it fails only when no chunk in
  the bins from the start on fits.
\<close>

lemma acquire_loop_ends:
  assumes g: "geometry_valid g" and inv: "free_lists g low F L t" and "idx < bin_count g"
  shows "(\<exists>i x f. idx \<le> i \<and> i < bin_count g \<and> x \<in> set (L i) \<and> fit hb sz al t x = Some f \<and>
       acquire_loop g hb sz al t idx = Some (Some (f, remove_free g x i t))) \<or>
     (\<forall>i x. idx \<le> i \<and> i < bin_count g \<and> x \<in> set (L i) \<longrightarrow> fit hb sz al t x = None) \<and>
       acquire_loop g hb sz al t idx = Some None"
  using assms(3)
proof (induction "bin_count g - idx" arbitrary: idx rule: less_induct)
  case less
  have head: "fst (fst f) = x" if "fit hb sz al t x = Some f" for x f
    using that by (auto simp: fit_def Let_def split: if_splits)
  have find: "find_fit hb sz al t (link_at t (bin_ptr t idx)) = Some (first_fit (fit hb sz al t) (L idx))"
    using find_fit_chain [OF free_listsD(1) [OF inv less.prems]] free_listsD(3) [OF inv less.prems]
      spreadD(1) [OF free_listsD(6) [OF inv]] by blast
  show ?case
  proof (cases "first_fit (fit hb sz al t) (L idx)")
    case (Some f)
    then obtain x where x: "x \<in> set (L idx)" "fit hb sz al t x = Some f"
      using first_fit_Some by metis
    have "acquire_loop g hb sz al t idx = Some (Some (f, remove_free g x idx t))"
      unfolding acquire_loop.simps [of g hb sz al t idx] find Some by (simp add: head [OF x(2)])
    with x less.prems show ?thesis
      by (intro disjI1 exI [of _ idx] exI [of _ x] exI [of _ f]) simp
  next
    case None
    then have here: "x \<in> set (L idx) \<Longrightarrow> fit hb sz al t x = None" for x
      by (simp add: first_fit_None)
    have next_: "next_in (bin_count g) (\<lambda>i. L i \<noteq> []) (idx + 1) (next_avail_bin_idx g (idx + 1) t)"
      using next_avail [OF free_listsD(5) [OF inv]] g by (simp add: geometry_valid_def)
    show ?thesis
    proof (cases "next_avail_bin_idx g (idx + 1) t")
      case none: None
      then have "acquire_loop g hb sz al t idx = Some None"
        unfolding acquire_loop.simps [of g hb sz al t idx] find None by simp
      moreover have empty: "L i = []" if "idx < i" "i < bin_count g" for i
        using next_ none that by (simp add: next_in_def)
      moreover have "fit hb sz al t x = None" if "idx \<le> i" "i < bin_count g" "x \<in> set (L i)" for i x
        using here that empty [of i] by (cases "i = idx") auto
      ultimately show ?thesis
        by blast
    next
      case some: (Some j)
      then have j: "idx < j" "j < bin_count g" "\<And>i. idx < i \<Longrightarrow> i < j \<Longrightarrow> L i = []"
        using next_ by (auto simp: next_in_def)
      have eq: "acquire_loop g hb sz al t idx = acquire_loop g hb sz al t j"
        unfolding acquire_loop.simps [of g hb sz al t idx] find None some by simp
      have between: "fit hb sz al t x = None" if "idx \<le> i" "i < j" "x \<in> set (L i)" for i x
        using that here j(3) [of i] by (cases "i = idx") auto
      have "bin_count g - j < bin_count g - idx"
        using j by simp
      from less.hyps [OF this j(2)] show ?thesis
      proof (elim disjE exE conjE)
        fix i x f
        assume "j \<le> i" "i < bin_count g" "x \<in> set (L i)" "fit hb sz al t x = Some f"
          "acquire_loop g hb sz al t j = Some (Some (f, remove_free g x i t))"
        then show ?thesis
          unfolding eq using j(1) by (intro disjI1 exI [of _ i] exI [of _ x] exI [of _ f]) simp
      next
        assume later: "\<forall>i x. j \<le> i \<and> i < bin_count g \<and> x \<in> set (L i) \<longrightarrow> fit hb sz al t x = None"
          "acquire_loop g hb sz al t j = Some None"
        have "fit hb sz al t x = None" if "idx \<le> i" "i < bin_count g" "x \<in> set (L i)" for i x
          using later(1) [rule_format, of i x] between [of i x] that by (cases "i < j") auto
        then show ?thesis
          unfolding eq using later(2) by blast
      qed
    qed
  qed
qed

lemma acquire_chunk_ends:
  assumes g: "geometry_valid g" and inv: "free_lists g low F L t"
  shows "(\<exists>i x f. bin g (chunk_size sz) \<le> i \<and> i < bin_count g \<and> x \<in> set (L i) \<and> fit hb sz al t x = Some f \<and>
       acquire_chunk g hb sz al t = Some (Some (f, remove_free g x i t))) \<or>
     (\<forall>i x. bin g (chunk_size sz) \<le> i \<and> i < bin_count g \<and> x \<in> set (L i) \<longrightarrow> fit hb sz al t x = None) \<and>
       acquire_chunk g hb sz al t = Some None"
proof -
  let ?b = "bin g (chunk_size sz)"
  have nx: "next_in (bin_count g) (\<lambda>i. L i \<noteq> []) ?b (next_avail_bin_idx g ?b t)"
    using next_avail [OF free_listsD(5) [OF inv]] g by (simp add: geometry_valid_def)
  show ?thesis
  proof (cases "next_avail_bin_idx g ?b t")
    case None
    then have "L i = []" if "?b \<le> i" "i < bin_count g" for i
      using nx that by (simp add: next_in_def)
    then show ?thesis
      using None by (intro disjI2) (auto simp: acquire_chunk_def)
  next
    case (Some j)
    then have j: "?b \<le> j" "j < bin_count g" "\<And>i. ?b \<le> i \<Longrightarrow> i < j \<Longrightarrow> L i = []"
      using nx by (auto simp: next_in_def)
    have eq: "acquire_chunk g hb sz al t = acquire_loop g hb sz al t j"
      using Some by (simp add: acquire_chunk_def)
    from acquire_loop_ends [OF g inv j(2), of hb sz al] show ?thesis
    proof (elim disjE exE conjE)
      fix i x f
      assume "j \<le> i" "i < bin_count g" "x \<in> set (L i)" "fit hb sz al t x = Some f"
        "acquire_loop g hb sz al t j = Some (Some (f, remove_free g x i t))"
      then show ?thesis
        unfolding eq using j(1) by (intro disjI1 exI [of _ i] exI [of _ x] exI [of _ f]) simp
    next
      assume later: "\<forall>i x. j \<le> i \<and> i < bin_count g \<and> x \<in> set (L i) \<longrightarrow> fit hb sz al t x = None"
        "acquire_loop g hb sz al t j = Some None"
      have "fit hb sz al t x = None" if "?b \<le> i" "i < bin_count g" "x \<in> set (L i)" for i x
        using later(1) [rule_format, of i x] j(3) [of i] that by (cases "i < j") auto
      then show ?thesis
        unfolding eq using later(2) by blast
    qed
  qed
qed

end
