(* ===== verification/Heap.thy ===== *)
theory Heap
  imports Talc Header
begin

text \<open>
  The shared heap of \<open>src/talc.rs\<close> around its allocator: the mutation word that lets one participant at a time change
  the heap, poisoning, recovery after a death, and the layout that places the heap in a region. An allocator operation
  under the mutation word reads the heap first and writes it back in a second step, so that anything another
  participant did in between would be lost.
\<close>

section \<open>The mutation word\<close>

record talck =
  tk_mutation :: usize
  tk_talc :: talc

datatype mutation_error = Mutation_Busy u8 | Mutation_Poisoned | Mutation_Exhausted | Mutation_LayoutOverflow

datatype mutation_state = Is_Clean | Is_Owned u8 | Is_Poisoned

abbreviation MUTATION_CLEAN :: usize where "MUTATION_CLEAN \<equiv> 0"
abbreviation MUTATION_POISONED :: usize where "MUTATION_POISONED \<equiv> - 1"

record talc_handle =
  th_base :: nat
  th_owner :: u8
  th_geometry :: talc_geometry

definition mutation_owner :: "u8 \<Rightarrow> usize" where
  "mutation_owner slot = ucast slot + 1"

definition set_mutation :: "usize \<Rightarrow> talck \<Rightarrow> talck" where
  "set_mutation w s = s\<lparr>tk_mutation := w\<rparr>"

definition mutation_claim :: "u8 \<Rightarrow> (talck, (unit, mutation_error) result) prog" where
  "mutation_claim own = compare_exchange tk_mutation set_mutation MUTATION_CLEAN (mutation_owner own) (\<lambda>r. case r of
     Ok _ \<Rightarrow> Ret (Ok ())
   | Err w \<Rightarrow> if w = MUTATION_POISONED then Ret (Err Mutation_Poisoned) else Ret (Err (Mutation_Busy (ucast (w - 1)))))"

definition mutation_commit :: "(talck, 'a) prog \<Rightarrow> (talck, 'a) prog" where
  "mutation_commit k = store (set_mutation MUTATION_CLEAN) k"

text \<open>Dropping a mutation that was not committed.\<close>

definition mutation_drop :: "(talck, 'a) prog \<Rightarrow> (talck, 'a) prog" where
  "mutation_drop k = store (set_mutation MUTATION_POISONED) k"

definition begin_mutation :: "talc_handle \<Rightarrow> (talck, (unit, mutation_error) result) prog" where
  "begin_mutation h = mutation_claim (th_owner h)"

definition mutation_state_of :: "usize \<Rightarrow> mutation_state" where
  "mutation_state_of w =
     (if w = MUTATION_CLEAN then Is_Clean else if w = MUTATION_POISONED then Is_Poisoned else Is_Owned (ucast (w - 1)))"

definition read_mutation :: "(talck, mutation_state) prog" where
  "read_mutation = load tk_mutation (\<lambda>w. Ret (mutation_state_of w))"

definition poison_owner :: "u8 \<Rightarrow> (talck, bool) prog" where
  "poison_owner own = compare_exchange tk_mutation set_mutation (mutation_owner own) MUTATION_POISONED (\<lambda>r. Ret (is_ok r))"

definition clear_dead_owner :: "u8 \<Rightarrow> (talck, bool) prog" where
  "clear_dead_owner own = compare_exchange tk_mutation set_mutation (mutation_owner own) MUTATION_CLEAN (\<lambda>r. case r of
     Ok _ \<Rightarrow> Ret True | Err w \<Rightarrow> Ret (w = MUTATION_CLEAN))"

section \<open>Allocations\<close>

text \<open>An allocation is a span relative to the heap; the span of an allocation without bytes is null.\<close>

record meta =
  meta_offset :: nat
  meta_size :: nat

definition meta_null :: meta where
  "meta_null = \<lparr>meta_offset = 0, meta_size = 0\<rparr>"

definition meta_is_null :: "meta \<Rightarrow> bool" where
  "meta_is_null m \<longleftrightarrow> meta_offset m = 0 \<or> meta_size m = 0"

definition meta_layout :: "meta \<Rightarrow> layout" where
  "meta_layout m = \<lparr>size = meta_size m, align = 1\<rparr>"

definition meta_from_ptr :: "nat option \<Rightarrow> nat \<Rightarrow> meta" where
  "meta_from_ptr p sz = \<lparr>meta_offset = (case p of None \<Rightarrow> 0 | Some x \<Rightarrow> x), meta_size = sz\<rparr>"

definition meta_pointer :: "meta \<Rightarrow> nat option" where
  "meta_pointer m = (if meta_is_null m then None else Some (meta_offset m))"

definition set_talc :: "talc \<Rightarrow> talck \<Rightarrow> talck" where
  "set_talc t s = s\<lparr>tk_talc := t\<rparr>"

definition allocate_during :: "talc_handle \<Rightarrow> layout \<Rightarrow> (talck, (meta, mutation_error) result) prog" where
  "allocate_during h l = load tk_talc (\<lambda>t. case talc_allocate (th_geometry h) (th_base h) l t of
     None \<Rightarrow> Spin
   | Some (r, t') \<Rightarrow> store (set_talc t') (Ret (case r of
       Ok p \<Rightarrow> Ok (meta_from_ptr p (size l)) | Err _ \<Rightarrow> Err Mutation_Exhausted)))"

definition deallocate_during :: "talc_handle \<Rightarrow> nat option \<Rightarrow> layout \<Rightarrow> (talck, 'a) prog \<Rightarrow> (talck, 'a) prog" where
  "deallocate_during h p l k = load tk_talc (\<lambda>t. store (set_talc (case p of
     None \<Rightarrow> t | Some x \<Rightarrow> talc_deallocate (th_geometry h) (th_base h) x (size l) t)) k)"

definition heap_allocate :: "talc_handle \<Rightarrow> layout \<Rightarrow> (talck, (meta, mutation_error) result) prog" where
  "heap_allocate h l = bind (begin_mutation h) (\<lambda>r. case r of
     Err e \<Rightarrow> Ret (Err e)
   | Ok _ \<Rightarrow> bind (allocate_during h l) (\<lambda>res. mutation_commit (Ret res)))"

text \<open>\<open>release_value\<close>, for a value whose destructor does not touch the heap.\<close>

definition release_value :: "talc_handle \<Rightarrow> meta \<Rightarrow> layout \<Rightarrow> (talck, (unit, meta) result) prog" where
  "release_value h m l = bind (mutation_claim (th_owner h)) (\<lambda>r. case r of
     Err _ \<Rightarrow> Ret (Err m)
   | Ok _ \<Rightarrow> deallocate_during h (meta_pointer m) l (mutation_commit (Ret (Ok ()))))"

section \<open>The layout of a heap\<close>

record talc_info =
  ti_geometry :: talc_geometry
  ti_usable_offset :: u64
  ti_usable_length :: u64

text \<open>The span of a pointer given by its address, when it lies in the usable range.\<close>

definition meta_for :: "talc_handle \<Rightarrow> talc_info \<Rightarrow> nat \<Rightarrow> nat \<Rightarrow> meta option" where
  "meta_for h info addr sz =
     (if addr < th_base h then None
      else let offset = addr - th_base h in
      case checked_add_usize TALC_META_SIZE (unat (ti_usable_offset info)) of None \<Rightarrow> None | Some lower \<Rightarrow>
      case checked_add_usize lower (unat (ti_usable_length info)) of None \<Rightarrow> None | Some bound \<Rightarrow>
      case checked_add_usize offset sz of None \<Rightarrow> None | Some end \<Rightarrow>
      if lower \<le> offset \<and> end \<le> bound then Some \<lparr>meta_offset = offset, meta_size = sz\<rparr> else None)"

text \<open>The body of the layout: the mutation word, then the allocator, whose own address is \<open>hb\<close>.\<close>

definition talck_layout :: layout where
  "talck_layout = repr_c [int_layout 8, \<lparr>size = TALC_META_SIZE, align = 8\<rparr>]"

definition talc_info_layout :: layout where
  "talc_info_layout = repr_c [repr_c [int_layout 2, int_layout 2, int_layout 1, int_layout 1, int_layout 1, int_layout 1],
     int_layout 8, int_layout 8]"

definition talc_header_layout :: layout where
  "talc_header_layout = rc_header_layout talc_info_layout talck_layout"

definition talc_info_of :: "talc_config \<Rightarrow> talc_info" where
  "talc_info_of conf =
     \<lparr>ti_geometry = (case config_geometry conf of Ok g \<Rightarrow> g
        | Err _ \<Rightarrow> \<lparr>tg_bins = 1, tg_linear = 1, tg_linear_shift = 0, tg_exponential_log = 0, tg_divisions_log = 0, tg_reserved = 0\<rparr>),
      ti_usable_offset = of_nat (tc_forward conf), ti_usable_length = of_nat (tc_size conf)\<rparr>"

definition talck_init :: "nat \<Rightarrow> talc_config \<Rightarrow> talck \<times> status" where
  "talck_init hb conf = (case talc_claim hb conf talc_null of
     (Ok _, t) \<Rightarrow> (\<lparr>tk_mutation = MUTATION_CLEAN, tk_talc = t\<rparr>, Initialized)
   | (Err _, t) \<Rightarrow> (\<lparr>tk_mutation = MUTATION_CLEAN, tk_talc = t\<rparr>, Status_Corrupted))"

definition talc_trait :: "nat \<Rightarrow> (talc_config, talc_info, talck) layout_trait" where
  "talc_trait hb =
     \<lparr>lt_magic = 0x1234, lt_schema = schema_key_new (schema_id ''evering.talc'') 2,
      lt_info_schema = schema_key_new (schema_id ''evering.talc.info'') 2,
      lt_info_layout = talc_info_layout, lt_body_layout = talck_layout,
      lt_storage = (\<lambda>_. Some talc_header_layout),
      lt_info = (\<lambda>conf _. talc_info_of conf), lt_init = talck_init hb, lt_attach = (\<lambda>_ _. Initialized)\<rparr>"

definition from_handle :: "nat \<Rightarrow> u8 \<Rightarrow> talc_info \<Rightarrow> talc_handle" where
  "from_handle hb own info = \<lparr>th_base = hb, th_owner = own, th_geometry = ti_geometry info\<rparr>"

section \<open>Recovery of a dead participant's membership\<close>

abbreviation in_heap :: "(talck, 'a) prog \<Rightarrow> (('i, talck) rc_header, 'a) prog" where
  "in_heap \<equiv> within hd_inner (\<lambda>b hd. hd\<lparr>hd_inner := b\<rparr>)"

definition leave_dead :: "u8 \<Rightarrow> (('i, 'b) rc_header, bool) prog" where
  "leave_dead dead = bind (recover_member dead) (\<lambda>_. bind (has_member dead) (\<lambda>b. Ret (\<not> b)))"

definition finish_recovery :: "u8 \<Rightarrow> (('i, talck) rc_header, bool) prog" where
  "finish_recovery dead = bind (in_heap read_mutation) (\<lambda>st. case st of
     Is_Owned own \<Rightarrow>
       if own = dead then
         bind (in_heap (poison_owner dead)) (\<lambda>poisoned.
           if poisoned then leave_dead dead
           else bind (in_heap read_mutation) (\<lambda>st'. if st' \<noteq> Is_Poisoned then Ret False else leave_dead dead))
       else Ret False
   | _ \<Rightarrow> leave_dead dead)"

end
