(* ===== verification/Mem.thy ===== *)
theory Mem
  imports Participants
begin

text \<open>
  Mappings, regions and projections, after \<open>src/mem.rs\<close>: the placement of one layout behind another, admission to the
  root of a region, and the checked views of a region that every other component goes through. A mapping
  is its start address, its length and its access; unmapping is left to the operating system.
\<close>

section \<open>Sequencing of fallible programs\<close>

definition attempt ::
    "('s, ('a, 'e) result) prog \<Rightarrow> ('a \<Rightarrow> ('s, ('b, 'e) result) prog) \<Rightarrow> ('s, ('b, 'e) result) prog" where
  "attempt p k = bind p (\<lambda>r. case r of Err e \<Rightarrow> Ret (Err e) | Ok a \<Rightarrow> k a)"

primrec map_err :: "('e \<Rightarrow> 'f) \<Rightarrow> ('a, 'e) result \<Rightarrow> ('a, 'f) result" where
  "map_err f (Ok a) = Ok a"
| "map_err f (Err e) = Err (f e)"

definition map_err_prog :: "('e \<Rightarrow> 'f) \<Rightarrow> ('s, ('a, 'e) result) prog \<Rightarrow> ('s, ('a, 'f) result) prog" where
  "map_err_prog f p = bind p (\<lambda>r. Ret (map_err f r))"

definition seq :: "('s, unit) prog \<Rightarrow> ('s, 'a) prog \<Rightarrow> ('s, 'a) prog" where
  "seq p q = bind p (\<lambda>_. q)"

section \<open>Mappings\<close>

abbreviation ACCESS_READ :: u8 where "ACCESS_READ \<equiv> 1"
abbreviation ACCESS_WRITE :: u8 where "ACCESS_WRITE \<equiv> 2"
abbreviation ACCESS_EXEC :: u8 where "ACCESS_EXEC \<equiv> 4"

datatype mem_error =
    PermissionDenied u8 | UnenoughSpace nat nat | Mem_Contention | LayoutClosed | DuplicateAttachment
  | Mem_InvalidHeader | LayoutMismatch layout_field | PoisonedComposition | Mem_Overflow | ParticipantExhausted

datatype projection_error =
    ReadOnly | ArithmeticOverflow | OutOfBounds | Misaligned | Admission admit_error

record mapping =
  map_start :: nat
  map_len :: nat
  map_access :: u8

definition permits :: "mapping \<Rightarrow> u8 \<Rightarrow> (unit, mem_error) result" where
  "permits m acc = (if map_access m AND acc \<noteq> acc then Err (PermissionDenied acc) else Ok ())"

text \<open>The offset of the first place for a layout at or behind \<open>offset\<close>, and the offset behind it.\<close>

definition map_reserve :: "mapping \<Rightarrow> layout \<Rightarrow> nat \<Rightarrow> (nat \<times> nat, mem_error) result" where
  "map_reserve m l offset =
     bind_result (permits m ACCESS_WRITE) (\<lambda>_.
     bind_result (ok_or (checked_add_usize (map_start m) offset) Mem_Overflow) (\<lambda>candidate.
     bind_result (ok_or (checked_add_usize candidate (align l - 1)) Mem_Overflow) (\<lambda>up.
     let aligned_address = up div align l * align l in
     bind_result (ok_or (checked_add_usize aligned_address (size l)) Mem_Overflow) (\<lambda>end.
     if aligned_address < map_start m then Err Mem_Overflow
     else let aligned = aligned_address - map_start m in
     if end < map_start m then Err Mem_Overflow
     else let next = end - map_start m in
     if map_len m < next then Err (UnenoughSpace next (map_len m))
     else Ok (aligned, next)))))"

primrec mem_error_of :: "admit_error \<Rightarrow> mem_error" where
  "mem_error_of Contention = Mem_Contention"
| "mem_error_of Closed = LayoutClosed"
| "mem_error_of DuplicateMember = DuplicateAttachment"
| "mem_error_of InvalidHeader = Mem_InvalidHeader"
| "mem_error_of (Mismatch f) = LayoutMismatch f"

definition map_commit ::
    "nat \<Rightarrow> mapping \<Rightarrow> ('c, 'i, 'b) layout_trait \<Rightarrow> nat \<Rightarrow> 'c \<Rightarrow> layout_context \<Rightarrow> u8 option \<Rightarrow>
     (('i, 'b) rc_header, (unit, mem_error) result) prog" where
  "map_commit fuel m t addr conf ctx slot = (case permits m ACCESS_WRITE of
     Err e \<Rightarrow> Ret (Err e)
   | Ok _ \<Rightarrow> map_err_prog mem_error_of (admit fuel t addr conf ctx slot))"

section \<open>Regions\<close>

record region =
  rg_map :: mapping
  rg_member :: member
  rg_id :: region_id
  rg_allow_init :: bool

abbreviation in_root :: "(root, 'a) prog \<Rightarrow> ((unit, root) rc_header, 'a) prog" where
  "in_root \<equiv> within hd_inner (\<lambda>b h. h\<lparr>hd_inner := b\<rparr>)"

definition region_of :: "region_admission \<Rightarrow> nat \<Rightarrow> ((unit, root) rc_header, region_id option) prog" where
  "region_of adm addr = (case adm of
     Create i \<Rightarrow> Ret (Some i) | Expect i \<Rightarrow> Ret (Some i) | Discover \<Rightarrow> published_region_at addr)"

definition region_new ::
    "nat \<Rightarrow> mapping \<Rightarrow> region_admission \<Rightarrow> ((unit, root) rc_header, (region \<times> nat, mem_error) result) prog" where
  "region_new fuel m adm = (case map_reserve m (lt_header_layout root_trait) 0 of
     Err e \<Rightarrow> Ret (Err e)
   | Ok (ptr, offset) \<Rightarrow>
       bind (region_of adm (map_start m + ptr)) (\<lambda>i. case i of
         None \<Rightarrow> Ret (Err Mem_InvalidHeader)
       | Some i \<Rightarrow>
           let allow = (case adm of Create _ \<Rightarrow> True | _ \<Rightarrow> False);
               ctx = \<lparr>ctx_region = i, ctx_offset = 0, allow_init = allow\<rparr> in
           attempt (map_commit fuel m root_trait (map_start m + ptr) () ctx None) (\<lambda>_.
           bind (in_root join) (\<lambda>mb. case mb of
             None \<Rightarrow> Ret (Err ParticipantExhausted)
           | Some mb \<Rightarrow> Ret (Ok (\<lparr>rg_map = m, rg_member = mb, rg_id = i, rg_allow_init = allow\<rparr>, offset))))))"

definition region_detach :: "region \<Rightarrow> ((unit, root) rc_header, unit) prog" where
  "region_detach r = bind (in_root (root_leave (rg_member r))) (\<lambda>_. Ret ())"

definition region_mark_dead :: "member \<Rightarrow> ((unit, root) rc_header, member option) prog" where
  "region_mark_dead peer =
     bind (in_root (mark_dead peer)) (\<lambda>marked. if marked then Ret (Some peer)
     else bind (in_root (is_dead peer)) (\<lambda>dead. Ret (if dead then Some peer else None)))"

definition region_release_dead :: "member \<Rightarrow> ((unit, root) rc_header, bool) prog" where
  "region_release_dead mb = in_root (release_dead mb)"

section \<open>Composition of a region\<close>

record build_area =
  bd_area :: region
  bd_offset :: nat
  bd_poisoned :: bool

record mapped =
  mp_region :: region
  mp_offset :: nat
  mp_attached :: bool

definition build_new ::
    "nat \<Rightarrow> mapping \<Rightarrow> region_admission \<Rightarrow> ((unit, root) rc_header, (build_area, mem_error) result) prog" where
  "build_new fuel m adm = attempt (region_new fuel m adm) (\<lambda>(area, offset).
     Ret (Ok \<lparr>bd_area = area, bd_offset = offset, bd_poisoned = False\<rparr>))"

definition build_reserve :: "build_area \<Rightarrow> layout \<Rightarrow> (nat \<times> nat, mem_error) result" where
  "build_reserve b l = (if bd_poisoned b then Err PoisonedComposition else map_reserve (rg_map (bd_area b)) l (bd_offset b))"

definition remaining_after :: "build_area \<Rightarrow> nat \<Rightarrow> nat" where
  "remaining_after b next = map_len (rg_map (bd_area b)) - next"

text \<open>The layout is admitted in the header found at the reserved place.\<close>

definition commit_reserved ::
    "nat \<Rightarrow> build_area \<Rightarrow> ('c, 'i, 'b) layout_trait \<Rightarrow> nat \<Rightarrow> nat \<Rightarrow> 'c \<Rightarrow>
     (('i, 'b) rc_header, (mapped, mem_error) result \<times> build_area) prog" where
  "commit_reserved fuel b t offset expected_next conf =
     (if bd_poisoned b then Ret (Err PoisonedComposition, b)
      else case map_reserve (rg_map (bd_area b)) (lt_header_layout t) (bd_offset b) of
        Err e \<Rightarrow> Ret (Err e, b\<lparr>bd_poisoned := True\<rparr>)
      | Ok (ptr, next) \<Rightarrow>
          if ptr \<noteq> offset \<or> next \<noteq> expected_next then Ret (Err Mem_InvalidHeader, b\<lparr>bd_poisoned := True\<rparr>)
          else
            let r = bd_area b;
                ctx = \<lparr>ctx_region = rg_id r, ctx_offset = of_nat offset, allow_init = rg_allow_init r\<rparr> in
            bind (map_commit fuel (rg_map r) t (map_start (rg_map r) + ptr) conf ctx (Some (mem_slot (rg_member r)))) (\<lambda>res.
            case res of
              Err e \<Rightarrow> Ret (Err e, b\<lparr>bd_poisoned := True\<rparr>)
            | Ok _ \<Rightarrow> Ret (Ok \<lparr>mp_region = r, mp_offset = ptr, mp_attached = True\<rparr>, b\<lparr>bd_offset := next\<rparr>)))"

definition build_push ::
    "nat \<Rightarrow> build_area \<Rightarrow> ('c, 'i, 'b) layout_trait \<Rightarrow> 'c \<Rightarrow>
     (('i, 'b) rc_header, (mapped, mem_error) result \<times> build_area) prog" where
  "build_push fuel b t conf = (case build_reserve b (lt_header_layout t) of
     Err e \<Rightarrow> Ret (Err e, b)
   | Ok (offset, next) \<Rightarrow> commit_reserved fuel b t offset next conf)"

section \<open>Projections\<close>

definition offset_of :: "region \<Rightarrow> nat \<Rightarrow> nat \<Rightarrow> (nat, projection_error) result" where
  "offset_of r addr sz =
     (if addr < map_start (rg_map r) then Err OutOfBounds
      else let offset = addr - map_start (rg_map r) in
      bind_result (ok_or (checked_add_usize offset sz) ArithmeticOverflow) (\<lambda>end.
      if end \<le> map_len (rg_map r) then Ok offset else Err OutOfBounds))"

definition ref_at :: "region \<Rightarrow> layout \<Rightarrow> nat \<Rightarrow> (nat, projection_error) result" where
  "ref_at r l offset =
     bind_result (ok_or (checked_add_usize offset (size l)) ArithmeticOverflow) (\<lambda>end.
     if map_len (rg_map r) < end then Err OutOfBounds
     else if (map_start (rg_map r) + offset) mod align l \<noteq> 0 then Err Misaligned
     else Ok offset)"

text \<open>What \<open>admit_at\<close> checks before it admits a layout of this extent.\<close>

definition admit_place :: "region \<Rightarrow> layout \<Rightarrow> nat \<Rightarrow> (nat, projection_error) result" where
  "admit_place r l offset =
     bind_result (ok_or (checked_add_usize offset (size l)) ArithmeticOverflow) (\<lambda>end.
     if map_len (rg_map r) < end then Err OutOfBounds
     else if (map_start (rg_map r) + offset) mod align l \<noteq> 0 then Err Misaligned
     else Ok offset)"

definition admit_at ::
    "nat \<Rightarrow> region \<Rightarrow> ('c, 'i, 'b) layout_trait \<Rightarrow> nat \<Rightarrow> 'c \<Rightarrow> bool \<Rightarrow>
     (('i, 'b) rc_header, (mapped, projection_error) result) prog" where
  "admit_at fuel r t offset conf allow =
     (if \<not> is_ok (permits (rg_map r) ACCESS_WRITE) then Ret (Err ReadOnly)
      else case lt_storage t conf of None \<Rightarrow> Ret (Err (Admission InvalidHeader))
      | Some l \<Rightarrow> (case admit_place r l offset of Err e \<Rightarrow> Ret (Err e)
        | Ok offset \<Rightarrow>
            let ctx = \<lparr>ctx_region = rg_id r, ctx_offset = of_nat offset, allow_init = allow\<rparr> in
            attempt (map_err_prog Admission (admit fuel t (map_start (rg_map r) + offset) conf ctx (Some (mem_slot (rg_member r)))))
              (\<lambda>_. Ret (Ok \<lparr>mp_region = r, mp_offset = offset, mp_attached = True\<rparr>))))"

definition drop_mapped :: "mapped \<Rightarrow> (('i, 'b) rc_header, unit) prog" where
  "drop_mapped m = (if mp_attached m then header_leave (mem_slot (rg_member (mp_region m))) else Ret ())"

text \<open>The identity that a header records; its fields do not change once it is initialized.\<close>

definition header_layout_id :: "(('i, 'b) rc_header, layout_id) prog" where
  "header_layout_id = load (\<lambda>h. \<lparr>lid_region = hd_region h, lid_offset = hd_offset h\<rparr>) Ret"

end
