(* ===== verification/Directory.thy ===== *)
theory Directory
  imports Heap Mem
begin

text \<open>
  The directory of \<open>src/dir.rs\<close>: the table that names the layouts of a region. A transaction word serialises creation,
  removal and growth, each writes down what it is doing before it changes the heap, and \<open>recover\<close> reads that back
  after the death of the participant that did it.
\<close>

section \<open>Words of the directory\<close>

abbreviation DIR_CAPACITY :: nat where "DIR_CAPACITY \<equiv> 32"
abbreviation TX_CLEAN :: usize where "TX_CLEAN \<equiv> 0"
abbreviation HELD :: usize where "HELD \<equiv> 1"
abbreviation EVIDENCE :: usize where "EVIDENCE \<equiv> 2"
abbreviation ROLLING_BACK :: usize where "ROLLING_BACK \<equiv> 3"
abbreviation TRANSACTION_BITS :: nat where "TRANSACTION_BITS \<equiv> 2"
abbreviation VACANT :: usize where "VACANT \<equiv> 0"
abbreviation PENDING :: usize where "PENDING \<equiv> 1"
abbreviation PUBLISHED :: usize where "PUBLISHED \<equiv> 2"
abbreviation CLOSING :: usize where "CLOSING \<equiv> 3"
abbreviation REMOVING :: usize where "REMOVING \<equiv> 4"
abbreviation RELEASED :: usize where "RELEASED \<equiv> 5"
abbreviation QUARANTINED :: usize where "QUARANTINED \<equiv> 6"
abbreviation CREATE :: usize where "CREATE \<equiv> 0"
abbreviation REMOVE :: usize where "REMOVE \<equiv> 1"
abbreviation GROW :: usize where "GROW \<equiv> 2"
abbreviation STATE_BITS :: nat where "STATE_BITS \<equiv> 3"
abbreviation STATE_MASK :: usize where "STATE_MASK \<equiv> 7"
abbreviation GENERATION_MAX :: usize where "GENERATION_MAX \<equiv> 0x1fffffffffffffff"
abbreviation ID_BYTES :: nat where "ID_BYTES \<equiv> 32"

datatype dir_error =
    Dir_Busy u8 | Dir_Full | Dir_Stale | Dir_Admission projection_error | Dir_Heap mutation_error
  | Dir_RolledBack | Dir_InUse | Dir_Close close_error

datatype recovered = Rolled_Back | Released | Retained | Quarantined

definition entry_word :: "usize \<Rightarrow> usize \<Rightarrow> usize" where
  "entry_word generation state = push_bit STATE_BITS generation OR state"

definition owner_word :: "u8 \<Rightarrow> usize \<Rightarrow> usize" where
  "owner_word own phase = push_bit TRANSACTION_BITS (ucast own + 1) OR phase"

definition busy_owner :: "usize \<Rightarrow> u8" where
  "busy_owner word = ucast (saturating_sub (drop_bit TRANSACTION_BITS word) 1)"

definition word_owner :: "usize \<Rightarrow> u8 option" where
  "word_owner word = (if word \<noteq> TX_CLEAN then Some (busy_owner word) else None)"

definition word_phase :: "usize \<Rightarrow> usize" where
  "word_phase word = word AND 3"

section \<open>Identities\<close>

record dir_id =
  id_region :: region_id
  id_slab :: u32
  id_entry :: u32
  id_generation :: usize

definition id_from_parts :: "region_id \<Rightarrow> u32 \<Rightarrow> u32 \<Rightarrow> usize \<Rightarrow> dir_id" where
  "id_from_parts r s e g = \<lparr>id_region = r, id_slab = s, id_entry = e, id_generation = g\<rparr>"

definition id_parts :: "dir_id \<Rightarrow> region_id \<times> u32 \<times> u32 \<times> usize" where
  "id_parts i = (id_region i, id_slab i, id_entry i, id_generation i)"

definition id_to_bytes :: "dir_id \<Rightarrow> byte list" where
  "id_to_bytes i =
     to_le_bytes (high (id_region i)) @ to_le_bytes (low (id_region i)) @ to_le_bytes (id_slab i) @
     to_le_bytes (id_entry i) @ to_le_bytes (id_generation i)"

definition id_from_bytes :: "byte list \<Rightarrow> dir_id option" where
  "id_from_bytes bs =
     (if length bs \<noteq> ID_BYTES then None
      else Some (id_from_parts
        \<lparr>high = from_le_bytes (take 8 bs), low = from_le_bytes (take 8 (drop 8 bs))\<rparr>
        (from_le_bytes (take 4 (drop 16 bs))) (from_le_bytes (take 4 (drop 20 bs)))
        (from_le_bytes (drop 24 bs))))"

section \<open>The shared state\<close>

record entry =
  en_state :: usize
  en_offset :: usize

definition entry_vacant :: entry where
  "entry_vacant = \<lparr>en_state = VACANT, en_offset = 0\<rparr>"

record slab =
  sl_next :: usize
  sl_entries :: "entry list"

definition slab_new :: slab where
  "slab_new = \<lparr>sl_next = 0, sl_entries = replicate DIR_CAPACITY entry_vacant\<rparr>"

definition slab_layout :: layout where
  "slab_layout = repr_c [int_layout 8, \<lparr>size = 16 * DIR_CAPACITY, align = 8\<rparr>]"

text \<open>The root of the directory is a slab of its own behind the transaction words.\<close>

record directory =
  dr_transaction :: usize
  dr_pending_slab :: usize
  dr_pending_entry :: usize
  dr_pending_kind :: usize
  dr_pending :: "meta option"
  dr_root :: slab

definition directory_new :: directory where
  "directory_new =
     \<lparr>dr_transaction = TX_CLEAN, dr_pending_slab = 0, dr_pending_entry = 0, dr_pending_kind = CREATE,
      dr_pending = None, dr_root = slab_new\<rparr>"

definition directory_layout :: layout where
  "directory_layout = repr_c [int_layout 8, int_layout 8, int_layout 8, int_layout 8, \<lparr>size = 16, align = 8\<rparr>,
     int_layout 8, \<lparr>size = 16 * DIR_CAPACITY, align = 8\<rparr>]"

definition directory_trait :: "(unit, unit, directory) layout_trait" where
  "directory_trait =
     \<lparr>lt_magic = 0xD1EC, lt_schema = schema_key_new (schema_id ''evering.directory'') 4,
      lt_info_schema = unit_schema, lt_info_layout = \<lparr>size = 0, align = 1\<rparr>, lt_body_layout = directory_layout,
      lt_storage = (\<lambda>_. Some (rc_header_layout \<lparr>size = 0, align = 1\<rparr> directory_layout)),
      lt_info = (\<lambda>_ _. ()), lt_init = (\<lambda>_. (directory_new, Initialized)), lt_attach = (\<lambda>_ _. Initialized)\<rparr>"

text \<open>
  What a directory works on: its own body, the heap, and the slabs and layouts that the heap holds, by their
  offset in the region.
\<close>

record ('i, 'b) space =
  sp_dir :: directory
  sp_heap :: talck
  sp_slabs :: "nat \<Rightarrow> slab"
  sp_layouts :: "nat \<Rightarrow> ('i, 'b) rc_header"

abbreviation in_talc :: "(talck, 'a) prog \<Rightarrow> (('i, 'b) space, 'a) prog" where
  "in_talc \<equiv> within sp_heap (\<lambda>k s. s\<lparr>sp_heap := k\<rparr>)"

definition put_layout :: "nat \<Rightarrow> ('i, 'b) rc_header \<Rightarrow> ('i, 'b) space \<Rightarrow> ('i, 'b) space" where
  "put_layout offset h s = s\<lparr>sp_layouts := (sp_layouts s)(offset := h)\<rparr>"

abbreviation in_layout :: "nat \<Rightarrow> (('i, 'b) rc_header, 'a) prog \<Rightarrow> (('i, 'b) space, 'a) prog" where
  "in_layout offset \<equiv> within (\<lambda>s. sp_layouts s offset) (put_layout offset)"

text \<open>\<open>SlabRef\<close>: the root, or a linked slab by its offset.\<close>

datatype slab_ref = Root_Slab | Linked nat

primrec slab_of :: "slab_ref \<Rightarrow> ('i, 'b) space \<Rightarrow> slab" where
  "slab_of Root_Slab s = dr_root (sp_dir s)"
| "slab_of (Linked o') s = sp_slabs s o'"

primrec put_slab :: "slab_ref \<Rightarrow> slab \<Rightarrow> ('i, 'b) space \<Rightarrow> ('i, 'b) space" where
  "put_slab Root_Slab sl s = s\<lparr>sp_dir := (sp_dir s)\<lparr>dr_root := sl\<rparr>\<rparr>"
| "put_slab (Linked o') sl s = s\<lparr>sp_slabs := (sp_slabs s)(o' := sl)\<rparr>"

definition ref_entry :: "slab_ref \<times> nat \<Rightarrow> ('i, 'b) space \<Rightarrow> entry" where
  "ref_entry e s = sl_entries (slab_of (fst e) s) ! snd e"

definition set_entry :: "slab_ref \<times> nat \<Rightarrow> entry \<Rightarrow> ('i, 'b) space \<Rightarrow> ('i, 'b) space" where
  "set_entry e x s = put_slab (fst e) ((slab_of (fst e) s)\<lparr>sl_entries := (sl_entries (slab_of (fst e) s))[snd e := x]\<rparr>) s"

definition set_state :: "slab_ref \<times> nat \<Rightarrow> usize \<Rightarrow> ('i, 'b) space \<Rightarrow> ('i, 'b) space" where
  "set_state e w s = set_entry e ((ref_entry e s)\<lparr>en_state := w\<rparr>) s"

definition set_offset :: "slab_ref \<times> nat \<Rightarrow> usize \<Rightarrow> ('i, 'b) space \<Rightarrow> ('i, 'b) space" where
  "set_offset e w s = set_entry e ((ref_entry e s)\<lparr>en_offset := w\<rparr>) s"

definition set_next :: "slab_ref \<Rightarrow> usize \<Rightarrow> ('i, 'b) space \<Rightarrow> ('i, 'b) space" where
  "set_next r w s = put_slab r ((slab_of r s)\<lparr>sl_next := w\<rparr>) s"

abbreviation transaction_word :: "('i, 'b) space \<Rightarrow> usize" where
  "transaction_word s \<equiv> dr_transaction (sp_dir s)"

definition set_transaction :: "usize \<Rightarrow> ('i, 'b) space \<Rightarrow> ('i, 'b) space" where
  "set_transaction w s = s\<lparr>sp_dir := (sp_dir s)\<lparr>dr_transaction := w\<rparr>\<rparr>"

text \<open>
  What a handle knows: its region, the heap it allocates from with the region and information of that heap's
  layout, and whether debug assertions are compiled in.
\<close>

record dir_handle =
  dh_area :: region
  dh_heap :: talc_handle
  dh_heap_region :: region_id
  dh_info :: talc_info
  dh_debug :: bool

abbreviation dh_slot :: "dir_handle \<Rightarrow> u8" where
  "dh_slot h \<equiv> mem_slot (rg_member (dh_area h))"

abbreviation dh_region_id :: "dir_handle \<Rightarrow> region_id" where
  "dh_region_id h \<equiv> rg_id (dh_area h)"

text \<open>The address of an allocation; \<open>NonNull::dangling\<close> of a byte is 1.\<close>

definition heap_pointer :: "dir_handle \<Rightarrow> meta \<Rightarrow> nat" where
  "heap_pointer h m = (case meta_pointer m of None \<Rightarrow> 1 | Some p \<Rightarrow> th_base (dh_heap h) + p)"

section \<open>Transactions\<close>

record transaction =
  tx_owner :: u8
  tx_phase :: usize

definition transaction_owner :: "(('i, 'b) space, u8 option) prog" where
  "transaction_owner = load transaction_word (\<lambda>w. Ret (word_owner w))"

definition dir_claim :: "u8 \<Rightarrow> (('i, 'b) space, (transaction, dir_error) result) prog" where
  "dir_claim own = compare_exchange transaction_word set_transaction TX_CLEAN (owner_word own HELD) (\<lambda>r. case r of
     Ok _ \<Rightarrow> Ret (Ok \<lparr>tx_owner = own, tx_phase = HELD\<rparr>)
   | Err w \<Rightarrow> Ret (Err (Dir_Busy (busy_owner w))))"

definition persist :: "transaction \<Rightarrow> u32 \<Rightarrow> nat \<Rightarrow> meta \<Rightarrow> usize \<Rightarrow> (('i, 'b) space, transaction) prog" where
  "persist tx slab index m kind =
     store (\<lambda>s. s\<lparr>sp_dir := (sp_dir s)\<lparr>dr_pending_slab := ucast slab\<rparr>\<rparr>)
     (store (\<lambda>s. s\<lparr>sp_dir := (sp_dir s)\<lparr>dr_pending_entry := of_nat index\<rparr>\<rparr>)
     (store (\<lambda>s. s\<lparr>sp_dir := (sp_dir s)\<lparr>dr_pending_kind := kind\<rparr>\<rparr>)
     (store (\<lambda>s. s\<lparr>sp_dir := (sp_dir s)\<lparr>dr_pending := Some m\<rparr>\<rparr>)
     (store (set_transaction (owner_word (tx_owner tx) EVIDENCE))
     (Ret (tx\<lparr>tx_phase := EVIDENCE\<rparr>))))))"

definition pending :: "(('i, 'b) space, meta) prog" where
  "pending = load (dr_pending \<circ> sp_dir) (\<lambda>m. Ret (the m))"

definition clear_pending :: "transaction \<Rightarrow> (('i, 'b) space, transaction) prog" where
  "clear_pending tx = store (set_transaction (owner_word (tx_owner tx) HELD)) (Ret (tx\<lparr>tx_phase := HELD\<rparr>))"

definition tx_commit :: "transaction \<Rightarrow> (('i, 'b) space, bool) prog" where
  "tx_commit tx = compare_exchange transaction_word set_transaction (owner_word (tx_owner tx) (tx_phase tx)) TX_CLEAN
     (\<lambda>r. Ret (is_ok r))"

definition drop_transaction :: "transaction \<Rightarrow> (('i, 'b) space, unit) prog" where
  "drop_transaction tx = (if tx_phase tx = EVIDENCE then
     compare_exchange transaction_word set_transaction (owner_word (tx_owner tx) EVIDENCE)
       (owner_word (tx_owner tx) ROLLING_BACK) (\<lambda>_. Ret ())
   else Ret ())"

text \<open>The ends of an operation: commit the transaction, or clear its evidence first, and return.\<close>

definition finish :: "transaction \<Rightarrow> 'a \<Rightarrow> (('i, 'b) space, 'a) prog" where
  "finish tx r = bind (tx_commit tx) (\<lambda>_. Ret r)"

definition clear_and_finish :: "transaction \<Rightarrow> 'a \<Rightarrow> (('i, 'b) space, 'a) prog" where
  "clear_and_finish tx r = bind (clear_pending tx) (\<lambda>tx. finish tx r)"

section \<open>Slabs and entries\<close>

definition next_slab :: "dir_handle \<Rightarrow> slab_ref \<Rightarrow> (('i, 'b) space, (slab_ref option, dir_error) result) prog" where
  "next_slab h r = load (sl_next \<circ> slab_of r) (\<lambda>offset.
     if offset = 0 then Ret (Ok None)
     else case ref_at (dh_area h) slab_layout (unat offset) of
       Err e \<Rightarrow> Ret (Err (Dir_Admission e)) | Ok o' \<Rightarrow> Ret (Ok (Some (Linked o'))))"

primrec slab_from :: "dir_handle \<Rightarrow> nat \<Rightarrow> slab_ref \<Rightarrow> (('i, 'b) space, (slab_ref, dir_error) result) prog" where
  "slab_from h 0 r = Ret (Ok r)"
| "slab_from h (Suc n) r = attempt (next_slab h r) (\<lambda>next. case next of
     None \<Rightarrow> Ret (Err Dir_Stale) | Some r' \<Rightarrow> slab_from h n r')"

definition dir_slab :: "dir_handle \<Rightarrow> u32 \<Rightarrow> (('i, 'b) space, (slab_ref, dir_error) result) prog" where
  "dir_slab h index = slab_from h (unat index) Root_Slab"

definition dir_entry :: "dir_handle \<Rightarrow> u32 \<Rightarrow> nat \<Rightarrow> (('i, 'b) space, (slab_ref \<times> nat, dir_error) result) prog" where
  "dir_entry h slab index = attempt (dir_slab h slab) (\<lambda>r.
     if index < DIR_CAPACITY then Ret (Ok (r, index)) else Ret (Err Dir_Stale))"

record slot_choice =
  sc_slab :: u32
  sc_entry :: nat
  sc_generation :: usize
  sc_vacant :: usize

primrec find_vacant :: "slab_ref \<Rightarrow> u32 \<Rightarrow> nat list \<Rightarrow> (('i, 'b) space, slot_choice option) prog" where
  "find_vacant r index [] = Ret None"
| "find_vacant r index (i # is) = load (en_state \<circ> ref_entry (r, i)) (\<lambda>state.
     if state AND STATE_MASK \<noteq> VACANT then find_vacant r index is
     else let generation = drop_bit STATE_BITS state in
     if generation \<noteq> GENERATION_MAX then
       Ret (Some \<lparr>sc_slab = index, sc_entry = i, sc_generation = generation + 1, sc_vacant = state\<rparr>)
     else find_vacant r index is)"

text \<open>The walks along the slabs end because the number of a slab is 32 bits wide.\<close>

lemma checked_add_measure: "checked_add (i :: u32) 1 = Some j \<Longrightarrow> 2 ^ 32 - unat j < 2 ^ 32 - unat i"
  using unsigned_less [of i] by (auto simp: checked_add_def unat_word_ariths split: if_splits)

function reserve_from :: "dir_handle \<Rightarrow> u32 \<Rightarrow> slab_ref \<Rightarrow> (('i, 'b) space, (slot_choice, dir_error) result) prog" where
  "reserve_from h index r = bind (find_vacant r index [0..<DIR_CAPACITY]) (\<lambda>found. case found of
     Some c \<Rightarrow> Ret (Ok c)
   | None \<Rightarrow> attempt (next_slab h r) (\<lambda>next. case next of
       None \<Rightarrow> Ret (Err Dir_Full)
     | Some r' \<Rightarrow> (case checked_add index 1 of None \<Rightarrow> Ret (Err Dir_Full) | Some index' \<Rightarrow> reserve_from h index' r')))"
  by pat_completeness auto
termination by (relation "measure (\<lambda>(h, i, r). 2 ^ 32 - unat i)") (auto dest: checked_add_measure)

definition dir_reserve :: "dir_handle \<Rightarrow> (('i, 'b) space, (slot_choice, dir_error) result) prog" where
  "dir_reserve h = reserve_from h 0 Root_Slab"

function tail_from :: "dir_handle \<Rightarrow> u32 \<Rightarrow> slab_ref \<Rightarrow> (('i, 'b) space, (u32 \<times> slab_ref, dir_error) result) prog" where
  "tail_from h index r = attempt (next_slab h r) (\<lambda>next. case next of
     None \<Rightarrow> Ret (Ok (index, r))
   | Some r' \<Rightarrow> (case checked_add index 1 of None \<Rightarrow> Ret (Err Dir_Full) | Some index' \<Rightarrow> tail_from h index' r'))"
  by pat_completeness auto
termination by (relation "measure (\<lambda>(h, i, r). 2 ^ 32 - unat i)") (auto dest: checked_add_measure)

definition dir_tail :: "dir_handle \<Rightarrow> (('i, 'b) space, (u32 \<times> slab_ref, dir_error) result) prog" where
  "dir_tail h = tail_from h 0 Root_Slab"

primrec find_transition :: "slab_ref \<Rightarrow> nat list \<Rightarrow> (('i, 'b) space, nat option) prog" where
  "find_transition r [] = Ret None"
| "find_transition r (i # is) = load (en_state \<circ> ref_entry (r, i)) (\<lambda>state.
     if state AND STATE_MASK \<notin> {VACANT, PUBLISHED, QUARANTINED} then Ret (Some i) else find_transition r is)"

function transition_from :: "dir_handle \<Rightarrow> u32 \<Rightarrow> slab_ref \<Rightarrow> (('i, 'b) space, ((u32 \<times> nat) option, dir_error) result) prog" where
  "transition_from h index r = bind (find_transition r [0..<DIR_CAPACITY]) (\<lambda>found. case found of
     Some i \<Rightarrow> Ret (Ok (Some (index, i)))
   | None \<Rightarrow> attempt (next_slab h r) (\<lambda>next. case next of
       None \<Rightarrow> Ret (Ok None)
     | Some r' \<Rightarrow> (case checked_add index 1 of None \<Rightarrow> Ret (Err Dir_Full) | Some index' \<Rightarrow> transition_from h index' r')))"
  by pat_completeness auto
termination by (relation "measure (\<lambda>(h, i, r). 2 ^ 32 - unat i)") (auto dest: checked_add_measure)

definition dir_transition :: "dir_handle \<Rightarrow> (('i, 'b) space, ((u32 \<times> nat) option, dir_error) result) prog" where
  "dir_transition h = transition_from h 0 Root_Slab"

definition dir_offset :: "dir_handle \<Rightarrow> dir_id \<Rightarrow> (('i, 'b) space, (nat, dir_error) result) prog" where
  "dir_offset h i =
     (if id_region i \<noteq> dh_region_id h then Ret (Err Dir_Stale)
      else attempt (dir_entry h (id_slab i) (unat (id_entry i))) (\<lambda>e.
        load (en_state \<circ> ref_entry e) (\<lambda>state.
        if state AND STATE_MASK \<noteq> PUBLISHED \<or> drop_bit STATE_BITS state \<noteq> id_generation i then Ret (Err Dir_Stale)
        else load (en_offset \<circ> ref_entry e) (\<lambda>offset. Ret (Ok (unat offset))))))"

declare reserve_from.simps [simp del] tail_from.simps [simp del] transition_from.simps [simp del]

section \<open>Scanning and opening\<close>

text \<open>A visitor carries the variables that its closure captures through the scan and says whether to go on.\<close>

primrec scan_entries ::
    "dir_handle \<Rightarrow> (dir_id \<Rightarrow> recorded_layout \<Rightarrow> 'a \<Rightarrow> (('i, 'b) space, bool \<times> 'a) prog) \<Rightarrow> u32 \<Rightarrow> slab_ref \<Rightarrow>
     nat list \<Rightarrow> 'a \<Rightarrow> (('i, 'b) space, (bool \<times> 'a, dir_error) result) prog" where
  "scan_entries h visit index r [] acc = Ret (Ok (True, acc))"
| "scan_entries h visit index r (i # is) acc = load (en_state \<circ> ref_entry (r, i)) (\<lambda>word.
     let state = word AND STATE_MASK in
     if state = VACANT \<or> state = QUARANTINED then scan_entries h visit index r is acc
     else if state = PUBLISHED then
       load (en_offset \<circ> ref_entry (r, i)) (\<lambda>offset.
       case ref_at (dh_area h) (bytes_layout RECORD_SIZE) (unat offset) of
         Err e \<Rightarrow> Ret (Err (Dir_Admission e))
       | Ok o' \<Rightarrow>
           let addr = map_start (rg_map (dh_area h)) + o' in
           bind (in_layout o' (recorded_at addr)) (\<lambda>rec. case rec of
             Err e \<Rightarrow> Ret (Err (Dir_Admission (Admission e)))
           | Ok rec \<Rightarrow> (case offset_of (dh_area h) addr (rl_extent rec) of
               Err e \<Rightarrow> Ret (Err (Dir_Admission e))
             | Ok _ \<Rightarrow>
                 bind (visit (id_from_parts (dh_region_id h) index (of_nat i) (drop_bit STATE_BITS word)) rec acc)
                   (\<lambda>(go, acc). if go then scan_entries h visit index r is acc else Ret (Ok (False, acc))))))
     else Ret (Err Dir_InUse))"

function scan_from ::
    "dir_handle \<Rightarrow> (dir_id \<Rightarrow> recorded_layout \<Rightarrow> 'a \<Rightarrow> (('i, 'b) space, bool \<times> 'a) prog) \<Rightarrow> u32 \<Rightarrow> slab_ref \<Rightarrow>
     'a \<Rightarrow> (('i, 'b) space, (bool \<times> 'a, dir_error) result) prog" where
  "scan_from h visit index r acc = attempt (scan_entries h visit index r [0..<DIR_CAPACITY] acc) (\<lambda>(go, acc).
     if \<not> go then Ret (Ok (False, acc))
     else attempt (next_slab h r) (\<lambda>next. case next of
       None \<Rightarrow> Ret (Ok (True, acc))
     | Some r' \<Rightarrow> (case checked_add index 1 of None \<Rightarrow> Ret (Err Dir_Full) | Some index' \<Rightarrow> scan_from h visit index' r' acc)))"
  by pat_completeness auto
termination by (relation "measure (\<lambda>(h, v, i, r, acc). 2 ^ 32 - unat i)") (auto dest: checked_add_measure)

declare scan_from.simps [simp del]

definition dir_scan ::
    "dir_handle \<Rightarrow> (dir_id \<Rightarrow> recorded_layout \<Rightarrow> 'a \<Rightarrow> (('i, 'b) space, bool \<times> 'a) prog) \<Rightarrow> 'a \<Rightarrow>
     (('i, 'b) space, (bool \<times> 'a, dir_error) result) prog" where
  "dir_scan h visit acc = scan_from h visit 0 Root_Slab acc"

definition dir_context :: "dir_handle \<Rightarrow> nat \<Rightarrow> layout_context" where
  "dir_context h offset = \<lparr>ctx_region = dh_region_id h, ctx_offset = of_nat offset, allow_init = False\<rparr>"

abbreviation address_at :: "dir_handle \<Rightarrow> nat \<Rightarrow> nat" where
  "address_at h offset \<equiv> map_start (rg_map (dh_area h)) + offset"

text \<open>
  \<open>recover_layout\<close> for a layout whose recovery is \<open>repair\<close>: it is given the information, the extent, the two
  participants and the offset of the layout.
\<close>

definition recover_layout ::
    "dir_handle \<Rightarrow> ('c, 'i, 'b) layout_trait \<Rightarrow> ('i \<Rightarrow> nat \<Rightarrow> u8 \<Rightarrow> u8 \<Rightarrow> nat \<Rightarrow> (('i, 'b) space, bool) prog) \<Rightarrow>
     dir_id \<Rightarrow> recorded_layout \<Rightarrow> u8 \<Rightarrow> u8 \<Rightarrow> (('i, 'b) space, bool) prog" where
  "recover_layout h t repair i rec dead live =
     (if rl_mismatch t rec \<noteq> None then Ret False
      else bind (dir_offset h i) (\<lambda>res. case res of Err _ \<Rightarrow> Ret False | Ok offset \<Rightarrow>
        if \<not> is_ok (ref_at (dh_area h) (lt_header_layout t) offset) then Ret False
        else bind (in_layout offset (inspect_at t (address_at h offset) (dir_context h offset))) (\<lambda>res. case res of
          Err _ \<Rightarrow> Ret False
        | Ok _ \<Rightarrow> load (\<lambda>s. hd_info (sp_layouts s offset)) (\<lambda>info.
            bind (repair info (rl_extent rec) dead live offset) (\<lambda>ok.
            if \<not> ok then Ret False else in_layout offset (leave_dead dead))))))"

definition dir_matches :: "dir_handle \<Rightarrow> dir_id \<Rightarrow> layout_id \<Rightarrow> (('i, 'b) space, bool) prog" where
  "dir_matches h i l = bind (dir_offset h i) (\<lambda>res. case res of
     Err _ \<Rightarrow> Ret False
   | Ok offset \<Rightarrow> Ret (lid_region l = dh_region_id h \<and> lid_offset l = of_nat offset))"

definition inspect_layout ::
    "dir_handle \<Rightarrow> ('c, 'i, 'b) layout_trait \<Rightarrow> layout_id \<Rightarrow> (('i, 'b) space, ('i \<times> nat \<times> nat) option) prog" where
  "inspect_layout h t l =
     (if lid_region l \<noteq> dh_region_id h then Ret None
      else bind (dir_scan h (\<lambda>i rec found.
          if rl_mismatch t rec \<noteq> None then Ret (True, found)
          else bind (dir_offset h i) (\<lambda>res. Ret (True, case res of
            Err _ \<Rightarrow> found | Ok offset \<Rightarrow> if of_nat offset = lid_offset l then Some (i, rec) else found))) None) (\<lambda>res.
        case res of Ok (_, Some (i, rec)) \<Rightarrow>
          bind (dir_offset h i) (\<lambda>res. case res of Err _ \<Rightarrow> Ret None | Ok offset \<Rightarrow>
            if \<not> is_ok (ref_at (dh_area h) (lt_header_layout t) offset) then Ret None
            else bind (in_layout offset (inspect_at t (address_at h offset) (dir_context h offset))) (\<lambda>res. case res of
              Err _ \<Rightarrow> Ret None | Ok info \<Rightarrow> Ret (Some (info, rl_extent rec, offset))))
        | _ \<Rightarrow> Ret None))"

definition dir_open ::
    "nat \<Rightarrow> dir_handle \<Rightarrow> ('c, 'i, 'b) layout_trait \<Rightarrow> dir_id \<Rightarrow> 'c \<Rightarrow> (('i, 'b) space, (mapped, dir_error) result) prog" where
  "dir_open fuel h t i conf = attempt (dir_offset h i) (\<lambda>offset.
     map_err_prog Dir_Admission (in_layout offset (admit_at fuel (dh_area h) t offset conf False)))"

definition open_recorded ::
    "nat \<Rightarrow> dir_handle \<Rightarrow> ('c, 'i, 'b) layout_trait \<Rightarrow> dir_id \<Rightarrow> ('i \<Rightarrow> nat \<Rightarrow> ('c \<times> 'u) option) \<Rightarrow>
     (('i, 'b) space, (mapped \<times> 'u) option) prog" where
  "open_recorded fuel h t i discover = bind (dir_offset h i) (\<lambda>res. case res of Err _ \<Rightarrow> Ret None | Ok offset \<Rightarrow>
     if \<not> is_ok (ref_at (dh_area h) (bytes_layout RECORD_SIZE) offset) then Ret None
     else bind (in_layout offset (recorded_at (address_at h offset))) (\<lambda>res. case res of Err _ \<Rightarrow> Ret None | Ok rec \<Rightarrow>
       if \<not> is_ok (offset_of (dh_area h) (address_at h offset) (rl_extent rec)) then Ret None
       else if \<not> is_ok (ref_at (dh_area h) (lt_header_layout t) offset) then Ret None
       else bind (in_layout offset (inspect_at t (address_at h offset) (dir_context h offset))) (\<lambda>res. case res of
         Err _ \<Rightarrow> Ret None
       | Ok info \<Rightarrow> (case discover info (rl_extent rec) of None \<Rightarrow> Ret None | Some (conf, u) \<Rightarrow>
           bind (in_layout offset (admit_at fuel (dh_area h) t offset conf False)) (\<lambda>res. case res of
             Err _ \<Rightarrow> Ret None | Ok m \<Rightarrow> Ret (Some (m, u)))))))"

end
