(* ===== verification/Channel.thy ===== *)
theory Channel
  imports Directory Pool Queue
begin

text \<open>
  Channels, after \<open>src/channel.rs\<close>: two rings in one layout, a role word per end that says which participant holds the
  end and in which generation, the port that invites a peer, and the operations of the two ends. A transfer joins a
  ring and a pool: its block is detached from the sender's pool before the token becomes visible.
\<close>

section \<open>Role words\<close>

abbreviation ROLE_GENERATION_SHIFT :: nat where "ROLE_GENERATION_SHIFT \<equiv> 7"
abbreviation ROLE_SLOT_MASK :: usize where "ROLE_SLOT_MASK \<equiv> 126"
abbreviation ROLE_MAX_GENERATION :: usize where "ROLE_MAX_GENERATION \<equiv> 0x1ffffffffffffff"

definition role_new :: "usize \<Rightarrow> u8 option \<Rightarrow> bool \<Rightarrow> usize option" where
  "role_new generation participant final =
     (if ROLE_MAX_GENERATION < generation then None
      else let word = (\<lambda>slot. push_bit ROLE_GENERATION_SHIFT generation OR push_bit 1 slot OR (if final then 1 else 0)) in
      case participant of
        Some p \<Rightarrow> if unat p < PARTICIPANT_CAPACITY then Some (word (ucast p + 1)) else None
      | None \<Rightarrow> Some (word 0))"

definition role_generation :: "usize \<Rightarrow> usize" where
  "role_generation w = drop_bit ROLE_GENERATION_SHIFT w"

definition role_owner :: "usize \<Rightarrow> u8 option" where
  "role_owner w = (let slot = drop_bit 1 (w AND ROLE_SLOT_MASK) in if slot = 0 then None else Some (ucast (slot - 1)))"

definition role_terminal :: "usize \<Rightarrow> bool" where
  "role_terminal w \<longleftrightarrow> w AND 1 \<noteq> 0"

definition next_unowned :: "usize \<Rightarrow> bool \<Rightarrow> usize option" where
  "next_unowned w final = (case checked_add (role_generation w) 1 of
     None \<Rightarrow> None | Some generation \<Rightarrow> role_new generation None final)"

text \<open>The word of an end without its owner: a new generation, or terminal when there is none.\<close>

definition role_released :: "usize \<Rightarrow> usize option" where
  "role_released w =
     (if role_terminal w then role_new (role_generation w) None True
      else case next_unowned w False of Some x \<Rightarrow> Some x | None \<Rightarrow> role_new (role_generation w) None True)"

section \<open>Identities and ports\<close>

record channel_id =
  ci_inner :: dir_id
  ci_capacity :: usize

definition channel_id_new :: "region_id \<Rightarrow> u32 \<Rightarrow> u32 \<Rightarrow> usize \<Rightarrow> usize \<Rightarrow> channel_id" where
  "channel_id_new r s e g c = \<lparr>ci_inner = id_from_parts r s e g, ci_capacity = c\<rparr>"

record port =
  port_id :: channel_id
  port_role :: usize
  port_generation :: usize

abbreviation PORT_BYTES :: nat where "PORT_BYTES \<equiv> 49"

definition port_new :: "channel_id \<Rightarrow> usize \<Rightarrow> usize \<Rightarrow> port" where
  "port_new i r g = \<lparr>port_id = i, port_role = r, port_generation = g\<rparr>"

definition port_from_parts :: "channel_id \<Rightarrow> u8 \<Rightarrow> usize \<Rightarrow> port option" where
  "port_from_parts i r g =
     (if 2 \<le> r \<or> g = 0 \<or> ROLE_MAX_GENERATION < g then None
      else Some \<lparr>port_id = i, port_role = ucast r, port_generation = g\<rparr>)"

definition port_to_bytes :: "port \<Rightarrow> byte list" where
  "port_to_bytes p =
     id_to_bytes (ci_inner (port_id p)) @ to_le_bytes (ci_capacity (port_id p)) @
     [ucast (port_role p)] @ to_le_bytes (port_generation p)"

definition port_from_bytes :: "byte list \<Rightarrow> port option" where
  "port_from_bytes bs =
     (if length bs \<noteq> PORT_BYTES then None
      else case id_from_bytes (take ID_BYTES bs) of None \<Rightarrow> None
      | Some i \<Rightarrow> port_from_parts \<lparr>ci_inner = i, ci_capacity = from_le_bytes (take 8 (drop 32 bs))\<rparr>
          (bs ! 40) (from_le_bytes (take 8 (drop 41 bs))))"

section \<open>The shared part of a channel\<close>

record 'a ring =
  ri_head :: usize
  ri_tail :: usize
  ri_buf :: "'a slot list"

record 'a duplex =
  dx_lifecycle :: u8
  dx_roles :: "usize list"
  dx_left :: "'a ring"
  dx_right :: "'a ring"

text \<open>A direction of the channel as a queue; both directions share the lifecycle word.\<close>

definition duplex_ring :: "nat \<Rightarrow> 'a duplex \<Rightarrow> 'a queue" where
  "duplex_ring dir d =
     (let r = (if dir = 0 then dx_left d else dx_right d) in
      \<lparr>head = ri_head r, tail = ri_tail r, buf = ri_buf r, lifecycle = dx_lifecycle d\<rparr>)"

definition put_ring :: "nat \<Rightarrow> 'a queue \<Rightarrow> 'a duplex \<Rightarrow> 'a duplex" where
  "put_ring dir q d =
     (let r = \<lparr>ri_head = head q, ri_tail = tail q, ri_buf = buf q\<rparr> in
      if dir = 0 then d\<lparr>dx_left := r, dx_lifecycle := lifecycle q\<rparr>
      else d\<lparr>dx_right := r, dx_lifecycle := lifecycle q\<rparr>)"

abbreviation in_ring :: "nat \<Rightarrow> ('a queue, 'r) prog \<Rightarrow> ('a duplex, 'r) prog" where
  "in_ring dir \<equiv> within (duplex_ring dir) (put_ring dir)"

definition role_at :: "nat \<Rightarrow> 'a duplex \<Rightarrow> usize" where
  "role_at i d = dx_roles d ! i"

definition set_role :: "nat \<Rightarrow> usize \<Rightarrow> 'a duplex \<Rightarrow> 'a duplex" where
  "set_role i w d = d\<lparr>dx_roles := (dx_roles d)[i := w]\<rparr>"

text \<open>
  The layouts of \<open>Token<H>\<close>, of a slot and of \<open>Duplex<H>\<close>, given that of \<open>H\<close> and that of a cache-padded word, which
  \<open>crossbeam_utils\<close> decides.
\<close>

record duplex_layouts =
  dl_header :: layout
  dl_padded :: layout

definition pool_token_layout :: layout where
  "pool_token_layout = repr_c [\<lparr>size = 24, align = 8\<rparr>, int_layout 8, \<lparr>size = 16, align = 8\<rparr>, int_layout 4, int_layout 8, int_layout 8]"

definition slot_layout :: "duplex_layouts \<Rightarrow> layout" where
  "slot_layout dl = repr_c [int_layout 8, int_layout 2, repr_c [pool_token_layout, dl_header dl]]"

definition duplex_layout :: "duplex_layouts \<Rightarrow> layout" where
  "duplex_layout dl = (let header = repr_c [dl_padded dl, dl_padded dl] in
     repr_c [int_layout 1, \<lparr>size = 16, align = 8\<rparr>, header, header])"

definition duplex_header_layout :: "duplex_layouts \<Rightarrow> layout" where
  "duplex_header_layout dl = rc_header_layout (int_layout 8) (duplex_layout dl)"

datatype duplex_geometry_error = ZeroCapacity | Geometry_Overflow

record duplex_geometry =
  dg_layout :: layout
  dg_slots :: nat
  dg_capacity :: nat
  dg_one_lap :: nat

definition duplex_geometry_of :: "duplex_layouts \<Rightarrow> nat \<Rightarrow> (duplex_geometry, duplex_geometry_error) result" where
  "duplex_geometry_of dl cap =
     (if cap = 0 then Err ZeroCapacity
      else
        bind_result (ok_or (checked_mul_usize cap 2) Geometry_Overflow) (\<lambda>count.
        bind_result (ok_or (array_layout (slot_layout dl) count) Geometry_Overflow) (\<lambda>slots.
        bind_result (ok_or (layout_extend (duplex_header_layout dl) slots) Geometry_Overflow) (\<lambda>(l, offset).
        bind_result (ok_or (case checked_add_usize cap 1 of None \<Rightarrow> None | Some n \<Rightarrow> checked_next_power_of_two n)
          Geometry_Overflow) (\<lambda>lap.
        Ok \<lparr>dg_layout = pad_to_align l, dg_slots = offset, dg_capacity = cap, dg_one_lap = lap\<rparr>)))))"

definition ring_new :: "nat \<Rightarrow> 'a ring" where
  "ring_new cap = \<lparr>ri_head = 0, ri_tail = 0, ri_buf = map (\<lambda>i. slot_new (of_nat i)) [0..<cap]\<rparr>"

definition duplex_new :: "nat \<Rightarrow> 'a duplex" where
  "duplex_new cap = \<lparr>dx_lifecycle = 0, dx_roles = [0, 0], dx_left = ring_new cap, dx_right = ring_new cap\<rparr>"

definition duplex_trait :: "duplex_layouts \<Rightarrow> schema_key \<Rightarrow> (nat, u64, 'a duplex) layout_trait" where
  "duplex_trait dl header_schema =
     \<lparr>lt_magic = 0xD0A1,
      lt_schema = compose_schema (schema_key_new (schema_id ''evering.duplex'') 5) (token_schema header_schema),
      lt_info_schema = schema_key_new (schema_id ''evering.duplex.info'') 1,
      lt_info_layout = int_layout 8, lt_body_layout = duplex_layout dl,
      lt_storage = (\<lambda>conf. case duplex_geometry_of dl conf of Ok g \<Rightarrow> Some (dg_layout g) | Err _ \<Rightarrow> None),
      lt_info = (\<lambda>conf _. case duplex_geometry_of dl conf of Ok _ \<Rightarrow> of_nat conf | Err _ \<Rightarrow> 0),
      lt_init = (\<lambda>conf. case duplex_geometry_of dl conf of
         Ok g \<Rightarrow> (duplex_new (dg_capacity g), Initialized) | Err _ \<Rightarrow> (duplex_new 0, Status_Corrupted)),
      lt_attach = (\<lambda>_ conf. if is_ok (duplex_geometry_of dl conf) then Initialized else Status_Corrupted)\<rparr>"

section \<open>Roles\<close>

record channel_role =
  cr_id :: channel_id
  cr_capacity :: nat
  cr_one_lap :: usize
  cr_index :: nat
  cr_generation :: usize
  cr_owner :: u8

text \<open>\<open>routes\<close>: the fields of the lifecycle word that each direction uses.\<close>

definition route_view :: "channel_role \<Rightarrow> nat \<Rightarrow> view" where
  "route_view r dir =
     \<lparr>send_field = (if dir = 0 then 0 else 4), recv_field = (if dir = 0 then 6 else 2),
      owner = cr_owner r, one_lap = cr_one_lap r, capacity = cr_capacity r\<rparr>"

definition channel_from_parts :: "duplex_geometry \<Rightarrow> channel_id \<Rightarrow> nat \<Rightarrow> usize \<Rightarrow> u8 \<Rightarrow> channel_role" where
  "channel_from_parts g i index generation own =
     \<lparr>cr_id = i, cr_capacity = dg_capacity g, cr_one_lap = of_nat (dg_one_lap g), cr_index = index,
      cr_generation = generation, cr_owner = own\<rparr>"

primrec recover_role_loop :: "bool list \<Rightarrow> nat \<Rightarrow> u8 \<Rightarrow> usize \<Rightarrow> ('a duplex, unit) prog" where
  "recover_role_loop [] i dead raw = Spin"
| "recover_role_loop (b # bs) i dead raw =
     (if role_owner raw \<noteq> Some dead then Ret ()
      else case role_released raw of None \<Rightarrow> Panic | Some new \<Rightarrow>
        compare_exchange_weak b (role_at i) (set_role i) raw new (\<lambda>r. case r of
          Ok _ \<Rightarrow> Ret () | Err observed \<Rightarrow> recover_role_loop bs i dead observed))"

definition recover_role :: "bool list \<Rightarrow> nat \<Rightarrow> u8 \<Rightarrow> ('a duplex, unit) prog" where
  "recover_role bs i dead = load (role_at i) (recover_role_loop bs i dead)"

primrec drop_role_loop :: "bool list \<Rightarrow> channel_role \<Rightarrow> usize \<Rightarrow> ('a duplex, unit) prog" where
  "drop_role_loop [] r raw = Spin"
| "drop_role_loop (b # bs) r raw =
     (if role_generation raw \<noteq> cr_generation r \<or> role_owner raw \<noteq> Some (cr_owner r) then Ret ()
      else case role_released raw of None \<Rightarrow> Panic | Some new \<Rightarrow>
        compare_exchange_weak b (role_at (cr_index r)) (set_role (cr_index r)) raw new (\<lambda>res. case res of
          Ok _ \<Rightarrow> Ret () | Err observed \<Rightarrow> drop_role_loop bs r observed))"

definition drop_role :: "bool list \<Rightarrow> channel_role \<Rightarrow> ('a duplex, unit) prog" where
  "drop_role bs r = load (role_at (cr_index r)) (drop_role_loop bs r)"

section \<open>Recovery of a channel\<close>

text \<open>The release of a payload works on the rest of the state.\<close>

abbreviation with_ring :: "nat \<Rightarrow> ('a queue \<times> 'w, 'r) prog \<Rightarrow> ('a duplex \<times> 'w, 'r) prog" where
  "with_ring dir \<equiv> within (map_prod (duplex_ring dir) id) (\<lambda>p t. (put_ring dir (fst p) (fst t), snd p))"

abbreviation in_duplex :: "('a duplex, 'r) prog \<Rightarrow> ('a duplex \<times> 'w, 'r) prog" where
  "in_duplex \<equiv> within fst (\<lambda>d t. (d, snd t))"

abbreviation in_rest :: "('w, 'r) prog \<Rightarrow> ('a duplex \<times> 'w, 'r) prog" where
  "in_rest \<equiv> within snd (\<lambda>w t. (fst t, w))"

primrec repair_all ::
    "(nat \<Rightarrow> view) \<Rightarrow> (nat \<times> nat) list \<Rightarrow> u8 \<Rightarrow> u8 \<Rightarrow> ('a \<Rightarrow> u8 \<Rightarrow> ('w, bool) prog) \<Rightarrow> ('a duplex \<times> 'w, bool) prog" where
  "repair_all v [] dead live release = Ret True"
| "repair_all v (p # ps) dead live release =
     bind (with_ring (fst p) (repair_slot_with (v (fst p)) (snd p) dead live release)) (\<lambda>r. case r of
       Repair_Busy _ \<Rightarrow> Ret False | Corrupted \<Rightarrow> Ret False | _ \<Rightarrow> repair_all v ps dead live release)"

definition duplex_recover ::
    "bool list \<Rightarrow> duplex_layouts \<Rightarrow> u64 \<Rightarrow> nat \<Rightarrow> u8 \<Rightarrow> u8 \<Rightarrow> ('a \<Rightarrow> u8 \<Rightarrow> ('w, bool) prog) \<Rightarrow> ('a duplex \<times> 'w, bool) prog" where
  "duplex_recover bs dl info extent dead live release = (case duplex_geometry_of dl (unat info) of
     Err _ \<Rightarrow> Ret False
   | Ok g \<Rightarrow>
       if size (dg_layout g) \<noteq> extent then Ret False
       else
         let v = route_view (channel_from_parts g (channel_id_new \<lparr>high = 0, low = 0\<rparr> 0 0 0 0) 0 0 live);
             slots = map (Pair 0) [0..<unat info] @ map (Pair 1) [0..<unat info] in
         bind (repair_all v slots dead live release) (\<lambda>ok.
         if \<not> ok then Ret False
         else in_duplex (bind (recover_role bs 0 dead) (\<lambda>_. bind (recover_role bs 1 dead) (\<lambda>_. Ret True)))))"

section \<open>Joining a channel\<close>

datatype role_admit_error = Role_Stale | Role_Occupied | Role_Terminal | Role_Orphaned | Role_Open

datatype invite_error = Invite_Occupied | Invite_Terminal | Invite_Busy | Invite_Retired

definition channel_creator ::
    "duplex_geometry \<Rightarrow> channel_id \<Rightarrow> u8 \<Rightarrow> ('a duplex, channel_role \<times> usize) prog" where
  "channel_creator g i own = (case role_new 1 (Some own) False of None \<Rightarrow> Panic | Some held \<Rightarrow>
     store (set_role 0 held) (case role_new 1 None False of None \<Rightarrow> Panic | Some free \<Rightarrow>
     store (set_role 1 free) (Ret (channel_from_parts g i 0 1 own, 1))))"

text \<open>Why a claim of an end failed, given the word that was found instead.\<close>

definition role_refusal :: "usize \<Rightarrow> usize \<Rightarrow> role_admit_error" where
  "role_refusal generation observed =
     (if role_terminal observed then Role_Terminal
      else if role_generation observed \<noteq> generation then Role_Stale
      else if role_owner observed \<noteq> None then Role_Occupied
      else Role_Open)"

definition claim_role :: "channel_role \<Rightarrow> ('a duplex, (channel_role, role_admit_error) result) prog" where
  "claim_role r = (case role_new (cr_generation r) None False of
     None \<Rightarrow> Ret (Err Role_Stale)
   | Some expected \<Rightarrow> (case role_new (cr_generation r) (Some (cr_owner r)) False of
       None \<Rightarrow> Ret (Err Role_Open)
     | Some claimed \<Rightarrow>
         compare_exchange (role_at (cr_index r)) (set_role (cr_index r)) expected claimed (\<lambda>res. case res of
           Err observed \<Rightarrow> Ret (Err (role_refusal (cr_generation r) observed))
         | Ok _ \<Rightarrow> load (role_at (1 - cr_index r)) (\<lambda>issuer.
             if role_terminal issuer \<or> role_owner issuer = None then
               (case (case next_unowned claimed False of Some x \<Rightarrow> Some x | None \<Rightarrow> role_new (cr_generation r) None True) of
                  None \<Rightarrow> Panic
                | Some new \<Rightarrow> compare_exchange (role_at (cr_index r)) (set_role (cr_index r)) claimed new
                    (\<lambda>_. Ret (Err Role_Orphaned)))
             else Ret (Ok r)))))"

text \<open>\<open>adopt\<close> consumes the mapping, so every refusal leaves the layout again.\<close>

definition channel_adopt ::
    "duplex_layouts \<Rightarrow> mapped \<Rightarrow> port \<Rightarrow> ((u64, 'a duplex) rc_header, (channel_role, role_admit_error) result) prog" where
  "channel_adopt dl mp p =
     (let refuse = (\<lambda>e. bind (drop_mapped mp) (\<lambda>_. Ret (Err e))) in
      if 2 \<le> port_role p then refuse Role_Open
      else load hd_info (\<lambda>info. case duplex_geometry_of dl (unat info) of
        Err _ \<Rightarrow> refuse Role_Open
      | Ok g \<Rightarrow>
          if \<not> is_ok (offset_of (mp_region mp) (map_start (rg_map (mp_region mp)) + mp_offset mp) (size (dg_layout g)))
          then refuse Role_Open
          else bind (within hd_inner (\<lambda>b h. h\<lparr>hd_inner := b\<rparr>)
            (claim_role (channel_from_parts g (port_id p) (unat (port_role p)) (port_generation p)
              (mem_slot (rg_member (mp_region mp)))))) (\<lambda>res. case res of
                Err e \<Rightarrow> refuse e | Ok r \<Rightarrow> Ret (Ok r))))"

definition invite :: "channel_role \<Rightarrow> ('a duplex, (port, invite_error) result) prog" where
  "invite r = load (role_at (cr_index r)) (\<lambda>issuer.
     if role_generation issuer \<noteq> cr_generation r \<or> role_owner issuer \<noteq> Some (cr_owner r) \<or> role_terminal issuer
     then Ret (Err Invite_Terminal)
     else let i = 1 - cr_index r in
     load (role_at i) (\<lambda>raw.
     if role_terminal raw then Ret (Err Invite_Terminal)
     else if role_owner raw \<noteq> None then Ret (Err Invite_Occupied)
     else case next_unowned raw False of
       None \<Rightarrow> (case role_new (role_generation raw) None True of None \<Rightarrow> Panic | Some retired \<Rightarrow>
         compare_exchange (role_at i) (set_role i) raw retired (\<lambda>res. case res of
           Ok _ \<Rightarrow> Ret (Err Invite_Retired) | Err _ \<Rightarrow> Ret (Err Invite_Busy)))
     | Some next \<Rightarrow> compare_exchange (role_at i) (set_role i) raw next (\<lambda>res. case res of
         Err _ \<Rightarrow> Ret (Err Invite_Busy)
       | Ok _ \<Rightarrow> Ret (Ok (port_new (cr_id r) (of_nat i) (role_generation next))))))"

definition peer_is_unowned :: "channel_role \<Rightarrow> ('a duplex, bool) prog" where
  "peer_is_unowned r = load (role_at (1 - cr_index r)) (\<lambda>w. Ret (role_owner w = None))"

text \<open>Whether the channel can be taken apart: its end is terminal and nobody's, and no other handle of it is left.\<close>

definition into_closed_mapped :: "bool \<Rightarrow> channel_role \<Rightarrow> ('a duplex, bool) prog" where
  "into_closed_mapped unique r = load (role_at (cr_index r)) (\<lambda>w.
     Ret (role_owner w = None \<and> role_terminal w \<and> unique))"

section \<open>Closing\<close>

datatype channel_close_error = Close_Busy | Close_Evidence

primrec close_role_loop :: "bool list \<Rightarrow> channel_role \<Rightarrow> usize \<Rightarrow> ('a duplex, (bool, channel_close_error) result) prog" where
  "close_role_loop [] r raw = Spin"
| "close_role_loop (b # bs) r raw =
     (if role_generation raw \<noteq> cr_generation r \<or> role_owner raw \<noteq> Some (cr_owner r) then
        (if role_terminal raw \<and> role_owner raw = None then Ret (Ok False) else Ret (Err Close_Busy))
      else if role_terminal raw then Ret (Ok True)
      else case role_new (role_generation raw) (role_owner raw) True of None \<Rightarrow> Panic | Some closing \<Rightarrow>
        compare_exchange_weak b (role_at (cr_index r)) (set_role (cr_index r)) raw closing (\<lambda>res. case res of
          Ok _ \<Rightarrow> Ret (Ok True) | Err observed \<Rightarrow> close_role_loop bs r observed))"

text \<open>Empties one direction; the queue keeps a claim whose payload cannot be released.\<close>

primrec drain ::
    "nat \<Rightarrow> channel_role \<Rightarrow> nat \<Rightarrow> ('a \<Rightarrow> ('w, bool) prog) \<Rightarrow> ('a duplex \<times> 'w, (unit, channel_close_error) result) prog" where
  "drain 0 r dir release = Spin"
| "drain (Suc fuel) r dir release =
     bind (in_duplex (in_ring dir (claim (route_view r dir)))) (\<lambda>res. case res of
       Ok c \<Rightarrow> bind (in_duplex (in_ring dir (item c))) (\<lambda>x.
         bind (in_rest (release (the x))) (\<lambda>released.
         if \<not> released then Ret (Err Close_Evidence)
         else bind (in_duplex (in_ring dir (take_claim c))) (\<lambda>_. drain fuel r dir release)))
     | Err Empty \<Rightarrow> Ret (Ok ())
     | Err _ \<Rightarrow> Ret (Err Close_Busy))"

definition drained :: "channel_role \<Rightarrow> nat \<Rightarrow> ('a duplex, bool) prog" where
  "drained r dir = bind (in_ring dir (send_closed (route_view r dir))) (\<lambda>closed.
     if \<not> closed then Ret False else in_ring dir is_empty)"

definition close_direction ::
    "nat \<Rightarrow> channel_role \<Rightarrow> nat \<Rightarrow> ('a \<Rightarrow> ('w, bool) prog) \<Rightarrow> ('a duplex \<times> 'w, (unit, channel_close_error) result) prog" where
  "close_direction fuel r dir release = attempt (drain fuel r dir release) (\<lambda>_.
     bind (in_duplex (drained r dir)) (\<lambda>ok. Ret (if ok then Ok () else Err Close_Busy)))"

definition close_receiver :: "channel_role \<Rightarrow> nat \<Rightarrow> ('a duplex, (unit, channel_close_error) result) prog" where
  "close_receiver r dir = in_ring dir (bind (close_recv (route_view r dir)) (\<lambda>_.
     bind (recv_closed (route_view r dir)) (\<lambda>closed. Ret (if closed then Ok () else Err Close_Busy))))"

definition close_finish :: "channel_role \<Rightarrow> ('a duplex, (unit, channel_close_error) result) prog" where
  "close_finish r = (case role_new (cr_generation r) (Some (cr_owner r)) True of None \<Rightarrow> Panic | Some owned_word \<Rightarrow>
     case role_new (cr_generation r) None True of None \<Rightarrow> Panic | Some terminal_word \<Rightarrow>
     compare_exchange (role_at (cr_index r)) (set_role (cr_index r)) owned_word terminal_word (\<lambda>res. case res of
       Ok _ \<Rightarrow> Ret (Ok ())
     | Err observed \<Rightarrow> Ret (if role_terminal observed \<and> role_owner observed = None then Ok () else Err Close_Busy)))"

definition close_with ::
    "bool list \<Rightarrow> nat \<Rightarrow> channel_role \<Rightarrow> ('a \<Rightarrow> ('w, bool) prog) \<Rightarrow> ('a duplex \<times> 'w, (unit, channel_close_error) result) prog" where
  "close_with bs fuel r release =
     attempt (in_duplex (load (role_at (cr_index r)) (close_role_loop bs r))) (\<lambda>go.
     if \<not> go then Ret (Ok ())
     else
       bind (in_duplex (in_ring 0 (close_send (route_view r 0)))) (\<lambda>_.
       bind (in_duplex (in_ring 1 (close_send (route_view r 1)))) (\<lambda>_.
       attempt (close_direction fuel r 0 release) (\<lambda>_.
       attempt (close_direction fuel r 1 release) (\<lambda>_.
       attempt (in_duplex (close_receiver r 0)) (\<lambda>_.
       attempt (in_duplex (close_receiver r 1)) (\<lambda>_.
       in_duplex (close_finish r))))))))"

section \<open>Sending and receiving\<close>

text \<open>An end of a channel: the role and the direction. A transmitter sends on its own, a receiver on the other.\<close>

definition split_channel :: "channel_role \<Rightarrow> (channel_role \<times> nat) \<times> (channel_role \<times> nat)" where
  "split_channel r = ((r, cr_index r), (r, 1 - cr_index r))"

abbreviation endpoint_view :: "channel_role \<times> nat \<Rightarrow> view" where
  "endpoint_view e \<equiv> route_view (fst e) (snd e)"

abbreviation on_ring :: "channel_role \<times> nat \<Rightarrow> ('a queue, 'r) prog \<Rightarrow> ('a duplex \<times> 'w, 'r) prog" where
  "on_ring e p \<equiv> in_duplex (in_ring (snd e) p)"

datatype 't try_send_error = Send_Full 't | Send_Busy 't | Send_Disconnected 't

record 'h transfer =
  tr_allocation :: allocation
  tr_token :: "'h token"

definition tx_reserve :: "channel_role \<times> nat \<Rightarrow> ('a duplex \<times> 'w, (nat, reserve_error) result) prog" where
  "tx_reserve e = on_ring e (reserve (endpoint_view e))"

definition transfer_stage ::
    "channel_role \<times> nat \<Rightarrow> nat \<Rightarrow> 'h transfer \<Rightarrow> ('h token duplex \<times> 'w, unit) prog" where
  "transfer_stage e i t = on_ring e (stage i (tr_token t))"

definition transfer_publish ::
    "pool_ref \<Rightarrow> channel_role \<times> nat \<Rightarrow> nat \<Rightarrow> 'h transfer \<Rightarrow> ('h token duplex \<times> 'v pool_store, unit) prog" where
  "transfer_publish pr e i t = bind (in_rest (detach pr (tr_allocation t))) (\<lambda>(res, _).
     if is_ok res then on_ring e (publish i) else Panic)"

definition transfer_cancel ::
    "channel_role \<times> nat \<Rightarrow> nat \<Rightarrow> 'h transfer \<Rightarrow> ('h token duplex \<times> 'w, 'h transfer) prog" where
  "transfer_cancel e i t = bind (on_ring e (cancel i)) (\<lambda>x. Ret (t\<lparr>tr_token := the x\<rparr>))"

definition try_send ::
    "pool_ref \<Rightarrow> channel_role \<times> nat \<Rightarrow> 'h transfer \<Rightarrow>
     ('h token duplex \<times> 'v pool_store, (unit, 'h transfer try_send_error) result) prog" where
  "try_send pr e t = bind (tx_reserve e) (\<lambda>res. case res of
     Ok i \<Rightarrow> bind (transfer_stage e i t) (\<lambda>_. bind (transfer_publish pr e i t) (\<lambda>_. Ret (Ok ())))
   | Err Reserve_Closed \<Rightarrow> Ret (Err (Send_Disconnected t))
   | Err Full \<Rightarrow> Ret (Err (Send_Full t))
   | Err Reserve_Busy \<Rightarrow> Ret (Err (Send_Busy t)))"

definition tx_close :: "channel_role \<times> nat \<Rightarrow> ('a duplex \<times> 'w, unit) prog" where
  "tx_close e = on_ring e (close_send (endpoint_view e))"

definition tx_is_close :: "channel_role \<times> nat \<Rightarrow> ('a duplex \<times> 'w, bool) prog" where
  "tx_is_close e = on_ring e (load (field_state (send_field (endpoint_view e))) (\<lambda>s. Ret (s \<noteq> 0)))"

datatype receive_error = Receive_Empty | Receive_Busy | Receive_Closed

definition rx_claim :: "channel_role \<times> nat \<Rightarrow> ('a duplex \<times> 'w, (claimed, receive_error) result) prog" where
  "rx_claim e = bind (on_ring e (claim (endpoint_view e))) (\<lambda>res. case res of
     Ok c \<Rightarrow> Ret (Ok c)
   | Err Empty \<Rightarrow> bind (on_ring e (terminal (endpoint_view e))) (\<lambda>t.
       Ret (Err (if t then Receive_Closed else Receive_Empty)))
   | Err Claim_Busy \<Rightarrow> Ret (Err Receive_Busy)
   | Err Claim_Closed \<Rightarrow> Ret (Err Receive_Closed))"

definition rx_close :: "channel_role \<times> nat \<Rightarrow> ('a duplex \<times> 'w, unit) prog" where
  "rx_close e = on_ring e (close_recv (endpoint_view e))"

definition rx_is_close :: "channel_role \<times> nat \<Rightarrow> ('a duplex \<times> 'w, bool) prog" where
  "rx_is_close e = on_ring e (load (field_state (recv_field (endpoint_view e))) (\<lambda>s. Ret (s \<noteq> 0)))"

text \<open>
  A received claim is kept by every failed adoption, and by a dropped \<open>Received\<close>: it does nothing to the queue.
\<close>

definition received_adopt ::
    "pool_ref \<Rightarrow> channel_role \<times> nat \<Rightarrow> claimed \<Rightarrow> schema_key \<Rightarrow> schema_key \<Rightarrow> shape \<Rightarrow>
     ('h token duplex \<times> 'v pool_store, ('h \<times> allocation \<times> pointer \<times> metadata, adopt_error) result) prog" where
  "received_adopt pr e c protocol payload sh = bind (on_ring e (item c)) (\<lambda>x.
     bind (in_rest (adopt_id pr (tok (the x)) (type_id_for protocol payload) sh)) (\<lambda>res. case res of
       Err er \<Rightarrow> Ret (Err er)
     | Ok block \<Rightarrow> bind (on_ring e (take_claim c)) (\<lambda>y. Ret (Ok (tok_header (the y), block)))))"

definition received_discard ::
    "pool_ref \<Rightarrow> channel_role \<times> nat \<Rightarrow> claimed \<Rightarrow> ('h token duplex \<times> 'v pool_store, ('h, adopt_error) result) prog" where
  "received_discard pr e c = bind (on_ring e (item c)) (\<lambda>x.
     bind (in_rest (takeover pr (tok (the x)))) (\<lambda>res. case res of
       Err er \<Rightarrow> Ret (Err er)
     | Ok a \<Rightarrow> bind (on_ring e (take_claim c)) (\<lambda>y. bind (in_rest (drop_allocation pr a)) (\<lambda>_. Ret (Ok (tok_header (the y)))))))"

definition received_type_id :: "channel_role \<times> nat \<Rightarrow> claimed \<Rightarrow> ('h token duplex \<times> 'w, type_id) prog" where
  "received_type_id e c = bind (on_ring e (item c)) (\<lambda>x. Ret (tok_id (tok (the x))))"

definition received_admit ::
    "pool_ref \<Rightarrow> channel_role \<times> nat \<Rightarrow> claimed \<Rightarrow> schema_key \<Rightarrow> schema_key \<Rightarrow> shape \<Rightarrow>
     ('h token duplex \<times> 'v pool_store, (allocation \<times> pointer \<times> metadata, adopt_error) result) prog" where
  "received_admit pr e c expected payload sh = bind (on_ring e (item c)) (\<lambda>x.
     bind (in_rest (adopt_id pr (tok (the x)) (encoded_id payload expected) sh)) (\<lambda>res. case res of
       Err er \<Rightarrow> Ret (Err er)
     | Ok block \<Rightarrow> bind (on_ring e (take_claim c)) (\<lambda>_. Ret (Ok block))))"

end
