(* ===== verification/Notify.thy ===== *)
theory Notify
  imports Channel
begin

text \<open>
  Advisory notification, after \<open>src/notify.rs\<close>. The adapters that notify and wait belong to the application, so they are
  programs that the operations are given; the bounded retry of the asynchronous operations is written out, and the number
  of times they may go to sleep is the fuel.
\<close>

section \<open>Committed operations\<close>

abbreviation LOCAL_RETRY_LIMIT :: nat where "LOCAL_RETRY_LIMIT \<equiv> 32"

record ('v, 'e) committed =
  cm_value :: 'v
  cm_notified :: "(unit, 'e) result"

datatype 'e progress_error = Progress_Busy | Progress_Closed | Progress_Wait 'e

type_synonym ('s, 'e) adapter = "('s, (unit, 'e) result) prog"

text \<open>\<open>Notify for ()\<close>: nothing to notify.\<close>

definition no_notify :: "('s, 'e) adapter" where
  "no_notify = Ret (Ok ())"

definition commit_notify :: "('s, 'e) adapter \<Rightarrow> 'v \<Rightarrow> ('s, ('v, 'e) committed) prog" where
  "commit_notify notify v = bind notify (\<lambda>r. Ret \<lparr>cm_value = v, cm_notified = r\<rparr>)"

definition committed_result ::
    "('s, 'e) adapter \<Rightarrow> ('s, ('v, 'f) result) prog \<Rightarrow> ('s, (('v, 'e) committed, 'f) result) prog" where
  "committed_result notify p = bind p (\<lambda>r. case r of
     Err e \<Rightarrow> Ret (Err e) | Ok v \<Rightarrow> bind (commit_notify notify v) (\<lambda>c. Ret (Ok c)))"

definition signals_try_send ::
    "('h token duplex \<times> 'v pool_store, 'e) adapter \<Rightarrow> pool_ref \<Rightarrow> channel_role \<times> nat \<Rightarrow> 'h transfer \<Rightarrow>
     ('h token duplex \<times> 'v pool_store, ((unit, 'e) committed, 'h transfer try_send_error) result) prog" where
  "signals_try_send notify pr e t = committed_result notify (try_send pr e t)"

section \<open>Bounded retries\<close>

text \<open>
  One round of the loop of \<open>Signals::reserve\<close>, from a number of attempts that are left: \<open>None\<close> is a full queue,
  for which the caller sleeps and starts counting again.
\<close>

primrec reserve_round ::
    "nat \<Rightarrow> channel_role \<times> nat \<Rightarrow> ('a duplex \<times> 'w, (nat, 'e progress_error) result option) prog" where
  "reserve_round 0 e = Ret (Some (Err Progress_Busy))"
| "reserve_round (Suc left) e = bind (tx_reserve e) (\<lambda>res. case res of
     Ok i \<Rightarrow> Ret (Some (Ok i))
   | Err Reserve_Closed \<Rightarrow> Ret (Some (Err Progress_Closed))
   | Err Reserve_Busy \<Rightarrow> if left = 0 then Ret (Some (Err Progress_Busy)) else reserve_round left e
   | Err Full \<Rightarrow> Ret None)"

primrec signals_reserve ::
    "nat \<Rightarrow> ('a duplex \<times> 'w, 'e) adapter \<Rightarrow> channel_role \<times> nat \<Rightarrow> ('a duplex \<times> 'w, (nat, 'e progress_error) result) prog" where
  "signals_reserve 0 wait e = Spin"
| "signals_reserve (Suc sleeps) wait e = bind (reserve_round LOCAL_RETRY_LIMIT e) (\<lambda>res. case res of
     Some r \<Rightarrow> Ret r
   | None \<Rightarrow> bind wait (\<lambda>w. case w of
       Err er \<Rightarrow> Ret (Err (Progress_Wait er)) | Ok _ \<Rightarrow> signals_reserve sleeps wait e))"

primrec claim_round ::
    "nat \<Rightarrow> channel_role \<times> nat \<Rightarrow> ('a duplex \<times> 'w, (claimed, 'e progress_error) result option) prog" where
  "claim_round 0 e = Ret (Some (Err Progress_Busy))"
| "claim_round (Suc left) e = bind (rx_claim e) (\<lambda>res. case res of
     Ok c \<Rightarrow> Ret (Some (Ok c))
   | Err Receive_Closed \<Rightarrow> Ret (Some (Err Progress_Closed))
   | Err Receive_Busy \<Rightarrow> if left = 0 then Ret (Some (Err Progress_Busy)) else claim_round left e
   | Err Receive_Empty \<Rightarrow> Ret None)"

primrec signals_claim ::
    "nat \<Rightarrow> ('a duplex \<times> 'w, 'e) adapter \<Rightarrow> channel_role \<times> nat \<Rightarrow> ('a duplex \<times> 'w, (claimed, 'e progress_error) result) prog" where
  "signals_claim 0 wait e = Spin"
| "signals_claim (Suc sleeps) wait e = bind (claim_round LOCAL_RETRY_LIMIT e) (\<lambda>res. case res of
     Some r \<Rightarrow> Ret r
   | None \<Rightarrow> bind wait (\<lambda>w. case w of
       Err er \<Rightarrow> Ret (Err (Progress_Wait er)) | Ok _ \<Rightarrow> signals_claim sleeps wait e))"

section \<open>Operations that notify\<close>

definition signals_adopt ::
    "('h token duplex \<times> 'v pool_store, 'e) adapter \<Rightarrow> pool_ref \<Rightarrow> channel_role \<times> nat \<Rightarrow> claimed \<Rightarrow> schema_key \<Rightarrow>
     schema_key \<Rightarrow> shape \<Rightarrow>
     ('h token duplex \<times> 'v pool_store, (('h \<times> allocation \<times> pointer \<times> metadata, 'e) committed, adopt_error) result) prog" where
  "signals_adopt notify pr e c protocol payload sh = committed_result notify (received_adopt pr e c protocol payload sh)"

definition signals_admit ::
    "('h token duplex \<times> 'v pool_store, 'e) adapter \<Rightarrow> pool_ref \<Rightarrow> channel_role \<times> nat \<Rightarrow> claimed \<Rightarrow> schema_key \<Rightarrow>
     schema_key \<Rightarrow> shape \<Rightarrow>
     ('h token duplex \<times> 'v pool_store, ((allocation \<times> pointer \<times> metadata, 'e) committed, adopt_error) result) prog" where
  "signals_admit notify pr e c expected payload sh = committed_result notify (received_admit pr e c expected payload sh)"

definition signals_discard ::
    "('h token duplex \<times> 'v pool_store, 'e) adapter \<Rightarrow> pool_ref \<Rightarrow> channel_role \<times> nat \<Rightarrow> claimed \<Rightarrow>
     ('h token duplex \<times> 'v pool_store, (('h, 'e) committed, adopt_error) result) prog" where
  "signals_discard notify pr e c = committed_result notify (received_discard pr e c)"

definition signals_close_tx ::
    "('a duplex \<times> 'w, 'e) adapter \<Rightarrow> channel_role \<times> nat \<Rightarrow> ('a duplex \<times> 'w, (unit, 'e) committed) prog" where
  "signals_close_tx notify e = bind (tx_close e) (\<lambda>_. commit_notify notify ())"

definition signals_close_rx ::
    "('a duplex \<times> 'w, 'e) adapter \<Rightarrow> channel_role \<times> nat \<Rightarrow> ('a duplex \<times> 'w, (unit, 'e) committed) prog" where
  "signals_close_rx notify e = bind (rx_close e) (\<lambda>_. commit_notify notify ())"

section \<open>Permits\<close>

text \<open>A permit is the slot that was reserved; dropping it cancels the reservation and notifies.\<close>

definition permit_send ::
    "('h token duplex \<times> 'v pool_store, 'e) adapter \<Rightarrow> pool_ref \<Rightarrow> channel_role \<times> nat \<Rightarrow> nat \<Rightarrow> 'h transfer \<Rightarrow>
     ('h token duplex \<times> 'v pool_store, (unit, 'e) committed) prog" where
  "permit_send notify pr e i t = bind (transfer_stage e i t) (\<lambda>_.
     bind (transfer_publish pr e i t) (\<lambda>_. commit_notify notify ()))"

definition permit_rollback :: "channel_role \<times> nat \<Rightarrow> nat \<Rightarrow> ('a duplex \<times> 'w, unit) prog" where
  "permit_rollback e i = on_ring e (drop_reserved False i)"

definition permit_cancel ::
    "('a duplex \<times> 'w, 'e) adapter \<Rightarrow> channel_role \<times> nat \<Rightarrow> nat \<Rightarrow> ('a duplex \<times> 'w, (unit, 'e) committed) prog" where
  "permit_cancel notify e i = bind (permit_rollback e i) (\<lambda>_. commit_notify notify ())"

definition drop_permit :: "('a duplex \<times> 'w, 'e) adapter \<Rightarrow> channel_role \<times> nat \<Rightarrow> nat \<Rightarrow> ('a duplex \<times> 'w, unit) prog" where
  "drop_permit notify e i = bind (permit_rollback e i) (\<lambda>_. bind notify (\<lambda>_. Ret ()))"

end
