(* ===== verification/Dir_Transactions.thy ===== *)
theory Dir_Transactions
  imports Directory
begin

text \<open>
  The transactions of the directory in \<open>src/dir.rs\<close>: creation, removal and growth, and the recovery of each of them. A
  value that a function returns early with \<open>?\<close> drops what the function holds: an uncommitted mutation
  poisons the heap, and a transaction with evidence starts to roll back.
\<close>

abbreviation in_commit :: "(('i, 'b) space, unit) prog" where
  "in_commit \<equiv> in_talc (mutation_commit (Ret ()))"

abbreviation in_begin :: "dir_handle \<Rightarrow> (('i, 'b) space, (unit, mutation_error) result) prog" where
  "in_begin h \<equiv> in_talc (begin_mutation (dh_heap h))"

abbreviation in_deallocate :: "dir_handle \<Rightarrow> nat option \<Rightarrow> layout \<Rightarrow> (('i, 'b) space, unit) prog" where
  "in_deallocate h p l \<equiv> in_talc (deallocate_during (dh_heap h) p l (Ret ()))"

abbreviation region_offset :: "dir_handle \<Rightarrow> nat \<Rightarrow> nat" where
  "region_offset h addr \<equiv> addr - map_start (rg_map (dh_area h))"

section \<open>Handing a transaction over\<close>

definition tx_transfer :: "dir_handle \<Rightarrow> usize \<Rightarrow> u8 \<Rightarrow> usize \<Rightarrow> (('i, 'b) space, (transaction, dir_error) result) prog" where
  "tx_transfer h word dead phase =
     compare_exchange transaction_word set_transaction word (owner_word (dh_slot h) phase) (\<lambda>r. case r of
       Ok _ \<Rightarrow> Ret (Ok \<lparr>tx_owner = dh_slot h, tx_phase = phase\<rparr>)
     | Err current \<Rightarrow> Ret (Err (Dir_Busy (case word_owner current of None \<Rightarrow> dead | Some own \<Rightarrow> own))))"

definition transfer_and_clear :: "dir_handle \<Rightarrow> usize \<Rightarrow> u8 \<Rightarrow> (('i, 'b) space, (unit, dir_error) result) prog" where
  "transfer_and_clear h word dead = attempt (tx_transfer h word dead HELD) (\<lambda>tx. finish tx (Ok ()))"

definition claim_heap_and_transfer ::
    "dir_handle \<Rightarrow> u8 \<Rightarrow> usize \<Rightarrow> usize \<Rightarrow> (('i, 'b) space, (transaction, dir_error) result) prog" where
  "claim_heap_and_transfer h dead word phase =
     attempt (map_err_prog Dir_Heap (in_begin h)) (\<lambda>_.
     bind (tx_transfer h word dead phase) (\<lambda>r. case r of
       Ok tx \<Rightarrow> Ret (Ok tx) | Err e \<Rightarrow> seq in_commit (Ret (Err e))))"

text \<open>
  \<open>debug_assert!(held.commit())\<close>: without debug assertions the call is not compiled, and the transaction is
  dropped instead.
\<close>

definition quarantine :: "dir_handle \<Rightarrow> usize \<Rightarrow> slab_ref \<times> nat \<Rightarrow> (('i, 'b) space, (recovered, dir_error) result) prog" where
  "quarantine h word e = (case word_owner word of None \<Rightarrow> Ret (Err Dir_Stale) | Some dead \<Rightarrow>
     attempt (tx_transfer h word dead (word_phase word)) (\<lambda>held.
     load (en_state \<circ> ref_entry e) (\<lambda>state.
     store (set_state e (entry_word (drop_bit STATE_BITS state) QUARANTINED))
     (if dh_debug h then bind (tx_commit held) (\<lambda>ok. if ok then Ret (Ok Quarantined) else Panic)
      else seq (drop_transaction held) (Ret (Ok Quarantined))))))"

section \<open>Growth\<close>

definition dir_grow :: "dir_handle \<Rightarrow> transaction \<Rightarrow> (('i, 'b) space, (transaction, dir_error) result) prog" where
  "dir_grow h tx = attempt (dir_tail h) (\<lambda>(tail_index, tail_ref). case checked_add tail_index 1 of
     None \<Rightarrow> Ret (Err Dir_Full)
   | Some slab_index \<Rightarrow>
       attempt (map_err_prog Dir_Heap (in_begin h)) (\<lambda>_.
       bind (in_talc (allocate_during (dh_heap h) slab_layout)) (\<lambda>r. case r of
         Err e \<Rightarrow> seq in_commit (Ret (Err (Dir_Heap e)))
       | Ok m \<Rightarrow>
           let addr = heap_pointer h m in
           store (put_slab (Linked (region_offset h addr)) slab_new)
           (case offset_of (dh_area h) addr (size slab_layout) of
              Ok offset \<Rightarrow> if offset = 0 then Panic else
                bind (persist tx slab_index 0 m GROW) (\<lambda>tx.
                seq in_commit (store (set_next tail_ref (of_nat offset))
                (bind (clear_pending tx) (\<lambda>tx. Ret (Ok tx)))))
            | Err e \<Rightarrow> seq (in_deallocate h (meta_pointer m) slab_layout)
                (seq in_commit (Ret (Err (Dir_Admission e))))))))"

definition recover_growth ::
    "dir_handle \<Rightarrow> u8 \<Rightarrow> usize \<Rightarrow> usize \<Rightarrow> bool \<Rightarrow> (('i, 'b) space, (recovered, dir_error) result) prog" where
  "recover_growth h own word phase dead =
     load (dr_pending_slab \<circ> sp_dir) (\<lambda>slab_index.
     if 2 ^ 32 \<le> unat slab_index then Ret (Err Dir_Stale)
     else case checked_sub (ucast slab_index :: u32) 1 of None \<Rightarrow> Ret (Err Dir_Stale) | Some predecessor \<Rightarrow>
     bind pending (\<lambda>m.
     case offset_of (dh_area h) (heap_pointer h m) (size slab_layout) of Err e \<Rightarrow> Ret (Err (Dir_Admission e)) | Ok offset \<Rightarrow>
     attempt (dir_slab h predecessor) (\<lambda>r.
     load (sl_next \<circ> slab_of r) (\<lambda>link.
     if link = of_nat offset then
       attempt (tx_transfer h word own phase) (\<lambda>tx. clear_and_finish tx (Ok Retained))
     else if link \<noteq> 0 then
       attempt (tx_transfer h word own phase) (\<lambda>tx. clear_and_finish tx (Ok Quarantined))
     else
       seq (if dead then bind (in_talc read_mutation) (\<lambda>st. if st = Is_Owned own
              then bind (in_talc (poison_owner own)) (\<lambda>_. Ret ()) else Ret ()) else Ret ())
       (bind (in_talc read_mutation) (\<lambda>st. case st of
          Is_Clean \<Rightarrow> attempt (claim_heap_and_transfer h own word phase) (\<lambda>tx.
            seq (in_deallocate h (meta_pointer m) slab_layout)
            (bind (clear_pending tx) (\<lambda>tx. seq in_commit (finish tx (Ok Rolled_Back)))))
        | Is_Owned found \<Rightarrow> Ret (Err (Dir_Busy found))
        | Is_Poisoned \<Rightarrow> attempt (tx_transfer h word own phase) (\<lambda>tx. clear_and_finish tx (Ok Quarantined))))))))"

section \<open>Creation\<close>

definition resume_rollback :: "dir_handle \<Rightarrow> u8 \<Rightarrow> (('i, 'b) space, (unit, dir_error) result) prog" where
  "resume_rollback h own =
     (let expected = owner_word own ROLLING_BACK; tx = \<lparr>tx_owner = own, tx_phase = ROLLING_BACK\<rparr> in
      load transaction_word (\<lambda>w. if w \<noteq> expected then Ret (Err (Dir_Busy own)) else
      load (dr_pending_kind \<circ> sp_dir) (\<lambda>kind.
      if kind = GROW then attempt (recover_growth h own expected ROLLING_BACK False) (\<lambda>_. Ret (Ok ()))
      else if kind \<noteq> CREATE then Ret (Err (Dir_Busy own))
      else
        attempt (map_err_prog Dir_Heap (in_begin h)) (\<lambda>_.
        bind pending (\<lambda>m.
        seq (in_deallocate h (meta_pointer m) (meta_layout m))
        (load (dr_pending_slab \<circ> sp_dir) (\<lambda>slab.
         if 2 ^ 32 \<le> unat slab then seq (in_talc (mutation_drop (Ret ()))) (Ret (Err Dir_Stale))
         else load (dr_pending_entry \<circ> sp_dir) (\<lambda>index.
         bind (dir_entry h (ucast slab) (unat index)) (\<lambda>r. case r of
           Err e \<Rightarrow> seq (in_talc (mutation_drop (Ret ()))) (Ret (Err e))
         | Ok e \<Rightarrow> load (en_state \<circ> ref_entry e) (\<lambda>state.
             store (set_state e (push_bit STATE_BITS (saturating_sub (drop_bit STATE_BITS state) 1)))
             (bind (clear_pending tx) (\<lambda>tx. seq in_commit (finish tx (Ok ()))))))))))))))"

definition create_slot ::
    "dir_handle \<Rightarrow> transaction \<Rightarrow> (('i, 'b) space, (transaction \<times> slot_choice, dir_error) result) prog" where
  "create_slot h tx = bind (dir_reserve h) (\<lambda>r. case r of
     Ok c \<Rightarrow> Ret (Ok (tx, c))
   | Err Dir_Full \<Rightarrow> bind (dir_grow h tx) (\<lambda>r. case r of
       Err e \<Rightarrow> finish tx (Err e)
     | Ok tx \<Rightarrow> bind (dir_reserve h) (\<lambda>r. case r of Ok c \<Rightarrow> Ret (Ok (tx, c)) | Err e \<Rightarrow> finish tx (Err e)))
   | Err e \<Rightarrow> finish tx (Err e))"

definition create_publish ::
    "nat \<Rightarrow> dir_handle \<Rightarrow> ('c, 'i, 'b) layout_trait \<Rightarrow> 'c \<Rightarrow> layout \<Rightarrow> transaction \<Rightarrow> slot_choice \<Rightarrow> slab_ref \<times> nat \<Rightarrow>
     nat \<Rightarrow> (('i, 'b) space, (dir_id \<times> mapped, dir_error) result) prog" where
  "create_publish fuel h t conf l tx c e offset =
     bind (in_layout offset (admit_at fuel (dh_area h) t offset conf True)) (\<lambda>r. case r of
       Err error \<Rightarrow> bind (in_begin h) (\<lambda>b. case b of
         Err be \<Rightarrow> seq (drop_transaction tx) (Ret (Err (Dir_Heap be)))
       | Ok _ \<Rightarrow> bind pending (\<lambda>m. seq (in_deallocate h (meta_pointer m) l)
           (store (set_state e (sc_vacant c)) (bind (clear_pending tx) (\<lambda>tx.
             seq in_commit (finish tx (Err (Dir_Admission error))))))))
     | Ok mp \<Rightarrow>
         store (set_offset e (of_nat offset))
         (store (set_state e (entry_word (sc_generation c) PUBLISHED))
         (clear_and_finish tx
           (Ok (id_from_parts (dh_region_id h) (sc_slab c) (of_nat (sc_entry c)) (sc_generation c), mp)))))"

text \<open>\<open>zero\<close> is what a header reads as whose bytes are all zero.\<close>

definition create_entry ::
    "nat \<Rightarrow> dir_handle \<Rightarrow> ('c, 'i, 'b) layout_trait \<Rightarrow> ('i, 'b) rc_header \<Rightarrow> 'c \<Rightarrow> layout \<Rightarrow> transaction \<Rightarrow> slot_choice \<Rightarrow>
     slab_ref \<times> nat \<Rightarrow> (('i, 'b) space, (dir_id \<times> mapped, dir_error) result) prog" where
  "create_entry fuel h t zero conf l tx c e =
     store (set_state e (entry_word (sc_generation c) PENDING))
     (bind (in_begin h) (\<lambda>r. case r of
        Err error \<Rightarrow> store (set_state e (sc_vacant c)) (finish tx (Err (Dir_Heap error)))
      | Ok _ \<Rightarrow> bind (in_talc (allocate_during (dh_heap h) l)) (\<lambda>r. case r of
          Err error \<Rightarrow> seq in_commit (store (set_state e (sc_vacant c)) (finish tx (Err (Dir_Heap error))))
        | Ok m \<Rightarrow>
            let addr = heap_pointer h m in
            store (put_layout (region_offset h addr) zero)
            (case offset_of (dh_area h) addr (size l) of
               Err error \<Rightarrow> seq (in_deallocate h (meta_pointer m) l)
                 (seq in_commit (store (set_state e (sc_vacant c)) (finish tx (Err (Dir_Admission error)))))
             | Ok offset \<Rightarrow>
                 bind (persist tx (sc_slab c) (sc_entry c) m CREATE) (\<lambda>tx.
                 seq in_commit (create_publish fuel h t conf l tx c e offset))))))"

definition create_in ::
    "nat \<Rightarrow> dir_handle \<Rightarrow> ('c, 'i, 'b) layout_trait \<Rightarrow> ('i, 'b) rc_header \<Rightarrow> 'c \<Rightarrow> layout \<Rightarrow>
     (('i, 'b) space, (dir_id \<times> mapped, dir_error) result) prog" where
  "create_in fuel h t zero conf l =
     (if dh_region_id h \<noteq> dh_heap_region h then Ret (Err Dir_Stale)
      else if lt_storage t conf \<noteq> Some l then Ret (Err Dir_Stale)
      else let own = dh_slot h in
      bind (dir_claim own) (\<lambda>r. case r of
        Err (Dir_Busy busy) \<Rightarrow>
          if busy = own then
            load transaction_word (\<lambda>w. if w = owner_word own ROLLING_BACK
              then attempt (resume_rollback h own) (\<lambda>_. Ret (Err Dir_RolledBack))
              else Ret (Err (Dir_Busy busy)))
          else Ret (Err (Dir_Busy busy))
      | Err e \<Rightarrow> Ret (Err e)
      | Ok tx \<Rightarrow>
          attempt (create_slot h tx) (\<lambda>(tx, c).
          bind (dir_entry h (sc_slab c) (sc_entry c)) (\<lambda>r. case r of
            Err e \<Rightarrow> finish tx (Err e)
          | Ok e \<Rightarrow> create_entry fuel h t zero conf l tx c e))))"

section \<open>Removal\<close>

definition remove_entry ::
    "dir_handle \<Rightarrow> dir_id \<Rightarrow> mapped \<Rightarrow> layout \<Rightarrow> transaction \<Rightarrow> meta \<Rightarrow> slab_ref \<times> nat \<Rightarrow>
     (('i, 'b) space, (unit, dir_error) result) prog" where
  "remove_entry h i mp l tx m e =
     store (set_state e (entry_word (id_generation i) CLOSING))
     (bind (persist tx (id_slab i) (unat (id_entry i)) m REMOVE) (\<lambda>tx.
      bind (in_layout (mp_offset mp) (close_unique (dh_slot h))) (\<lambda>r. case r of
        Err error \<Rightarrow> store (set_state e (entry_word (id_generation i) PUBLISHED))
          (bind (clear_pending tx) (\<lambda>tx. seq in_commit (finish tx (Err (Dir_Close error)))))
      | Ok _ \<Rightarrow>
          store (set_state e (entry_word (id_generation i) REMOVING))
          (seq (in_deallocate h (Some (map_start (rg_map (mp_region mp)) + mp_offset mp - th_base (dh_heap h))) l)
          (store (set_state e (entry_word (id_generation i) RELEASED))
          (seq in_commit
          (store (set_state e (push_bit STATE_BITS (id_generation i)))
          (clear_and_finish tx (Ok ())))))))))"

definition remove_in ::
    "dir_handle \<Rightarrow> ('c, 'i, 'b) layout_trait \<Rightarrow> dir_id \<Rightarrow> mapped \<Rightarrow> layout \<Rightarrow>
     (('i, 'b) space, (unit, dir_error) result) prog" where
  "remove_in h t i mp l =
     (let header = lt_header_layout t in
      if dh_region_id h \<noteq> dh_heap_region h then Ret (Err Dir_Stale)
      else if size l < size header \<or> align l < align header then Ret (Err Dir_Stale)
      else attempt (dir_offset h i) (\<lambda>offset.
        if rg_id (mp_region mp) \<noteq> dh_region_id h then Ret (Err Dir_Stale)
        else bind (in_layout (mp_offset mp) header_layout_id) (\<lambda>lid.
        if lid_offset lid \<noteq> of_nat offset then Ret (Err Dir_Stale)
        else attempt (dir_claim (dh_slot h)) (\<lambda>tx.
        bind (dir_entry h (id_slab i) (unat (id_entry i))) (\<lambda>r. case r of
          Err e \<Rightarrow> finish tx (Err e)
        | Ok e \<Rightarrow> load (en_state \<circ> ref_entry e) (\<lambda>state.
            if state \<noteq> entry_word (id_generation i) PUBLISHED then finish tx (Err Dir_Stale)
            else case meta_for (dh_heap h) (dh_info h) (map_start (rg_map (mp_region mp)) + mp_offset mp) (size l) of
              None \<Rightarrow> finish tx (Err Dir_Stale)
            | Some m \<Rightarrow> bind (in_begin h) (\<lambda>r. case r of
                Err error \<Rightarrow> finish tx (Err (Dir_Heap error))
              | Ok _ \<Rightarrow> remove_entry h i mp l tx m e)))))))"

section \<open>Recovery\<close>

definition has_evidence :: "usize \<Rightarrow> bool" where
  "has_evidence phase \<longleftrightarrow> phase = EVIDENCE \<or> phase = ROLLING_BACK"

text \<open>The ends of \<open>recover\<close> for a removal that completes and for a creation that is undone.\<close>

definition release_entry ::
    "dir_handle \<Rightarrow> transaction \<Rightarrow> slab_ref \<times> nat \<Rightarrow> usize \<Rightarrow> (('i, 'b) space, (recovered, dir_error) result) prog" where
  "release_entry h tx e generation = bind pending (\<lambda>m.
     seq (in_deallocate h (meta_pointer m) (meta_layout m))
     (store (set_state e (entry_word generation RELEASED))
     (seq in_commit
     (store (set_state e (push_bit STATE_BITS generation)) (clear_and_finish tx (Ok Released))))))"

definition undo_entry ::
    "dir_handle \<Rightarrow> transaction \<Rightarrow> slab_ref \<times> nat \<Rightarrow> usize \<Rightarrow> (('i, 'b) space, (recovered, dir_error) result) prog" where
  "undo_entry h tx e generation = bind pending (\<lambda>m.
     seq (in_deallocate h (meta_pointer m) (meta_layout m))
     (store (set_state e (push_bit STATE_BITS (generation - 1)))
     (bind (clear_pending tx) (\<lambda>tx. seq in_commit (finish tx (Ok Rolled_Back))))))"

text \<open>The heap is not free of the dead participant: someone else has it, or it is poisoned.\<close>

definition heap_held ::
    "dir_handle \<Rightarrow> usize \<Rightarrow> slab_ref \<times> nat \<Rightarrow> (('i, 'b) space, (recovered, dir_error) result) prog" where
  "heap_held h word e = bind (in_talc read_mutation) (\<lambda>st. case st of
     Is_Owned own \<Rightarrow> Ret (Err (Dir_Busy own))
   | Is_Poisoned \<Rightarrow> quarantine h word e
   | Is_Clean \<Rightarrow> Panic)"

definition recover_closing ::
    "dir_handle \<Rightarrow> u8 \<Rightarrow> usize \<Rightarrow> usize \<Rightarrow> slab_ref \<times> nat \<Rightarrow> usize \<Rightarrow> (('i, 'b) space, (recovered, dir_error) result) prog" where
  "recover_closing h dead word phase e generation =
     bind (in_talc (clear_dead_owner dead)) (\<lambda>cleared. if \<not> cleared then heap_held h word e else
     bind pending (\<lambda>m.
     bind (in_layout (region_offset h (heap_pointer h m)) closed_at) (\<lambda>closed.
     if \<not> closed then
       attempt (tx_transfer h word dead phase) (\<lambda>tx.
       store (set_state e (entry_word generation PUBLISHED)) (clear_and_finish tx (Ok Rolled_Back)))
     else attempt (claim_heap_and_transfer h dead word phase) (\<lambda>tx. release_entry h tx e generation))))"

definition recover_released ::
    "dir_handle \<Rightarrow> u8 \<Rightarrow> usize \<Rightarrow> usize \<Rightarrow> slab_ref \<times> nat \<Rightarrow> usize \<Rightarrow> (('i, 'b) space, (recovered, dir_error) result) prog" where
  "recover_released h dead word phase e generation =
     bind (in_talc (clear_dead_owner dead)) (\<lambda>cleared. if \<not> cleared then heap_held h word e else
     attempt (tx_transfer h word dead phase) (\<lambda>tx.
     store (set_state e (push_bit STATE_BITS generation)) (clear_and_finish tx (Ok Released))))"

definition recover_vacant ::
    "dir_handle \<Rightarrow> u8 \<Rightarrow> usize \<Rightarrow> usize \<Rightarrow> (('i, 'b) space, (recovered, dir_error) result) prog" where
  "recover_vacant h dead word phase = bind (in_talc read_mutation) (\<lambda>st.
     let go = attempt (tx_transfer h word dead phase) (\<lambda>tx. clear_and_finish tx (Ok Released)) in
     case st of Is_Owned own \<Rightarrow> if own \<noteq> dead then Ret (Err (Dir_Busy own)) else go | _ \<Rightarrow> go)"

definition recover_pending ::
    "dir_handle \<Rightarrow> u8 \<Rightarrow> usize \<Rightarrow> usize \<Rightarrow> slab_ref \<times> nat \<Rightarrow> usize \<Rightarrow> (('i, 'b) space, (recovered, dir_error) result) prog" where
  "recover_pending h dead word phase e generation =
     (if generation = 0 then quarantine h word e
      else attempt (tx_transfer h word dead phase) (\<lambda>tx.
        store (set_state e (push_bit STATE_BITS (generation - 1))) (finish tx (Ok Rolled_Back))))"

definition poison_dead :: "u8 \<Rightarrow> (('i, 'b) space, unit) prog" where
  "poison_dead dead = bind (in_talc read_mutation) (\<lambda>st.
     if st = Is_Owned dead then bind (in_talc (poison_owner dead)) (\<lambda>_. Ret ()) else Ret ())"

definition recover_entry ::
    "dir_handle \<Rightarrow> u8 \<Rightarrow> usize \<Rightarrow> usize \<Rightarrow> usize \<Rightarrow> slab_ref \<times> nat \<Rightarrow> usize \<Rightarrow>
     (('i, 'b) space, (recovered, dir_error) result) prog" where
  "recover_entry h dead word phase kind e word' =
     (let generation = drop_bit STATE_BITS word'; state = word' AND STATE_MASK; evident = has_evidence phase in
      if kind = REMOVE \<and> state = CLOSING \<and> evident then recover_closing h dead word phase e generation
      else if kind = REMOVE \<and> state = RELEASED \<and> evident then recover_released h dead word phase e generation
      else if kind = REMOVE \<and> state = VACANT \<and> evident then recover_vacant h dead word phase
      else seq (poison_dead dead)
        (let creating = (kind = CREATE \<and> state = PENDING \<and> evident);
             removing = (kind = REMOVE \<and> state = REMOVING \<and> evident);
             act = (if state = PENDING \<and> phase = HELD then recover_pending h dead word phase e generation
               else if creating then
                 (if generation = 0 then quarantine h word e
                  else attempt (claim_heap_and_transfer h dead word phase) (\<lambda>tx. undo_entry h tx e generation))
               else if removing then
                 attempt (claim_heap_and_transfer h dead word phase) (\<lambda>tx. release_entry h tx e generation)
               else quarantine h word e) in
         if creating \<or> removing then
           bind (in_talc read_mutation) (\<lambda>st. case st of
             Is_Owned own \<Rightarrow> Ret (Err (Dir_Busy own))
           | Is_Poisoned \<Rightarrow> quarantine h word e
           | Is_Clean \<Rightarrow> act)
         else act))"

definition recover_nowhere :: "dir_handle \<Rightarrow> u8 \<Rightarrow> usize \<Rightarrow> usize \<Rightarrow> (('i, 'b) space, (recovered, dir_error) result) prog" where
  "recover_nowhere h dead word phase =
     (if phase \<noteq> HELD then Ret (Err Dir_Stale)
      else bind (in_talc read_mutation) (\<lambda>st.
        if st = Is_Owned dead then
          bind (in_talc (poison_owner dead)) (\<lambda>_.
          attempt (transfer_and_clear h word dead) (\<lambda>_. Ret (Ok Quarantined)))
        else attempt (transfer_and_clear h word dead) (\<lambda>_. Ret (Ok Rolled_Back))))"

definition dir_recover :: "dir_handle \<Rightarrow> u8 \<Rightarrow> (('i, 'b) space, (recovered, dir_error) result) prog" where
  "dir_recover h dead =
     (if dh_region_id h \<noteq> dh_heap_region h then Ret (Err Dir_Stale)
      else load transaction_word (\<lambda>word.
        if word = TX_CLEAN then Ret (Err Dir_Stale)
        else if busy_owner word \<noteq> dead then Ret (Err (Dir_Busy (busy_owner word)))
        else
          let phase = word_phase word in
          load (dr_pending_kind \<circ> sp_dir) (\<lambda>kind.
          if has_evidence phase \<and> kind = GROW then recover_growth h dead word phase True
          else attempt (if has_evidence phase then
              load (dr_pending_slab \<circ> sp_dir) (\<lambda>slab. load (dr_pending_entry \<circ> sp_dir) (\<lambda>index.
                Ret (Ok (Some (ucast slab, unat index)))))
            else dir_transition h) (\<lambda>location. case location of
              None \<Rightarrow> recover_nowhere h dead word phase
            | Some (slab, index) \<Rightarrow> attempt (dir_entry h slab index) (\<lambda>e.
                load (en_state \<circ> ref_entry e) (\<lambda>state. recover_entry h dead word phase kind e state))))))"

end
