(* ===== verification/Session.thy ===== *)
theory Session
  imports Dir_Transactions Channel
begin

text \<open>
  Sessions, after \<open>src/session.rs\<close>: the composition of a region out of its root, its directory and its heap, channels
  created, adopted and removed through the directory, and the reaping of a dead participant.
\<close>

section \<open>The state of a region\<close>

text \<open>
  The three headers that every region has, with the slabs and layouts behind them. The directory works on the bodies
  of its own header and of the heap's.
\<close>

record ('i, 'b) session_space =
  ss_root :: "(unit, root) rc_header"
  ss_dir :: "(unit, directory) rc_header"
  ss_heap :: "(talc_info, talck) rc_header"
  ss_slabs :: "nat \<Rightarrow> slab"
  ss_layouts :: "nat \<Rightarrow> ('i, 'b) rc_header"

definition space_of :: "('i, 'b) session_space \<Rightarrow> ('i, 'b) space" where
  "space_of s = \<lparr>sp_dir = hd_inner (ss_dir s), sp_heap = hd_inner (ss_heap s), sp_slabs = ss_slabs s, sp_layouts = ss_layouts s\<rparr>"

definition put_space :: "('i, 'b) space \<Rightarrow> ('i, 'b) session_space \<Rightarrow> ('i, 'b) session_space" where
  "put_space p s = s\<lparr>ss_dir := (ss_dir s)\<lparr>hd_inner := sp_dir p\<rparr>, ss_heap := (ss_heap s)\<lparr>hd_inner := sp_heap p\<rparr>,
     ss_slabs := sp_slabs p, ss_layouts := sp_layouts p\<rparr>"

abbreviation in_space :: "(('i, 'b) space, 'a) prog \<Rightarrow> (('i, 'b) session_space, 'a) prog" where
  "in_space \<equiv> within space_of put_space"

abbreviation in_session_root :: "((unit, root) rc_header, 'a) prog \<Rightarrow> (('i, 'b) session_space, 'a) prog" where
  "in_session_root \<equiv> within ss_root (\<lambda>h s. s\<lparr>ss_root := h\<rparr>)"

abbreviation in_session_dir :: "((unit, directory) rc_header, 'a) prog \<Rightarrow> (('i, 'b) session_space, 'a) prog" where
  "in_session_dir \<equiv> within ss_dir (\<lambda>h s. s\<lparr>ss_dir := h\<rparr>)"

abbreviation in_session_heap :: "((talc_info, talck) rc_header, 'a) prog \<Rightarrow> (('i, 'b) session_space, 'a) prog" where
  "in_session_heap \<equiv> within ss_heap (\<lambda>h s. s\<lparr>ss_heap := h\<rparr>)"

section \<open>Opening a session\<close>

datatype 'e session_error =
    Session_Source 'e | Session_PermissionDenied u8 | InsufficientSpace nat nat | Session_Busy | Session_Closed
  | Session_DuplicateAttachment | Session_InvalidHeader | Session_LayoutMismatch layout_field | Session_Poisoned
  | Session_Overflow | Session_ParticipantExhausted

primrec session_admission :: "mem_error \<Rightarrow> 'e session_error" where
  "session_admission (PermissionDenied a) = Session_PermissionDenied a"
| "session_admission (UnenoughSpace r a) = InsufficientSpace r a"
| "session_admission Mem_Contention = Session_Busy"
| "session_admission LayoutClosed = Session_Closed"
| "session_admission DuplicateAttachment = Session_DuplicateAttachment"
| "session_admission Mem_InvalidHeader = Session_InvalidHeader"
| "session_admission (LayoutMismatch f) = Session_LayoutMismatch f"
| "session_admission PoisonedComposition = Session_Poisoned"
| "session_admission Mem_Overflow = Session_Overflow"
| "session_admission ParticipantExhausted = Session_ParticipantExhausted"

record session =
  sn_dir :: mapped
  sn_heap :: mapped
  sn_handle :: talc_handle
  sn_info :: talc_info

text \<open>The address of the allocator's own words in the heap's header, from which its pointers are relative.\<close>

definition heap_base :: "mapped \<Rightarrow> nat" where
  "heap_base m = map_start (rg_map (mp_region m)) + mp_offset m + size talc_header_layout - TALC_META_SIZE"

text \<open>
  A failure gives up what the composition holds so far: the directory's membership when the directory was placed, and
  the participant slot.
\<close>

definition from_config ::
    "nat \<Rightarrow> build_area \<Rightarrow> talc_config \<Rightarrow> (('i, 'b) session_space, (session, mem_error) result) prog" where
  "from_config fuel area conf =
     (let give_up = (\<lambda>e. bind (in_session_root (region_detach (bd_area area))) (\<lambda>_. Ret (Err e))) in
      bind (in_session_dir (build_push fuel area directory_trait ())) (\<lambda>(res, area). case res of
        Err e \<Rightarrow> give_up e
      | Ok dm \<Rightarrow>
          let leave = (\<lambda>e. bind (in_session_dir (drop_mapped dm)) (\<lambda>_. give_up e)) in
          case build_reserve area talc_header_layout of
            Err e \<Rightarrow> leave e
          | Ok (offset, next) \<Rightarrow> (case with_bound (remaining_after area next) conf of
              None \<Rightarrow> Panic
            | Some conf \<Rightarrow>
                let hm = \<lparr>mp_region = bd_area area, mp_offset = offset, mp_attached = True\<rparr> in
                bind (in_session_heap (commit_reserved fuel area (talc_trait (heap_base hm)) offset next conf)) (\<lambda>(res, area).
                case res of
                  Err e \<Rightarrow> leave e
                | Ok hm \<Rightarrow> load (\<lambda>s. hd_info (ss_heap s)) (\<lambda>info.
                    Ret (Ok \<lparr>sn_dir = dm, sn_heap = hm,
                      sn_handle = from_handle (heap_base hm) (mem_slot (rg_member (mp_region hm))) info, sn_info = info\<rparr>))))))"

definition session_admit ::
    "nat \<Rightarrow> (mapping, 'e) result \<Rightarrow> region_admission \<Rightarrow> talc_geometry option \<Rightarrow>
     (('i, 'b) session_space, (session, 'e session_error) result) prog" where
  "session_admit fuel mapped_source adm geometry = (case mapped_source of
     Err e \<Rightarrow> Ret (Err (Session_Source e))
   | Ok m \<Rightarrow> attempt (map_err_prog session_admission (in_session_root (build_new fuel m adm))) (\<lambda>area.
       let conf = talc_config_new (map_len (rg_map (bd_area area)));
           conf = (case geometry of Some g \<Rightarrow> with_geometry g conf | None \<Rightarrow> conf) in
       map_err_prog session_admission (from_config fuel area conf)))"

definition session_create ::
    "nat \<Rightarrow> (mapping, 'e) result \<Rightarrow> region_id \<Rightarrow> talc_geometry option \<Rightarrow>
     (('i, 'b) session_space, (session, 'e session_error) result) prog" where
  "session_create fuel mapped_source i geometry = session_admit fuel mapped_source (Create i) geometry"

definition session_open ::
    "nat \<Rightarrow> (mapping, 'e) result \<Rightarrow> region_id \<Rightarrow> (('i, 'b) session_space, (session, 'e session_error) result) prog" where
  "session_open fuel mapped_source i = session_admit fuel mapped_source (Expect i) None"

text \<open>The directory's view of a session; \<open>dbg\<close> says whether debug assertions are compiled in.\<close>

definition session_handle :: "bool \<Rightarrow> session \<Rightarrow> dir_handle" where
  "session_handle dbg sn =
     \<lparr>dh_area = mp_region (sn_dir sn), dh_heap = sn_handle sn, dh_heap_region = rg_id (mp_region (sn_heap sn)),
      dh_info = sn_info sn, dh_debug = dbg\<rparr>"

section \<open>Channels of a session\<close>

datatype channel_create_error = InvalidCapacity | Create_Exhausted

datatype channel_admit_error =
    Admit_WrongRegion port | Admit_Stale port | Admit_Occupied port | Admit_Terminal port | Admit_Orphaned port | Admit_Open port

datatype remove_error = Remove_Busy | Remove_Evidence

abbreviation in_body :: "nat \<Rightarrow> ('b, 'a) prog \<Rightarrow> (('i, 'b) space, 'a) prog" where
  "in_body offset p \<equiv> in_layout offset (within hd_inner (\<lambda>b h. h\<lparr>hd_inner := b\<rparr>) p)"

definition create_channel ::
    "nat \<Rightarrow> dir_handle \<Rightarrow> duplex_layouts \<Rightarrow> schema_key \<Rightarrow> (u64, 'a duplex) rc_header \<Rightarrow> nat \<Rightarrow>
     ((u64, 'a duplex) space, (channel_role \<times> port \<times> mapped, channel_create_error) result) prog" where
  "create_channel fuel h dl schema zero cap = (case duplex_geometry_of dl cap of
     Err _ \<Rightarrow> Ret (Err InvalidCapacity)
   | Ok g \<Rightarrow> bind (create_in fuel h (duplex_trait dl schema) zero cap (dg_layout g)) (\<lambda>res. case res of
       Err _ \<Rightarrow> Ret (Err Create_Exhausted)
     | Ok (i, mp) \<Rightarrow>
         let i = \<lparr>ci_inner = i, ci_capacity = of_nat cap\<rparr> in
         bind (in_body (mp_offset mp) (channel_creator g i (mem_slot (rg_member (mp_region mp))))) (\<lambda>(r, generation).
         Ret (Ok (r, port_new i 1 generation, mp)))))"

primrec admit_error_of :: "port \<Rightarrow> role_admit_error \<Rightarrow> channel_admit_error" where
  "admit_error_of p Role_Stale = Admit_Stale p"
| "admit_error_of p Role_Occupied = Admit_Occupied p"
| "admit_error_of p Role_Terminal = Admit_Terminal p"
| "admit_error_of p Role_Orphaned = Admit_Orphaned p"
| "admit_error_of p Role_Open = Admit_Open p"

definition session_adopt ::
    "nat \<Rightarrow> dir_handle \<Rightarrow> duplex_layouts \<Rightarrow> schema_key \<Rightarrow> port \<Rightarrow>
     ((u64, 'a duplex) space, (channel_role \<times> mapped, channel_admit_error) result) prog" where
  "session_adopt fuel h dl schema p =
     (if id_region (ci_inner (port_id p)) \<noteq> dh_region_id h then Ret (Err (Admit_WrongRegion p))
      else bind (dir_open fuel h (duplex_trait dl schema) (ci_inner (port_id p)) (unat (ci_capacity (port_id p)))) (\<lambda>res.
        case res of
          Err _ \<Rightarrow> Ret (Err (Admit_Open p))
        | Ok mp \<Rightarrow> bind (in_layout (mp_offset mp) (channel_adopt dl mp p)) (\<lambda>res. case res of
            Ok r \<Rightarrow> Ret (Ok (r, mp)) | Err e \<Rightarrow> Ret (Err (admit_error_of p e)))))"

text \<open>
  Removal. The payloads of undelivered messages are released by \<open>release\<close> in the rest of the state, where the pools are.
\<close>

abbreviation on_space :: "(('i, 'b) space, 'a) prog \<Rightarrow> (('i, 'b) space \<times> 'w, 'a) prog" where
  "on_space \<equiv> within fst (\<lambda>x t. (x, snd t))"

definition session_remove ::
    "bool list \<Rightarrow> nat \<Rightarrow> dir_handle \<Rightarrow> duplex_layouts \<Rightarrow> schema_key \<Rightarrow> bool \<Rightarrow> channel_role \<Rightarrow> mapped \<Rightarrow>
     ('a \<Rightarrow> ('w, bool) prog) \<Rightarrow> ((u64, 'a duplex) space \<times> 'w, (unit, remove_error) result) prog" where
  "session_remove bs fuel h dl schema unique r mp release =
     (let on_both = within (\<lambda>t. (hd_inner (sp_layouts (fst t) (mp_offset mp)), snd t))
            (\<lambda>p t. (put_layout (mp_offset mp) ((sp_layouts (fst t) (mp_offset mp))\<lparr>hd_inner := fst p\<rparr>) (fst t), snd p)) in
      if \<not> unique then Ret (Err Remove_Busy)
      else bind (on_space (in_layout (mp_offset mp) header_layout_id)) (\<lambda>lid.
      bind (on_space (dir_matches h (ci_inner (cr_id r)) lid)) (\<lambda>ok.
      if \<not> ok then Ret (Err Remove_Busy)
      else bind (on_both (close_with bs fuel r release)) (\<lambda>res. case res of
        Err Close_Busy \<Rightarrow> Ret (Err Remove_Busy)
      | Err Close_Evidence \<Rightarrow> Ret (Err Remove_Evidence)
      | Ok _ \<Rightarrow> bind (on_space (in_body (mp_offset mp) (peer_is_unowned r))) (\<lambda>unowned.
          if \<not> unowned then Ret (Err Remove_Busy)
          else bind (on_space (in_body (mp_offset mp) (into_closed_mapped unique r))) (\<lambda>closed.
          if \<not> closed then Ret (Err Remove_Busy)
          else case duplex_geometry_of dl (unat (ci_capacity (cr_id r))) of
            Err _ \<Rightarrow> Panic
          | Ok g \<Rightarrow> bind (on_space (remove_in h (duplex_trait dl schema) (ci_inner (cr_id r)) mp (dg_layout g))) (\<lambda>res.
              case res of Ok _ \<Rightarrow> Ret (Ok ()) | Err _ \<Rightarrow> Ret (Err Remove_Busy))))))))"

section \<open>Reaping\<close>

record ('i, 'b) recovery_handler =
  rh_schema :: schema_key
  rh_profile :: abi_profile
  rh_run :: "dir_id \<Rightarrow> recorded_layout \<Rightarrow> u8 \<Rightarrow> u8 \<Rightarrow> (('i, 'b) space, bool) prog"

definition handler_of ::
    "dir_handle \<Rightarrow> ('c, 'i, 'b) layout_trait \<Rightarrow> ('i \<Rightarrow> nat \<Rightarrow> u8 \<Rightarrow> u8 \<Rightarrow> nat \<Rightarrow> (('i, 'b) space, bool) prog) \<Rightarrow>
     ('i, 'b) recovery_handler" where
  "handler_of h t repair = \<lparr>rh_schema = lt_schema t, rh_profile = native_profile, rh_run = recover_layout h t repair\<rparr>"

text \<open>Exactly one handler, of the built-in one and those given, must match each layout.\<close>

definition scan_recovery ::
    "dir_handle \<Rightarrow> u8 \<Rightarrow> u8 \<Rightarrow> ('i, 'b) recovery_handler list \<Rightarrow> (('i, 'b) space, bool) prog" where
  "scan_recovery h dead live handlers = bind (dir_scan h (\<lambda>i rec _.
     case filter (\<lambda>x. rh_schema x = rl_schema rec \<and> rh_profile x = rl_profile rec) handlers of
       [x] \<Rightarrow> bind (rh_run x i rec dead live) (\<lambda>ok. Ret (ok, ()))
     | _ \<Rightarrow> Ret (False, ())) ()) (\<lambda>res. case res of Ok (complete, _) \<Rightarrow> Ret complete | Err _ \<Rightarrow> Ret False)"

definition assume_dead :: "member \<Rightarrow> (('i, 'b) session_space, member option) prog" where
  "assume_dead peer = in_session_root (region_mark_dead peer)"

definition reap_with ::
    "dir_handle \<Rightarrow> ('i, 'b) recovery_handler list \<Rightarrow> member \<Rightarrow> (('i, 'b) session_space, bool) prog" where
  "reap_with h handlers mb =
     (if mb = rg_member (dh_area h) then Ret False
      else
        let dead = mem_slot mb; live = dh_slot h;
            finish = bind (in_session_heap (finish_recovery dead)) (\<lambda>ok. if \<not> ok then Ret False else
              bind (in_space (scan_recovery h dead live handlers)) (\<lambda>ok. if \<not> ok then Ret False else
              bind (in_space (scan_recovery h dead live handlers)) (\<lambda>ok. if \<not> ok then Ret False else
              bind (in_session_dir (recover_member dead)) (\<lambda>_.
              bind (in_session_dir (has_member dead)) (\<lambda>left. if left then Ret False else
              in_session_root (region_release_dead mb)))))) in
        bind (in_space transaction_owner) (\<lambda>own. case own of
          None \<Rightarrow> finish
        | Some own \<Rightarrow>
            if own = dead then bind (in_space (dir_recover h dead)) (\<lambda>res. case res of
              Err _ \<Rightarrow> Ret False | Ok _ \<Rightarrow> finish)
            else Ret False))"

end
