(* ===== verification/Spec2Isabelle.thy ===== *)
theory Spec2Isabelle
  imports Schema Queue_Concurrent Queue_Fifo Queue_Repair_Limits Header_Admission Pool_Exclusive Talc_Search Notify Session
begin

text \<open>
  Evering: shared-memory channels between processes. Skeleton of the development; the components
  are \<open>Schema\<close> (identities), \<open>Queue\<close> (the bounded ring), and the theories they share, \<open>Prelude\<close>,
  \<open>Atomic\<close> and \<open>Alloc_Layout\<close>.
\<close>

end
